(* ===== verification/Prelude.thy ===== *)
theory Prelude
  imports Main "HOL-Library.Word" "HOL-Library.AList"
begin

unbundle bit_operations_syntax

text \<open>
  What the component theories share: names for the machine types of the Rust sources, the result
  type of fallible code with the question-mark operator, little- and big-endian byte encodings,
  the part of the Rust string library the sources use (strings are lists of UTF-8 bytes, one
  \<^typ>\<open>char\<close> per byte), decimal and hexadecimal digits, concurrent hash maps as association lists,
  and the three interface locales (prefix codecs, codecs with a remainder, and invariants of a
  step relation) that the components instantiate.
\<close>

section \<open>Automation and names of types\<close>

named_theorems wire_simps \<open>sizes and round trips of byte encodings\<close>
named_theorems const_defs \<open>values of the named constants\<close>
named_theorems op_defs \<open>unfolding of the operations of a component\<close>

type_synonym u8 = "8 word"
type_synonym u16 = "16 word"
type_synonym u32 = "32 word"
type_synonym u64 = "64 word"
type_synonym bytes = "8 word list"

section \<open>Fallible code\<close>

fun and_then :: "'e + 'a \<Rightarrow> ('a \<Rightarrow> 'e + 'b) \<Rightarrow> 'e + 'b" where
  "and_then (Inl e) f = Inl e"
| "and_then (Inr x) f = f x"

fun ok_or :: "'e \<Rightarrow> 'a option \<Rightarrow> 'e + 'a" where
  "ok_or e None = Inl e"
| "ok_or e (Some x) = Inr x"

fun result_ok :: "'e + 'a \<Rightarrow> 'a option" where
  "result_ok (Inl e) = None"
| "result_ok (Inr x) = Some x"

section \<open>Byte order\<close>

fun le_bytes :: "nat \<Rightarrow> nat \<Rightarrow> bytes" where
  "le_bytes 0 x = []"
| "le_bytes (Suc n) x = of_nat (x mod 256) # le_bytes n (x div 256)"

fun le_nat :: "bytes \<Rightarrow> nat" where
  "le_nat [] = 0"
| "le_nat (b # bs) = unat b + 256 * le_nat bs"

definition to_le_bytes :: "'a::len word \<Rightarrow> bytes" where
  "to_le_bytes w = le_bytes (LENGTH('a) div 8) (unat w)"

definition from_le_bytes :: "bytes \<Rightarrow> 'a::len word" where
  "from_le_bytes bs = of_nat (le_nat bs)"

definition to_be_bytes :: "'a::len word \<Rightarrow> bytes" where
  "to_be_bytes w = rev (to_le_bytes w)"

definition from_be_bytes :: "bytes \<Rightarrow> 'a::len word" where
  "from_be_bytes bs = from_le_bytes (rev bs)"

text \<open>\<open>b[i..j]\<close>\<close>

definition slice :: "'a list \<Rightarrow> nat \<Rightarrow> nat \<Rightarrow> 'a list" where
  "slice b i j = take (j - i) (drop i b)"

text \<open>\<open>saturating_sub\<close> on an unsigned machine type\<close>

definition saturating_sub :: "'a::len word \<Rightarrow> 'a word \<Rightarrow> 'a word" where
  "saturating_sub a b = (if a < b then 0 else a - b)"

text \<open>\<open>Ord::clamp\<close>, and \<open>saturating_add\<close> on \<open>usize\<close> (64 bits)\<close>

definition clamp :: "'a::linorder \<Rightarrow> 'a \<Rightarrow> 'a \<Rightarrow> 'a" where
  "clamp x lo hi = (if x < lo then lo else if x > hi then hi else x)"

definition usize_saturating_add :: "nat \<Rightarrow> nat \<Rightarrow> nat" where
  "usize_saturating_add a b = min (a + b) (2 ^ 64 - 1)"

section \<open>Strings\<close>

definition byte_of_char :: "char \<Rightarrow> u8" where
  "byte_of_char c = of_nat (of_char c)"

definition char_of_byte :: "u8 \<Rightarrow> char" where
  "char_of_byte b = char_of (unat b)"

definition as_bytes :: "string \<Rightarrow> bytes" where
  "as_bytes s = map byte_of_char s"

definition utf8_cont :: "u8 \<Rightarrow> bool" where
  "utf8_cont b \<longleftrightarrow> 0x80 \<le> b \<and> b \<le> 0xBF"

fun utf8_valid :: "bytes \<Rightarrow> bool" where
  "utf8_valid [] = True"
| "utf8_valid (b # bs) =
     (if b < 0x80 then utf8_valid bs
      else if 0xC2 \<le> b \<and> b \<le> 0xDF then
        (case bs of c1 # r \<Rightarrow> utf8_cont c1 \<and> utf8_valid r | _ \<Rightarrow> False)
      else if 0xE0 \<le> b \<and> b \<le> 0xEF then
        (case bs of c1 # c2 # r \<Rightarrow>
           utf8_cont c1 \<and> utf8_cont c2 \<and> (b = 0xE0 \<longrightarrow> 0xA0 \<le> c1) \<and> (b = 0xED \<longrightarrow> c1 \<le> 0x9F) \<and>
           utf8_valid r
         | _ \<Rightarrow> False)
      else if 0xF0 \<le> b \<and> b \<le> 0xF4 then
        (case bs of c1 # c2 # c3 # r \<Rightarrow>
           utf8_cont c1 \<and> utf8_cont c2 \<and> utf8_cont c3 \<and> (b = 0xF0 \<longrightarrow> 0x90 \<le> c1) \<and>
           (b = 0xF4 \<longrightarrow> c1 \<le> 0x8F) \<and> utf8_valid r
         | _ \<Rightarrow> False)
      else False)"

definition from_utf8 :: "bytes \<Rightarrow> string option" where
  "from_utf8 bs = (if utf8_valid bs then Some (map char_of_byte bs) else None)"

definition is_str :: "string \<Rightarrow> bool" where
  "is_str s \<longleftrightarrow> utf8_valid (as_bytes s)"

fun split_once :: "char \<Rightarrow> string \<Rightarrow> (string \<times> string) option" where
  "split_once c [] = None"
| "split_once c (x # xs) =
     (if x = c then Some ([], xs)
      else (case split_once c xs of None \<Rightarrow> None | Some (a, b) \<Rightarrow> Some (x # a, b)))"

definition rsplit_once :: "char \<Rightarrow> string \<Rightarrow> (string \<times> string) option" where
  "rsplit_once c s = (case split_once c (rev s) of None \<Rightarrow> None | Some (a, b) \<Rightarrow> Some (rev b, rev a))"

fun split_on :: "char \<Rightarrow> string \<Rightarrow> string list" where
  "split_on c [] = [[]]"
| "split_on c (x # xs) =
     (if x = c then [] # split_on c xs
      else (case split_on c xs of [] \<Rightarrow> [[x]] | w # ws \<Rightarrow> (x # w) # ws))"

definition strip_prefix :: "string \<Rightarrow> string \<Rightarrow> string option" where
  "strip_prefix p s = (if take (length p) s = p then Some (drop (length p) s) else None)"

definition starts_with :: "string \<Rightarrow> string \<Rightarrow> bool" where
  "starts_with p s \<longleftrightarrow> take (length p) s = p"

section \<open>Digits\<close>

definition is_ascii_digit :: "char \<Rightarrow> bool" where
  "is_ascii_digit c \<longleftrightarrow> (let n = of_char c :: nat in 48 \<le> n \<and> n \<le> 57)"

definition is_ascii_alphabetic :: "char \<Rightarrow> bool" where
  "is_ascii_alphabetic c \<longleftrightarrow>
     (let n = of_char c :: nat in (65 \<le> n \<and> n \<le> 90) \<or> (97 \<le> n \<and> n \<le> 122))"

definition is_ascii_alphanumeric :: "char \<Rightarrow> bool" where
  "is_ascii_alphanumeric c \<longleftrightarrow> is_ascii_digit c \<or> is_ascii_alphabetic c"

definition digit_char :: "nat \<Rightarrow> char" where
  "digit_char d = char_of (if d < 10 then 48 + d else 87 + d)"

definition to_digit16 :: "char \<Rightarrow> nat option" where
  "to_digit16 c =
     (let n = of_char c :: nat in
      if 48 \<le> n \<and> n \<le> 57 then Some (n - 48)
      else if 97 \<le> n \<and> n \<le> 102 then Some (n - 87)
      else if 65 \<le> n \<and> n \<le> 70 then Some (n - 55)
      else None)"

fun show_dec :: "nat \<Rightarrow> string" where
  "show_dec n = (if n < 10 then [digit_char n] else show_dec (n div 10) @ [digit_char (n mod 10)])"

declare show_dec.simps [simp del]

definition dec_value :: "string \<Rightarrow> nat" where
  "dec_value s = foldl (\<lambda>acc c. 10 * acc + (of_char c - 48)) 0 s"

definition parse_uint :: "nat \<Rightarrow> string \<Rightarrow> nat option" where
  "parse_uint w s =
     (let t = (case s of c # r \<Rightarrow> if c = CHR ''+'' then r else s | [] \<Rightarrow> []) in
      if t = [] \<or> \<not> list_all is_ascii_digit t then None
      else if dec_value t < 2 ^ w then Some (dec_value t) else None)"

section \<open>Concurrent hash maps\<close>

text \<open>
  A \<open>DashMap\<close> or \<open>HashMap\<close> is an association list with distinct keys; its order stands for the
  (unspecified) iteration order. Look-up, insertion and removal are \<^const>\<open>map_of\<close>,
  \<^const>\<open>AList.update\<close> and \<^const>\<open>AList.delete\<close>.
\<close>

type_synonym ('k, 'v) dmap = "('k \<times> 'v) list"

abbreviation dm_ok :: "('k, 'v) dmap \<Rightarrow> bool" where
  "dm_ok m \<equiv> distinct (map fst m)"

definition dm_contains :: "('k, 'v) dmap \<Rightarrow> 'k \<Rightarrow> bool" where
  "dm_contains m k \<longleftrightarrow> map_of m k \<noteq> None"

definition dm_retain :: "('k \<Rightarrow> 'v \<Rightarrow> bool) \<Rightarrow> ('k, 'v) dmap \<Rightarrow> ('k, 'v) dmap" where
  "dm_retain P m = filter (\<lambda>(k, v). P k v) m"

definition dm_all :: "('v \<Rightarrow> bool) \<Rightarrow> ('k, 'v) dmap \<Rightarrow> bool" where
  "dm_all P m \<longleftrightarrow> list_all (\<lambda>p. P (snd p)) m"

section \<open>Lemmas on results\<close>

lemma and_then_Inr_iff [simp]: "and_then r f = Inr y \<longleftrightarrow> (\<exists>x. r = Inr x \<and> f x = Inr y)"
  by (cases r) auto

lemma and_then_Inl_iff: "and_then r f = Inl e \<longleftrightarrow> r = Inl e \<or> (\<exists>x. r = Inr x \<and> f x = Inl e)"
  by (cases r) auto

lemma ok_or_Inr_iff [simp]: "ok_or e r = Inr y \<longleftrightarrow> r = Some y"
  by (cases r) auto

lemma result_ok_Some_iff [simp]: "result_ok r = Some y \<longleftrightarrow> r = Inr y"
  by (cases r) auto

lemma result_ok_None_iff [simp]: "result_ok r = None \<longleftrightarrow> (\<exists>e. r = Inl e)"
  by (cases r) auto

section \<open>Lemmas on machine arithmetic\<close>

lemma unat_inc: "e < m \<Longrightarrow> unat (e + 1) = Suc (unat (e :: 'a::len word))"
proof -
  assume "e < m"
  then have "unat e < unat m" by (simp add: word_less_nat_alt)
  moreover have "unat m < 2 ^ LENGTH('a)" by (rule unsigned_less)
  ultimately have "unat e + 1 < 2 ^ LENGTH('a)" by linarith
  then show ?thesis
    using unat_add_lem [of e 1] by simp
qed

lemma unat_dec: "e \<noteq> 0 \<Longrightarrow> unat (e - 1) = unat (e :: 'a::len word) - 1"
  by (simp add: unat_minus_one)

lemma saturating_dec [simp]: "e \<noteq> 0 \<Longrightarrow> saturating_sub e 1 = (e - 1 :: 'a::len word)"
  by (auto simp: saturating_sub_def word_less_nat_alt unat_eq_0)

section \<open>Lemmas on byte order\<close>

lemma length_le_bytes [simp, wire_simps]: "length (le_bytes n x) = n"
  by (induction n arbitrary: x) auto

lemma le_nat_le_bytes [simp, wire_simps]: "le_nat (le_bytes n x) = x mod 256 ^ n"
proof (induction n arbitrary: x)
  case (Suc n)
  have "unat (of_nat (x mod 256) :: u8) = x mod 256"
    by (simp add: unat_of_nat take_bit_eq_mod)
  then show ?case
    by (simp add: Suc mod_mult2_eq)
qed simp

lemma le_bytes_le_nat [simp, wire_simps]: "le_bytes (length bs) (le_nat bs) = bs"
proof (induction bs)
  case (Cons b bs)
  have b: "unat b < 256"
    using unsigned_less [of b] by simp
  then have "(unat b + 256 * le_nat bs) mod 256 = unat b"
    and "(unat b + 256 * le_nat bs) div 256 = le_nat bs"
    by simp_all
  then show ?case
    using Cons by simp
qed simp

lemma le_nat_less: "le_nat bs < 256 ^ length bs"
proof -
  have "le_nat bs = le_nat bs mod 256 ^ length bs"
    by (metis le_bytes_le_nat le_nat_le_bytes)
  then show ?thesis
    by (metis mod_less_divisor zero_less_numeral zero_less_power)
qed

lemma length_to_le_bytes [simp, wire_simps]:
  "length (to_le_bytes (w :: 'a::len word)) = LENGTH('a) div 8"
  by (simp add: to_le_bytes_def)

lemma length_to_be_bytes [simp, wire_simps]:
  "length (to_be_bytes (w :: 'a::len word)) = LENGTH('a) div 8"
  by (simp add: to_be_bytes_def)

lemma le_round_trip:
  assumes "LENGTH('a::len) = 8 * n"
  shows "from_le_bytes (to_le_bytes (w :: 'a word)) = w"
proof -
  have "(256::nat) ^ n = 2 ^ LENGTH('a)"
    by (simp add: assms power_mult)
  then have "unat w mod 256 ^ n = unat w"
    by (simp add: unsigned_less)
  then show ?thesis
    by (simp add: from_le_bytes_def to_le_bytes_def assms)
qed

lemma le_bytes_round_trip:
  assumes "LENGTH('a::len) = 8 * length bs"
  shows "to_le_bytes (from_le_bytes bs :: 'a word) = bs"
proof -
  have "(256::nat) ^ length bs = 2 ^ LENGTH('a)"
    by (simp add: assms power_mult)
  then have "unat (of_nat (le_nat bs) :: 'a word) = le_nat bs"
    using le_nat_less [of bs] by (simp add: unat_of_nat take_bit_nat_eq_self_iff)
  then show ?thesis
    by (simp add: from_le_bytes_def to_le_bytes_def assms)
qed

lemma from_le_to_le [simp, wire_simps]:
  "from_le_bytes (to_le_bytes (a :: u8)) = a"
  "from_le_bytes (to_le_bytes (b :: u16)) = b"
  "from_le_bytes (to_le_bytes (c :: u32)) = c"
  "from_le_bytes (to_le_bytes (d :: u64)) = d"
  by (simp_all add: le_round_trip [of 1] le_round_trip [of 2] le_round_trip [of 4] le_round_trip [of 8])

lemma from_be_to_be [simp, wire_simps]:
  "from_be_bytes (to_be_bytes (b :: u16)) = b"
  "from_be_bytes (to_be_bytes (c :: u32)) = c"
  "from_be_bytes (to_be_bytes (d :: u64)) = d"
  "from_be_bytes (to_be_bytes (e :: 128 word)) = e"
  by (simp_all add: from_be_bytes_def to_be_bytes_def le_round_trip [of 16])

lemma to_le_inj [simp, wire_simps]:
  "to_le_bytes (b :: u16) = to_le_bytes b' \<longleftrightarrow> b = b'"
  "to_le_bytes (c :: u32) = to_le_bytes c' \<longleftrightarrow> c = c'"
  "to_le_bytes (d :: u64) = to_le_bytes d' \<longleftrightarrow> d = d'"
  by (metis from_le_to_le)+

section \<open>Lemmas on strings and digits\<close>

lemma of_char_less: "of_char c < (256 :: nat)"
  by (metis mod_less_divisor of_char_mod_256 zero_less_numeral)

lemma char_byte_inverse [simp]:
  "char_of_byte (byte_of_char c) = c"
  "byte_of_char (char_of_byte b) = b"
proof -
  have "of_char c < (256 :: nat)"
    by (rule of_char_less)
  then show "char_of_byte (byte_of_char c) = c"
    by (simp add: char_of_byte_def byte_of_char_def unat_of_nat take_bit_nat_eq_self_iff)
  have "unat b < 256"
    using unsigned_less [of b] by simp
  then show "byte_of_char (char_of_byte b) = b"
    by (simp add: char_of_byte_def byte_of_char_def)
qed

lemma length_as_bytes [simp, wire_simps]: "length (as_bytes s) = length s"
  by (simp add: as_bytes_def)

lemma as_bytes_append [simp]: "as_bytes (s @ t) = as_bytes s @ as_bytes t"
  by (simp add: as_bytes_def)

lemma as_bytes_inj [simp]: "as_bytes s = as_bytes t \<longleftrightarrow> s = t"
  unfolding as_bytes_def by (rule inj_map_eq_map) (metis char_byte_inverse(1) injI)

lemma from_utf8_as_bytes [simp, wire_simps]: "is_str s \<Longrightarrow> from_utf8 (as_bytes s) = Some s"
  by (simp add: from_utf8_def is_str_def as_bytes_def comp_def)

lemma from_utf8_Some: "from_utf8 bs = Some s \<Longrightarrow> is_str s \<and> as_bytes s = bs"
  by (auto simp: from_utf8_def is_str_def as_bytes_def comp_def split: if_splits)

lemma ascii_is_str: "list_all (\<lambda>c. of_char c < (128 :: nat)) s \<Longrightarrow> is_str s"
proof (induction s)
  case (Cons c s)
  then have "byte_of_char c < 0x80"
    by (simp add: byte_of_char_def word_less_nat_alt unat_of_nat take_bit_nat_eq_self_iff)
  with Cons show ?case
    by (simp add: is_str_def as_bytes_def)
qed (simp add: is_str_def as_bytes_def)

lemma split_on_no_sep [simp]: "c \<notin> set s \<Longrightarrow> split_on c s = [s]"
  by (induction s) auto

lemma split_on_sep [simp]: "c \<notin> set s \<Longrightarrow> split_on c (s @ c # t) = s # split_on c t"
  by (induction s) auto

lemma split_once_sep [simp]: "c \<notin> set s \<Longrightarrow> split_once c (s @ c # t) = Some (s, t)"
  by (induction s) auto

lemma split_once_None [simp]: "split_once c s = None \<longleftrightarrow> c \<notin> set s"
  by (induction s) (auto split: option.splits)

lemma split_once_Some: "split_once c s = Some (a, b) \<longleftrightarrow> s = a @ c # b \<and> c \<notin> set a"
proof
  show "split_once c s = Some (a, b) \<Longrightarrow> s = a @ c # b \<and> c \<notin> set a"
    by (induction s arbitrary: a) (auto split: option.splits if_splits)
qed auto

lemma rsplit_once_sep [simp]: "c \<notin> set t \<Longrightarrow> rsplit_once c (s @ c # t) = Some (s, t)"
  by (simp add: rsplit_once_def)

lemma append_sep_inj:
  fixes c :: char
  assumes "c \<notin> set t" "c \<notin> set t'"
  shows "s @ c # t = s' @ c # t' \<longleftrightarrow> s = s' \<and> t = t'"
proof
  assume "s @ c # t = s' @ c # t'"
  then have "rsplit_once c (s @ c # t) = rsplit_once c (s' @ c # t')" by simp
  with assms show "s = s' \<and> t = t'" by simp
qed simp

lemma strip_prefix_append [simp]: "strip_prefix p (p @ s) = Some s"
  by (simp add: strip_prefix_def)

lemma of_char_digit_char: "d < 16 \<Longrightarrow> of_char (digit_char d) = (if d < 10 then 48 + d else 87 + d)"
  by (simp add: digit_char_def)

lemma to_digit16_digit_char [simp]: "d < 16 \<Longrightarrow> to_digit16 (digit_char d) = Some d"
  by (simp add: to_digit16_def of_char_digit_char)

lemma is_ascii_digit_digit_char [simp]: "d < 10 \<Longrightarrow> is_ascii_digit (digit_char d)"
  by (simp add: is_ascii_digit_def of_char_digit_char)

lemma show_dec_digits: "list_all is_ascii_digit (show_dec n)"
proof (induction n rule: show_dec.induct)
  case (1 n)
  then show ?case
    by (subst show_dec.simps) simp
qed

lemma show_dec_nonempty [simp]: "show_dec n \<noteq> []"
  by (subst show_dec.simps) simp

lemma dec_value_snoc: "dec_value (s @ [c]) = 10 * dec_value s + (of_char c - 48)"
  by (simp add: dec_value_def)

lemma dec_value_show_dec [simp]: "dec_value (show_dec n) = n"
proof (induction n rule: show_dec.induct)
  case (1 n)
  show ?case
  proof (cases "n < 10")
    case True
    then show ?thesis
      by (subst show_dec.simps) (simp add: dec_value_def of_char_digit_char)
  next
    case False
    then have "dec_value (show_dec n) = dec_value (show_dec (n div 10) @ [digit_char (n mod 10)])"
      by (subst show_dec.simps) simp
    also have "\<dots> = 10 * (n div 10) + n mod 10"
      using 1 False by (simp add: dec_value_snoc of_char_digit_char)
    finally show ?thesis by simp
  qed
qed

lemma show_dec_inj [simp]: "show_dec m = show_dec n \<longleftrightarrow> m = n"
  by (metis dec_value_show_dec)

lemma digit_neq [simp]:
  "is_ascii_digit c \<Longrightarrow> c \<noteq> CHR ''+''" "is_ascii_digit c \<Longrightarrow> c \<noteq> CHR ''.''"
  "is_ascii_digit c \<Longrightarrow> c \<noteq> CHR ''|''" "is_ascii_digit c \<Longrightarrow> c \<noteq> CHR '':''"
  by (auto simp: is_ascii_digit_def)

lemma show_dec_no_sep:
  "CHR ''.'' \<notin> set (show_dec n)" "CHR ''|'' \<notin> set (show_dec n)" "CHR '':'' \<notin> set (show_dec n)"
  using show_dec_digits [of n] by (auto simp: list_all_iff dest!: bspec simp: is_ascii_digit_def)

lemma parse_uint_show_dec [simp]: "n < 2 ^ w \<Longrightarrow> parse_uint w (show_dec n) = Some n"
proof -
  assume n: "n < 2 ^ w"
  obtain c r where cr: "show_dec n = c # r"
    by (cases "show_dec n") auto
  then have "c \<noteq> CHR ''+''"
    using show_dec_digits [of n] by auto
  then show ?thesis
    using n show_dec_digits [of n] dec_value_show_dec [of n] cr by (simp add: parse_uint_def)
qed

lemma parse_uint_less: "parse_uint w s = Some n \<Longrightarrow> n < 2 ^ w"
  by (auto simp: parse_uint_def Let_def split: if_splits list.splits)

section \<open>Lemmas on hash maps\<close>

lemma dm_contains_iff [simp]: "dm_contains m k \<longleftrightarrow> k \<in> fst ` set m"
  by (simp add: dm_contains_def map_of_eq_None_iff)

lemma length_dm_delete:
  "dm_ok m \<Longrightarrow> length (AList.delete k m) = (if k \<in> fst ` set m then length m - 1 else length m)"
proof (induction m)
  case (Cons p m)
  show ?case
  proof (cases "fst p = k")
    case True
    with Cons.prems have "k \<notin> fst ` set m" by auto
    with True show ?thesis by (cases p) simp
  next
    case False
    with Cons show ?thesis
      by (cases p; cases m) auto
  qed
qed simp

lemma length_dm_insert:
  "k \<notin> fst ` set m \<Longrightarrow> length (AList.update k v m) = Suc (length m)"
  by (induction m) auto

lemma dm_ok_insert [simp]: "dm_ok m \<Longrightarrow> dm_ok (AList.update k v m)"
  by (rule distinct_update)

lemma dm_ok_delete [simp]: "dm_ok m \<Longrightarrow> dm_ok (AList.delete k m)"
  by (rule distinct_delete)

lemma dm_ok_retain [simp]: "dm_ok m \<Longrightarrow> dm_ok (dm_retain P m)"
  unfolding dm_retain_def by (rule distinct_map_filter)

lemma map_of_dm_retain:
  "dm_ok m \<Longrightarrow> map_of (dm_retain P m) k = (case map_of m k of None \<Rightarrow> None | Some v \<Rightarrow> if P k v then Some v else None)"
  by (induction m) (auto simp: dm_retain_def map_of_eq_None_iff split: option.splits intro: rev_image_eqI)

lemma sum_dm_update:
  fixes f :: "'v \<Rightarrow> nat"
  shows "map_of m k = Some v \<Longrightarrow>
    sum_list (map (f \<circ> snd) (AList.update k v' m)) + f v = sum_list (map (f \<circ> snd) m) + f v'"
  by (induction m) auto

lemma sum_dm_insert:
  fixes f :: "'v \<Rightarrow> nat"
  shows "k \<notin> fst ` set m \<Longrightarrow>
    sum_list (map (f \<circ> snd) (AList.update k v m)) = sum_list (map (f \<circ> snd) m) + f v"
  by (induction m) auto

lemma member_le_sum_dm:
  fixes f :: "'v \<Rightarrow> nat"
  shows "map_of m k = Some v \<Longrightarrow> f v \<le> sum_list (map (f \<circ> snd) m)"
  by (induction m) (auto split: if_splits)

lemma dm_delete_filter: "AList.delete k m = filter (\<lambda>p. fst p \<noteq> k) m"
  by (induction m) auto

lemma dm_update_all: "dm_all P m \<Longrightarrow> P v \<Longrightarrow> dm_all P (AList.update k v m)"
  unfolding dm_all_def by (induction m) auto

lemma dm_all_map_of: "dm_all P m \<Longrightarrow> map_of m k = Some v \<Longrightarrow> P v"
  unfolding dm_all_def by (metis list_all_iff map_of_SomeD prod.sel(2))

section \<open>Interfaces\<close>

text \<open>
  A decoder that reads its fields by prefix: it recovers the encoded value whatever bytes follow.
\<close>

locale prefix_codec =
  fixes enc :: "'a \<Rightarrow> bytes"
    and dec :: "bytes \<Rightarrow> 'a option"
    and valid :: "'a \<Rightarrow> bool"
  assumes dec_enc_tail: "valid x \<Longrightarrow> dec (enc x @ tail) = Some x"
begin

lemma dec_enc: "valid x \<Longrightarrow> dec (enc x) = Some x"
  using dec_enc_tail [of x "[]"] by simp

lemma enc_inj: "valid x \<Longrightarrow> valid y \<Longrightarrow> enc x = enc y \<Longrightarrow> x = y"
  by (metis dec_enc option.inject)

lemma enc_prefix_free: "valid x \<Longrightarrow> valid y \<Longrightarrow> enc x @ r = enc y @ s \<Longrightarrow> x = y \<and> r = s"
  by (metis dec_enc_tail option.inject same_append_eq)

end

text \<open>A decoder that also says what it left unread.\<close>

locale codec =
  fixes enc :: "'a \<Rightarrow> bytes"
    and dec_rest :: "bytes \<Rightarrow> ('a \<times> bytes) option"
    and valid :: "'a \<Rightarrow> bool"
  assumes dec_enc_rest: "valid x \<Longrightarrow> dec_rest (enc x @ tail) = Some (x, tail)"

sublocale codec \<subseteq> prefix: prefix_codec enc "\<lambda>bs. map_option fst (dec_rest bs)" valid
  by unfold_locales (simp add: dec_enc_rest)

context codec
begin

fun dec_list :: "nat \<Rightarrow> bytes \<Rightarrow> ('a list \<times> bytes) option" where
  "dec_list 0 bs = Some ([], bs)"
| "dec_list (Suc n) bs =
     (case dec_rest bs of None \<Rightarrow> None
      | Some (x, r) \<Rightarrow> map_option (\<lambda>(xs, r'). (x # xs, r')) (dec_list n r))"

lemma dec_list_enc:
  "list_all valid xs \<Longrightarrow> dec_list (length xs) (concat (map enc xs) @ tail) = Some (xs, tail)"
  by (induction xs) (simp_all add: dec_enc_rest)

end

text \<open>
  An invariant of a step relation: established by the initial states and kept by every step, so it
  holds in every state a run reaches.
\<close>

locale invariant_system =
  fixes init :: "'s \<Rightarrow> bool"
    and step :: "'s \<Rightarrow> 's \<Rightarrow> bool"
    and inv :: "'s \<Rightarrow> bool"
  assumes init_inv: "init s \<Longrightarrow> inv s"
    and step_inv: "inv s \<Longrightarrow> step s t \<Longrightarrow> inv t"
begin

lemma steps_inv: "step\<^sup>*\<^sup>* s t \<Longrightarrow> inv s \<Longrightarrow> inv t"
  by (induction rule: rtranclp_induct) (auto intro: step_inv)

lemma reachable_inv: "init s \<Longrightarrow> step\<^sup>*\<^sup>* s t \<Longrightarrow> inv t"
  by (blast intro: init_inv steps_inv)

end

end
