(* ===== verification/Crypto.thy ===== *)
theory Crypto
  imports Prelude
begin

text \<open>
  Model of \<open>src/proto/crypto.rs\<close>: key derivation, the AEAD wrapper, the nonce counters of the four
  channels of a session, the replay window of the datagram channel, bearer tokens and the payload
  of the in-band AUTH frame. ChaCha20-Poly1305, HKDF-SHA256 and HMAC-SHA256 are third-party crates:
  they are the fields of a parameter of type \<open>crypto_lib\<close>. The clock and the random
  generator are arguments.
\<close>

section \<open>Constants\<close>

definition PROTO_VERSION :: u8 where [const_defs]: "PROTO_VERSION = 2"
definition MAX_PLAINTEXT :: nat where [const_defs]: "MAX_PLAINTEXT = 16 * 1024"
definition MAX_PLAINTEXT_CAP :: nat where [const_defs]: "MAX_PLAINTEXT_CAP = 1024 * 1024"
definition SALT_LEN :: nat where [const_defs]: "SALT_LEN = 16"
definition KEY_LEN :: nat where [const_defs]: "KEY_LEN = 32"
definition MAC_LEN :: nat where [const_defs]: "MAC_LEN = 32"
definition TAG_LEN :: nat where [const_defs]: "TAG_LEN = 16"
definition AUTH_WINDOW :: u64 where [const_defs]: "AUTH_WINDOW = 60"

section \<open>The cryptographic library\<close>

record crypto_lib =
  aead_encrypt :: "bytes \<Rightarrow> bytes \<Rightarrow> bytes \<Rightarrow> bytes \<Rightarrow> (bytes \<times> bytes) option"
  aead_decrypt :: "bytes \<Rightarrow> bytes \<Rightarrow> bytes \<Rightarrow> bytes \<Rightarrow> bytes \<Rightarrow> bytes option"
  hkdf_expand :: "bytes \<Rightarrow> bytes \<Rightarrow> bytes \<Rightarrow> bytes"
  hmac_sha256 :: "bytes \<Rightarrow> bytes \<Rightarrow> bytes"

text \<open>
  \<open>aead_encrypt L key nonce aad plaintext\<close> is the ciphertext and the detached tag, and
  \<open>aead_decrypt L key nonce aad ciphertext tag\<close> the plaintext. The code relies on: the ciphertext
  has the length of the plaintext, the tag has 16 bytes, and decryption inverts encryption
  (\<open>aead_ok\<close>); encryption succeeds on every frame the protocol can carry
  (\<open>aead_total\<close>); HMAC-SHA256 yields 32 bytes (\<open>hmac_ok\<close>).
\<close>

definition aead_ok :: "crypto_lib \<Rightarrow> bool" where
  "aead_ok L \<longleftrightarrow>
     (\<forall>k n a p c t. aead_encrypt L k n a p = Some (c, t) \<longrightarrow>
        length c = length p \<and> length t = TAG_LEN \<and> aead_decrypt L k n a c t = Some p)"

definition aead_total :: "crypto_lib \<Rightarrow> bool" where
  "aead_total L \<longleftrightarrow>
     (\<forall>k n a p. length p \<le> MAX_PLAINTEXT_CAP \<longrightarrow> aead_encrypt L k n a p \<noteq> None)"

definition hmac_ok :: "crypto_lib \<Rightarrow> bool" where
  "hmac_ok L \<longleftrightarrow> (\<forall>k m. length (hmac_sha256 L k m) = MAC_LEN)"

datatype crypto_error =
  AeadSealFailed | AeadOpenFailed | CiphertextTooShort | AuthPayloadTruncated | BadUtf8

section \<open>Keys\<close>

definition hkdf_sha256 :: "crypto_lib \<Rightarrow> bytes \<Rightarrow> bytes \<Rightarrow> bytes \<Rightarrow> bytes" where
  "hkdf_sha256 L ikm salt info = hkdf_expand L salt ikm info"

definition derive_static_key :: "crypto_lib \<Rightarrow> string \<Rightarrow> string \<Rightarrow> bytes" where
  "derive_static_key L password uid =
     hkdf_sha256 L (as_bytes password) (as_bytes ''newppp-v1'') (as_bytes (''newppp/auth/'' @ uid))"

definition derive_session_key :: "crypto_lib \<Rightarrow> bytes \<Rightarrow> bytes \<Rightarrow> bytes" where
  "derive_session_key L static_key salt =
     hkdf_sha256 L static_key salt (as_bytes ''newppp/session'')"

section \<open>The AEAD wrapper\<close>

record frame_cipher =
  aead_key :: bytes

definition frame_cipher_new :: "bytes \<Rightarrow> frame_cipher" where
  "frame_cipher_new key = \<lparr>aead_key = key\<rparr>"

definition nonce_for :: "u64 \<Rightarrow> bytes" where
  "nonce_for counter = [0, 0, 0, 0] @ to_be_bytes counter"

text \<open>The encrypted buffer and the tag, or the error (the buffer is then left as it was).\<close>

definition seal_slice ::
  "crypto_lib \<Rightarrow> frame_cipher \<Rightarrow> u64 \<Rightarrow> bytes \<Rightarrow> bytes \<Rightarrow> crypto_error + bytes \<times> bytes" where
  "seal_slice L fc counter aad buf =
     ok_or AeadSealFailed (aead_encrypt L (aead_key fc) (nonce_for counter) aad buf)"

definition seal ::
  "crypto_lib \<Rightarrow> frame_cipher \<Rightarrow> u64 \<Rightarrow> bytes \<Rightarrow> bytes \<Rightarrow> crypto_error + bytes" where
  "seal L fc counter aad plaintext =
     and_then (seal_slice L fc counter aad plaintext) (\<lambda>(buf, tag). Inr (buf @ tag))"

definition open_ct ::
  "crypto_lib \<Rightarrow> frame_cipher \<Rightarrow> u64 \<Rightarrow> bytes \<Rightarrow> bytes \<Rightarrow> crypto_error + bytes" where
  "open_ct L fc counter aad ciphertext =
     (if length ciphertext < TAG_LEN then Inl CiphertextTooShort
      else
        let ct = take (length ciphertext - TAG_LEN) ciphertext;
            tag = drop (length ciphertext - TAG_LEN) ciphertext
        in ok_or AeadOpenFailed (aead_decrypt L (aead_key fc) (nonce_for counter) aad ct tag))"

section \<open>Nonce counters\<close>

record counter_gen =
  cg_base :: u64
  cg_next :: u64

definition counter_stream :: counter_gen where
  "counter_stream = \<lparr>cg_base = 1, cg_next = 0\<rparr>"

definition counter_stream_server :: counter_gen where
  "counter_stream_server = \<lparr>cg_base = push_bit 62 1, cg_next = 0\<rparr>"

definition counter_datagram :: counter_gen where
  "counter_datagram = \<lparr>cg_base = push_bit 63 1, cg_next = 0\<rparr>"

definition counter_datagram_server :: counter_gen where
  "counter_datagram_server = \<lparr>cg_base = push_bit 63 1 OR push_bit 62 1, cg_next = 0\<rparr>"

definition counter_next :: "counter_gen \<Rightarrow> u64 \<times> counter_gen" where
  "counter_next g = (cg_base g + cg_next g, g\<lparr>cg_next := cg_next g + 1\<rparr>)"

section \<open>Replay window\<close>

record replay_window =
  rw_highest :: u64
  rw_mask :: u64

definition replay_window_new :: replay_window where
  "replay_window_new = \<lparr>rw_highest = 0, rw_mask = 0\<rparr>"

definition replay_check :: "replay_window \<Rightarrow> u64 \<Rightarrow> bool \<times> replay_window" where
  "replay_check w counter =
     (if counter = 0 then (False, w)
      else if rw_highest w = 0 then (True, w\<lparr>rw_highest := counter, rw_mask := 1\<rparr>)
      else if counter > rw_highest w then
        let shift = min (counter - rw_highest w) 64;
            m = (if shift = 64 then 1 else push_bit (unat shift) (rw_mask w) OR 1)
        in (True, w\<lparr>rw_mask := m, rw_highest := counter\<rparr>)
      else
        let d = rw_highest w - counter in
        if d \<ge> 64 \<or> rw_mask w AND push_bit (unat d) 1 \<noteq> 0 then (False, w)
        else (True, w\<lparr>rw_mask := rw_mask w OR push_bit (unat d) 1\<rparr>))"

section \<open>Constant-time comparison\<close>

text \<open>The loop \<open>diff |= a ^ b\<close> over the zipped bytes.\<close>

definition ct_diff :: "bytes \<Rightarrow> bytes \<Rightarrow> u8" where
  "ct_diff xs ys = foldl (\<lambda>diff (a, b). diff OR (a XOR b)) 0 (zip xs ys)"

section \<open>Bearer tokens\<close>

definition auth_mac :: "crypto_lib \<Rightarrow> bytes \<Rightarrow> string \<Rightarrow> u64 \<Rightarrow> bytes \<Rightarrow> bytes" where
  "auth_mac L key uid ts nonce =
     hmac_sha256 L key
       (as_bytes ''newppp-auth|'' @ as_bytes uid @ as_bytes ''|'' @ to_le_bytes ts @
        as_bytes ''|'' @ nonce)"

definition hex :: "bytes \<Rightarrow> string" where
  "hex b = concat (map (\<lambda>x. [digit_char (unat x div 16), digit_char (unat x mod 16)]) b)"

fun unhex_pairs :: "string \<Rightarrow> bytes option" where
  "unhex_pairs (a # b # r) =
     (case to_digit16 a of None \<Rightarrow> None | Some hi \<Rightarrow>
      (case to_digit16 b of None \<Rightarrow> None | Some lo \<Rightarrow>
       map_option (\<lambda>out. of_nat (push_bit 4 hi OR lo) # out) (unhex_pairs r)))"
| "unhex_pairs _ = Some []"

definition unhex :: "string \<Rightarrow> bytes option" where
  "unhex s = (if length s mod 2 \<noteq> 0 then None else unhex_pairs s)"

text \<open>\<open>match unhex(..) { Some(v) if v.len() == n => .., _ => return None }\<close>\<close>

definition unhex_exact :: "nat \<Rightarrow> string \<Rightarrow> bytes option" where
  "unhex_exact n s = (case unhex s of Some v \<Rightarrow> if length v = n then Some v else None | None \<Rightarrow> None)"

definition make_bearer :: "crypto_lib \<Rightarrow> u64 \<Rightarrow> bytes \<Rightarrow> bytes \<Rightarrow> string \<Rightarrow> string" where
  "make_bearer L now nonce key uid =
     (let mac = auth_mac L key uid now nonce in
      uid @ ''.'' @ show_dec (unat now) @ ''.'' @ hex nonce @ ''.'' @ hex mac)"

definition outside_window :: "u64 \<Rightarrow> u64 \<Rightarrow> u64 \<Rightarrow> bool" where
  "outside_window now ts window \<longleftrightarrow>
     saturating_sub now ts > window \<or> saturating_sub ts now > window"

definition verify_bearer_parts ::
  "crypto_lib \<Rightarrow> u64 \<Rightarrow> string \<Rightarrow> bytes \<Rightarrow> string \<Rightarrow> u64 \<Rightarrow> (u64 \<times> bytes) option" where
  "verify_bearer_parts L now token key expected_uid window =
     (case split_on CHR ''.'' token of [] \<Rightarrow> None | p0 # r0 \<Rightarrow>
      if p0 \<noteq> expected_uid then None else
      (case r0 of [] \<Rightarrow> None | p1 # r1 \<Rightarrow>
      (case parse_uint 64 p1 of None \<Rightarrow> None | Some ts_val \<Rightarrow>
      (case r1 of [] \<Rightarrow> None | p2 # r2 \<Rightarrow>
      (case unhex_exact SALT_LEN p2 of None \<Rightarrow> None | Some nonce \<Rightarrow>
      (case r2 of [] \<Rightarrow> None | p3 # r3 \<Rightarrow>
      (case unhex_exact MAC_LEN p3 of None \<Rightarrow> None | Some mac \<Rightarrow>
       let ts = of_nat ts_val in
       if r3 \<noteq> [] then None
       else if outside_window now ts window then None
       else if ct_diff (auth_mac L key expected_uid ts nonce) mac = 0 then Some (ts, nonce)
       else None)))))))"

definition bearer_uid :: "string \<Rightarrow> string option" where
  "bearer_uid token =
     (case split_on CHR ''.'' token of [] \<Rightarrow> None | s # _ \<Rightarrow> if s \<noteq> [] then Some s else None)"

section \<open>The AUTH payload\<close>

record auth_payload =
  ap_proto_version :: u8
  ap_salt :: bytes
  ap_ts :: u64
  ap_nonce :: bytes
  ap_uid :: string
  ap_mac :: bytes
  ap_max_plaintext :: u32

definition auth_encode :: "auth_payload \<Rightarrow> bytes" where
  "auth_encode ap =
     [ap_proto_version ap] @ ap_salt ap @ to_le_bytes (ap_ts ap) @ ap_nonce ap @
     [of_nat (length (ap_uid ap))] @ as_bytes (ap_uid ap) @ ap_mac ap @
     to_le_bytes (ap_max_plaintext ap)"

definition auth_decode :: "bytes \<Rightarrow> crypto_error + auth_payload" where
  "auth_decode b =
     (if length b < 1 + 16 + 8 + 16 + 1 + 32 then Inl AuthPayloadTruncated
      else
        let ver = b ! 0; salt = slice b 1 17; ts = from_le_bytes (slice b 17 25);
            nonce = slice b 25 41; ul = unat (b ! 41); p = 42
        in if length b < p + ul + 32 then Inl AuthPayloadTruncated
           else (case from_utf8 (slice b p (p + ul)) of
               None \<Rightarrow> Inl BadUtf8
             | Some uid \<Rightarrow>
                 let p1 = p + ul; mac = slice b p1 (p1 + 32); p2 = p1 + 32;
                     max_plaintext =
                       (if length b \<ge> p2 + 4 then from_le_bytes (slice b p2 (p2 + 4))
                        else of_nat MAX_PLAINTEXT)
                 in Inr \<lparr>ap_proto_version = ver, ap_salt = salt, ap_ts = ts, ap_nonce = nonce,
                         ap_uid = uid, ap_mac = mac, ap_max_plaintext = max_plaintext\<rparr>))"

definition proto_version_compatible :: "auth_payload \<Rightarrow> bool" where
  "proto_version_compatible ap \<longleftrightarrow> ap_proto_version ap = PROTO_VERSION"

definition auth_verify :: "crypto_lib \<Rightarrow> u64 \<Rightarrow> auth_payload \<Rightarrow> bytes \<Rightarrow> u64 \<Rightarrow> bool" where
  "auth_verify L now ap static_key window =
     (if outside_window now (ap_ts ap) window then False
      else ct_diff (auth_mac L static_key (ap_uid ap) (ap_ts ap) (ap_nonce ap)) (ap_mac ap) = 0)"

section \<open>Abstract view\<close>

subsection \<open>The four channels of a session\<close>

datatype channel = Client_Stream | Server_Stream | Client_Datagram | Server_Datagram

fun session_counters :: "channel \<Rightarrow> counter_gen" where
  "session_counters Client_Stream = counter_stream"
| "session_counters Server_Stream = counter_stream_server"
| "session_counters Client_Datagram = counter_datagram"
| "session_counters Server_Datagram = counter_datagram_server"

text \<open>The counters issued when the four generators of a session are called in a given order.\<close>

fun issue_run :: "(channel \<Rightarrow> counter_gen) \<Rightarrow> channel list \<Rightarrow> u64 list" where
  "issue_run g [] = []"
| "issue_run g (c # cs) =
     (let (n, gc) = counter_next (g c) in n # issue_run (g(c := gc)) cs)"

fun channel_base :: "channel \<Rightarrow> nat" where
  "channel_base Client_Stream = 1"
| "channel_base Server_Stream = 2 ^ 62"
| "channel_base Client_Datagram = 2 ^ 63"
| "channel_base Server_Datagram = 2 ^ 63 + 2 ^ 62"

definition issuing :: "(channel \<Rightarrow> counter_gen) \<Rightarrow> (channel \<Rightarrow> nat) \<Rightarrow> bool" where
  "issuing g k \<longleftrightarrow>
     (\<forall>c. cg_base (g c) = cg_base (session_counters c) \<and> cg_next (g c) = of_nat (k c))"

subsection \<open>What the replay window promises\<close>

text \<open>
  The abstract filter keeps the set of all accepted counters. It accepts a counter that is not 0,
  is new, and is less than 64 below the largest accepted one.
\<close>

definition fresh :: "nat set \<Rightarrow> nat \<Rightarrow> bool" where
  "fresh S c \<longleftrightarrow> c \<noteq> 0 \<and> c \<notin> S \<and> (\<forall>m\<in>S. m < c + 64)"

fun fresh_run :: "nat set \<Rightarrow> u64 list \<Rightarrow> bool list" where
  "fresh_run S [] = []"
| "fresh_run S (c # cs) =
     (if fresh S (unat c) then True # fresh_run (insert (unat c) S) cs else False # fresh_run S cs)"

fun replay_run :: "replay_window \<Rightarrow> u64 list \<Rightarrow> bool list" where
  "replay_run w [] = []"
| "replay_run w (c # cs) = (let (b, w') = replay_check w c in b # replay_run w' cs)"

definition window_repr :: "replay_window \<Rightarrow> nat set \<Rightarrow> bool" where
  "window_repr w S \<longleftrightarrow>
     finite S \<and> 0 \<notin> S \<and>
     (if S = {} then rw_highest w = 0
      else unat (rw_highest w) = Max S \<and>
           (\<forall>d<64. bit (rw_mask w) d \<longleftrightarrow> unat (rw_highest w) - d \<in> S))"

subsection \<open>Well-formed AUTH payloads\<close>

definition auth_wf :: "auth_payload \<Rightarrow> bool" where
  "auth_wf ap \<longleftrightarrow> length (ap_salt ap) = 16 \<and> length (ap_nonce ap) = 16 \<and> length (ap_mac ap) = 32 \<and>
     is_str (ap_uid ap) \<and> length (ap_uid ap) \<le> 255"

subsection \<open>A concrete library\<close>

text \<open>
  A computable instance of the cryptographic parameter, on which the hypotheses about it hold: the
  cipher adds a byte of the key to each byte, and tags are checksums.
\<close>

definition checksum :: "nat \<Rightarrow> bytes \<Rightarrow> bytes" where
  "checksum n bs = le_bytes n (le_nat bs)"

definition demo_lib :: crypto_lib where
  "demo_lib =
     \<lparr>aead_encrypt = (\<lambda>k n a p. let c = map (\<lambda>b. b + hd (k @ [0])) p in Some (c, checksum 16 (n @ a @ c))),
      aead_decrypt = (\<lambda>k n a c t. if t = checksum 16 (n @ a @ c) then Some (map (\<lambda>b. b - hd (k @ [0])) c) else None),
      hkdf_expand = (\<lambda>salt ikm info. checksum 32 (salt @ ikm @ info)),
      hmac_sha256 = (\<lambda>k m. checksum 32 (k @ m))\<rparr>"

definition demo_auth :: auth_payload where
  "demo_auth = \<lparr>ap_proto_version = 2, ap_salt = replicate 16 9, ap_ts = 77, ap_nonce = replicate 16 3,
     ap_uid = ''alice'', ap_mac = auth_mac demo_lib [5] ''alice'' 77 (replicate 16 3),
     ap_max_plaintext = 65536\<rparr>"

section \<open>Lemmas: AEAD wrapper\<close>

lemma nonce_for_inj [simp]: "nonce_for a = nonce_for b \<longleftrightarrow> a = b"
  by (simp add: nonce_for_def to_be_bytes_def)

lemma seal_slice_open:
  assumes "aead_ok L" "seal_slice L fc counter aad p = Inr (ct, tag)"
  shows "open_ct L fc counter aad (ct @ tag) = Inr p"
    and "length ct = length p" and "length tag = TAG_LEN"
  using assms by (auto simp: aead_ok_def seal_slice_def open_ct_def)

lemma seal_slice_total:
  assumes "aead_total L" "length p \<le> MAX_PLAINTEXT_CAP"
  obtains ct tag where "seal_slice L fc counter aad p = Inr (ct, tag)"
  using assms by (fastforce simp: aead_total_def seal_slice_def)

lemma demo_lib_ok [simp]: "aead_ok demo_lib" "aead_total demo_lib" "hmac_ok demo_lib"
  by (auto simp: aead_ok_def aead_total_def hmac_ok_def demo_lib_def checksum_def TAG_LEN_def
      MAC_LEN_def Let_def comp_def)

section \<open>Nonce counters: no nonce is used twice under a session key\<close>

lemma forall_channel:
  "(\<forall>c. P c) \<longleftrightarrow> P Client_Stream \<and> P Server_Stream \<and> P Client_Datagram \<and> P Server_Datagram"
  by (metis channel.exhaust)

lemma unat_base: "unat (cg_base (session_counters c)) = channel_base c"
  by (cases c) (simp_all add: counter_stream_def counter_stream_server_def counter_datagram_def
      counter_datagram_server_def)

lemma channel_ranges_disjoint:
  assumes "channel_base c + i = channel_base c' + j" "i < 2 ^ 62 - 1" "j < 2 ^ 62 - 1"
  shows "c = c' \<and> i = j"
  using assms by (cases c; cases c') auto

lemma issue_value:
  assumes "issuing g k" "k c < 2 ^ 62 - 1"
  shows "unat (fst (counter_next (g c))) = channel_base c + k c"
proof -
  have "channel_base c + k c < 2 ^ 64"
    using assms(2) by (cases c) auto
  moreover have "unat (of_nat (k c) :: u64) = k c"
    using assms(2) by (simp add: unat_of_nat take_bit_nat_eq_self_iff)
  ultimately show ?thesis
    using assms(1) unat_base [of c]
    by (simp add: issuing_def counter_next_def unat_word_ariths)
qed

lemma issue_next: "issuing g k \<Longrightarrow> issuing (g(c := snd (counter_next (g c)))) (k(c := Suc (k c)))"
  by (simp add: issuing_def counter_next_def)

lemma issue_run_values:
  assumes "issuing g k" "\<forall>c. k c + count_list cs c < 2 ^ 62"
  shows "(\<forall>v\<in>set (issue_run g cs).
            \<exists>c j. k c \<le> j \<and> j < 2 ^ 62 - 1 \<and> unat v = channel_base c + j) \<and>
         distinct (issue_run g cs)"
  using assms
proof (induction cs arbitrary: g k)
  case (Cons c cs)
  define g' where "g' = g(c := snd (counter_next (g c)))"
  define k' where "k' = k(c := Suc (k c))"
  define v where "v = fst (counter_next (g c))"
  have run: "issue_run g (c # cs) = v # issue_run g' cs"
    by (simp add: g'_def v_def split_def Let_def)
  have bound: "\<forall>c. k' c + count_list cs c < 2 ^ 62"
    using Cons.prems(2) by (auto simp: k'_def split: if_splits)
  have kc: "k c < 2 ^ 62 - 1"
    using bound by (auto simp: k'_def dest!: spec [of _ c])
  then have v: "unat v = channel_base c + k c"
    using Cons.prems(1) issue_value v_def by blast
  have kk: "k d \<le> k' d" for d by (simp add: k'_def)
  have "issuing g' k'"
    using Cons.prems(1) issue_next by (simp add: g'_def k'_def)
  note tail = Cons.IH [OF this bound]
  have "v \<notin> set (issue_run g' cs)"
  proof
    assume "v \<in> set (issue_run g' cs)"
    then obtain d j where "k' d \<le> j" "j < 2 ^ 62 - 1" "unat v = channel_base d + j"
      using tail by blast
    with v kc channel_ranges_disjoint [of c "k c" d j] show False
      by (auto simp: k'_def)
  qed
  moreover have "\<forall>v\<in>set (issue_run g' cs).
      \<exists>c j. k c \<le> j \<and> j < 2 ^ 62 - 1 \<and> unat v = channel_base c + j"
    using tail kk by (meson order_trans)
  ultimately show ?case
    unfolding run using tail v kc by auto
qed simp

text \<open>
  C5. Nonce uniqueness. A client and a server share one session key; each side draws AEAD nonces
  from a generator for stream frames and one for datagrams. However the calls to the four
  generators interleave, no nonce is produced twice as long as each generator is called fewer than
  \<open>2^62\<close> times.
\<close>

theorem session_nonces_distinct:
  assumes "\<forall>c. count_list cs c < 2 ^ 62"
  shows "distinct (map nonce_for (issue_run session_counters cs))"
proof -
  have "issuing session_counters (\<lambda>_. 0)"
    by (simp add: issuing_def counter_stream_def counter_stream_server_def
        counter_datagram_def counter_datagram_server_def forall_channel)
  with assms have "distinct (issue_run session_counters cs)"
    using issue_run_values [where k = "\<lambda>_. 0"] by simp
  then show ?thesis
    by (simp add: distinct_map inj_on_def)
qed

theorem session_nonces_distinct_witness:
  "distinct (map nonce_for (issue_run session_counters
     [Client_Stream, Server_Stream, Server_Stream, Client_Datagram, Client_Stream, Server_Datagram]))"
proof (rule session_nonces_distinct, rule allI)
  fix c
  show "count_list [Client_Stream, Server_Stream, Server_Stream, Client_Datagram, Client_Stream,
      Server_Datagram] c < 2 ^ 62"
    by (cases c) simp_all
qed

section \<open>The replay window implements the abstract filter\<close>

lemma window_repr_new: "window_repr replay_window_new {}"
  by (simp add: window_repr_def replay_window_new_def)

lemma window_repr_empty: "window_repr w S \<Longrightarrow> rw_highest w = 0 \<longleftrightarrow> S = {}"
  using Max_in by (fastforce simp: window_repr_def unat_eq_0 [symmetric] split: if_splits)

lemma bit_mask_iff: "m AND 2 ^ d = 0 \<longleftrightarrow> \<not> bit (m :: u64) d"
  using bit_iff_and_push_bit_not_eq_0 [of m d] by simp

lemma fresh_nonempty:
  assumes "finite S" "S \<noteq> {}"
  shows "fresh S c \<longleftrightarrow> c \<noteq> 0 \<and> c \<notin> S \<and> Max S < c + 64"
  using assms by (simp add: fresh_def)

lemma check_above:
  assumes "window_repr w S" "S \<noteq> {}" "rw_highest w < c"
  shows "fresh S (unat c)" and "window_repr (snd (replay_check w c)) (insert (unat c) S)"
proof -
  let ?h = "unat (rw_highest w)"
  have S: "finite S" "0 \<notin> S" "?h = Max S" "\<And>d. d < 64 \<Longrightarrow> bit (rw_mask w) d \<longleftrightarrow> ?h - d \<in> S"
    using assms by (auto simp: window_repr_def)
  have hc: "?h < unat c" using assms(3) by (simp add: word_less_nat_alt)
  have above: "\<And>x. ?h < x \<Longrightarrow> x \<notin> S" using S(1,3) by (auto simp: Max_less_iff leD)
  show "fresh S (unat c)"
    using hc above S assms(2) by (simp add: fresh_nonempty del: Max_less_iff)
  have diff: "unat (c - rw_highest w) = unat c - ?h"
    using assms(3) by (simp add: unat_sub)
  have nz: "rw_highest w \<noteq> 0" using assms window_repr_empty by blast
  have mx: "Max (insert (unat c) S) = unat c"
    using S hc assms(2) by simp
  let ?m = "rw_mask (snd (replay_check w c))"
  have "bit ?m d \<longleftrightarrow> unat c - d \<in> insert (unat c) S" if d: "d < 64" for d
  proof (cases "unat c - ?h < 64")
    case True
    then have "c - rw_highest w < 64"
      using diff by (simp add: word_less_nat_alt)
    then have "?m = push_bit (unat c - ?h) (rw_mask w) OR 1"
      using assms(3) nz diff by (auto simp: replay_check_def Let_def min_def)
    moreover have "unat c - d \<notin> S" if "d < unat c - ?h"
      using that above [of "unat c - d"] by linarith
    moreover have "bit (rw_mask w) (d - (unat c - ?h)) \<longleftrightarrow> unat c - d \<in> S" if "\<not> d < unat c - ?h"
      using that d hc S(4) [of "d - (unat c - ?h)"] by (simp add: algebra_simps)
    ultimately show ?thesis
      using d hc by (cases "d < unat c - ?h") (auto simp: bit_simps)
  next
    case False
    then have "\<not> c - rw_highest w < 64"
      using diff by (simp add: word_less_nat_alt)
    then have "?m = 1"
      using assms(3) nz by (auto simp: replay_check_def Let_def min_def not_less)
    then show ?thesis
      using d hc above [of "unat c - d"] False by (auto simp: bit_simps)
  qed
  moreover have "rw_highest (snd (replay_check w c)) = c"
    using assms(3) nz by (auto simp: replay_check_def Let_def)
  ultimately show "window_repr (snd (replay_check w c)) (insert (unat c) S)"
    using S hc mx by (auto simp: window_repr_def)
qed

lemma check_below:
  assumes "window_repr w S" "S \<noteq> {}" "c \<noteq> 0" "\<not> rw_highest w < c"
  shows "fst (replay_check w c) \<longleftrightarrow> fresh S (unat c)"
    and "fresh S (unat c) \<Longrightarrow> window_repr (snd (replay_check w c)) (insert (unat c) S)"
proof -
  let ?h = "unat (rw_highest w)" and ?d = "unat (rw_highest w - c)"
  have S: "finite S" "0 \<notin> S" "?h = Max S" "\<And>d. d < 64 \<Longrightarrow> bit (rw_mask w) d \<longleftrightarrow> ?h - d \<in> S"
    using assms by (auto simp: window_repr_def)
  have le: "unat c \<le> ?h" using assms(4) by (simp add: word_less_nat_alt)
  have d: "?d = ?h - unat c"
    using assms(4) by (simp add: unat_sub not_less)
  have nz: "rw_highest w \<noteq> 0" and c0: "0 < unat c" using assms window_repr_empty by (auto simp: unat_gt_0)
  have big: "64 \<le> rw_highest w - c \<longleftrightarrow> 64 \<le> ?d"
    by (simp add: word_le_nat_alt)
  have bit: "?d < 64 \<Longrightarrow> bit (rw_mask w) ?d \<longleftrightarrow> unat c \<in> S"
    using S(4) [of ?d] d le by simp
  have fr: "fresh S (unat c) \<longleftrightarrow> ?d < 64 \<and> unat c \<notin> S"
    using S assms(2) c0 d le by (auto simp: fresh_nonempty simp del: Max_less_iff)
  show "fst (replay_check w c) \<longleftrightarrow> fresh S (unat c)"
    using assms(3,4) nz bit fr big by (auto simp: replay_check_def Let_def bit_mask_iff not_le)
  assume "fresh S (unat c)"
  then have acc: "?d < 64" "unat c \<notin> S" using fr by auto
  then have "snd (replay_check w c) = w\<lparr>rw_mask := rw_mask w OR push_bit ?d 1\<rparr>"
    using assms(3,4) nz bit big by (auto simp: replay_check_def Let_def bit_mask_iff not_le)
  moreover have "Max (insert (unat c) S) = ?h"
    using S le assms(2) by simp
  moreover have "bit (rw_mask w OR push_bit ?d 1) e \<longleftrightarrow> ?h - e \<in> insert (unat c) S" if "e < 64" for e
    using that S(4) [OF that] d le c0 acc(1) by (auto simp: bit_simps)
  ultimately show "window_repr (snd (replay_check w c)) (insert (unat c) S)"
    using S c0 by (simp add: window_repr_def)
qed

lemma replay_check_step:
  assumes "window_repr w S"
  shows "fst (replay_check w c) = fresh S (unat c) \<and>
         window_repr (snd (replay_check w c)) (if fresh S (unat c) then insert (unat c) S else S)"
proof -
  consider "c = 0" | "c \<noteq> 0" "S = {}" | "S \<noteq> {}" "rw_highest w < c"
    | "c \<noteq> 0" "S \<noteq> {}" "\<not> rw_highest w < c" by blast
  then show ?thesis
  proof cases
    case 1
    then show ?thesis using assms by (simp add: replay_check_def fresh_def)
  next
    case 2
    then have "0 < unat c" by (simp add: unat_gt_0)
    with 2 show ?thesis
      using assms by (auto simp: replay_check_def fresh_def window_repr_def bit_simps)
  next
    case 3
    then have "fst (replay_check w c)"
      using window_repr_empty [OF assms] by (auto simp: replay_check_def Let_def)
    then show ?thesis using check_above [OF assms 3] by simp
  next
    case 4
    then show ?thesis
      using check_below [OF assms 4(2,1,3)] assms
      by (auto simp: replay_check_def Let_def)
  qed
qed

lemma replay_run_fresh: "window_repr w S \<Longrightarrow> replay_run w cs = fresh_run S cs"
proof (induction cs arbitrary: w S)
  case (Cons c cs)
  then show ?case
    using replay_check_step [OF Cons.prems, of c] by (auto simp: split_def Let_def)
qed simp

text \<open>
  C6. The 64-bit sliding window of the datagram channel implements the filter that remembers every
  accepted counter: on every sequence of counters it accepts exactly those that are not 0, were
  never accepted before, and are less than 64 below the largest accepted one.
\<close>

theorem replay_window_refines: "replay_run replay_window_new cs = fresh_run {} cs"
  by (rule replay_run_fresh [OF window_repr_new])

lemma fresh_run_distinct:
  "distinct (map fst (filter snd (zip cs (fresh_run S cs)))) \<and>
   (\<forall>c\<in>set (map fst (filter snd (zip cs (fresh_run S cs)))). unat c \<notin> S)"
proof (induction cs arbitrary: S)
  case (Cons c cs)
  show ?case
  proof (cases "fresh S (unat c)")
    case True
    then have "unat c \<notin> S" by (simp add: fresh_def)
    with True Cons [of "insert (unat c) S"] show ?thesis by force
  next
    case False
    with Cons [of S] show ?thesis by simp
  qed
qed simp

text \<open>
  Replay protection: whatever sequence of datagram counters arrives, no counter is accepted
  twice.
\<close>

theorem replay_window_no_replay:
  "distinct (map fst (filter snd (zip cs (replay_run replay_window_new cs))))"
  using fresh_run_distinct [of cs "{}"] replay_run_fresh [OF window_repr_new] by simp

section \<open>Lemmas: comparison, time window, hexadecimal\<close>

lemma ct_diff_fold_zero:
  "foldl (\<lambda>diff (a, b). diff OR (a XOR b)) d zs = (0 :: u8) \<longleftrightarrow> d = 0 \<and> (\<forall>(a, b)\<in>set zs. a = b)"
  by (induction zs arbitrary: d) (auto simp: or_eq_0_iff xor_self_eq bit_eq_iff bit_simps)

lemma ct_diff_zero_iff: "length xs = length ys \<Longrightarrow> ct_diff xs ys = 0 \<longleftrightarrow> xs = ys"
  unfolding ct_diff_def ct_diff_fold_zero
  by (induction xs ys rule: list_induct2) auto

lemma outside_window_iff:
  "outside_window now ts window \<longleftrightarrow>
     unat now > unat ts + unat window \<or> unat ts > unat now + unat window"
  by (auto simp: outside_window_def saturating_sub_def word_less_nat_alt unat_sub_if' not_less)

lemma push_bit_or: "lo < 16 \<Longrightarrow> push_bit 4 hi OR lo = 16 * hi + (lo :: nat)"
proof -
  assume "lo < 16"
  then have lo: "take_bit 4 lo = lo"
    by (simp add: take_bit_nat_eq_self_iff)
  have "push_bit 4 hi + take_bit 4 lo = push_bit 4 hi OR take_bit 4 lo"
    by (rule disjunctive_add) (auto simp: bit_simps)
  then show ?thesis
    by (simp add: lo push_bit_eq_mult)
qed

lemma unhex_pairs_hex: "unhex_pairs (hex b) = Some b"
proof (induction b)
  case (Cons x b)
  have "unat x < 256" using unsigned_less [of x] by simp
  then have "unat x div 16 < 16" by simp
  then show ?case
    using Cons by (simp add: hex_def push_bit_or)
qed (simp add: hex_def)

lemma length_hex: "length (hex b) = 2 * length b"
  by (induction b) (simp_all add: hex_def)

lemma unhex_hex [simp]: "unhex (hex b) = Some b"
  by (simp add: unhex_def unhex_pairs_hex length_hex)

lemma hex_inj [simp]: "hex a = hex b \<longleftrightarrow> a = b"
  by (metis option.inject unhex_hex)

lemma digit_char_no_sep: "d < 16 \<Longrightarrow> of_char (digit_char d) > (47 :: nat) \<and> of_char (digit_char d) < (103 :: nat)"
  by (simp add: of_char_digit_char)

lemma hex_no_sep: "of_char c < (48 :: nat) \<or> of_char c > (102 :: nat) \<Longrightarrow> c \<notin> set (hex b)"
proof (induction b)
  case (Cons x b)
  have "unat x < 256" using unsigned_less [of x] by simp
  then have "unat x div 16 < 16" by simp
  with Cons show ?case
    using digit_char_no_sep [of "unat x div 16"] digit_char_no_sep [of "unat x mod 16"]
    by (auto simp: hex_def)
qed (simp add: hex_def)

lemma unhex_exact_iff: "unhex_exact n s = Some v \<longleftrightarrow> unhex s = Some v \<and> length v = n"
  by (auto simp: unhex_exact_def split: option.splits)

section \<open>Bearer tokens\<close>

lemma verify_bearer_unfold:
  "verify_bearer_parts L now token key uid window = Some (ts, nonce) \<longleftrightarrow>
     (\<exists>p1 p2 p3 mac. split_on CHR ''.'' token = [uid, p1, p2, p3] \<and>
        parse_uint 64 p1 = Some (unat ts) \<and> unhex_exact SALT_LEN p2 = Some nonce \<and>
        unhex_exact MAC_LEN p3 = Some mac \<and> \<not> outside_window now ts window \<and>
        ct_diff (auth_mac L key uid ts nonce) mac = 0)"
  (is "?l \<longleftrightarrow> ?r")
proof
  show ?l if ?r
    using that by (auto simp: verify_bearer_parts_def)
next
  assume ?l
  then show ?r
    unfolding verify_bearer_parts_def
    by (fastforce split: list.splits option.splits if_splits dest: parse_uint_less
        simp: Let_def unat_of_nat take_bit_nat_eq_self_iff)
qed

text \<open>
  C33. A bearer token verifies exactly when it consists of four dot-separated fields, the expected
  user name, a decimal time stamp at most \<open>window\<close> seconds away from the clock in either
  direction, a 16-byte nonce in hexadecimal, and the hexadecimal HMAC of user, time stamp and nonce
  under the key of the user; what is returned are the time stamp and nonce the HMAC covers.
\<close>

theorem verify_bearer_iff:
  assumes "hmac_ok L"
  shows "verify_bearer_parts L now token key uid window = Some (ts, nonce) \<longleftrightarrow>
     (\<exists>p1 p2 p3. split_on CHR ''.'' token = [uid, p1, p2, p3] \<and>
        parse_uint 64 p1 = Some (unat ts) \<and> unhex p2 = Some nonce \<and> length nonce = 16 \<and>
        unhex p3 = Some (auth_mac L key uid ts nonce) \<and>
        unat now \<le> unat ts + unat window \<and> unat ts \<le> unat now + unat window)"
proof -
  have "length (auth_mac L key uid ts nonce) = MAC_LEN"
    using assms by (simp add: hmac_ok_def auth_mac_def)
  then show ?thesis
    unfolding verify_bearer_unfold unhex_exact_iff outside_window_iff
    by (auto simp: ct_diff_zero_iff SALT_LEN_def)
qed

theorem verify_bearer_iff_witness:
  "verify_bearer_parts demo_lib 1000 (make_bearer demo_lib 990 (replicate 16 7) [1] ''bob'') [1] ''bob'' 60
     = Some (990, replicate 16 7) \<longleftrightarrow>
   (\<exists>p1 p2 p3. split_on CHR ''.'' (make_bearer demo_lib 990 (replicate 16 7) [1] ''bob'') = [''bob'', p1, p2, p3] \<and>
      parse_uint 64 p1 = Some (unat (990 :: u64)) \<and> unhex p2 = Some (replicate 16 7) \<and>
      length (replicate 16 (7 :: u8)) = 16 \<and>
      unhex p3 = Some (auth_mac demo_lib [1] ''bob'' 990 (replicate 16 7)) \<and>
      unat (1000 :: u64) \<le> unat (990 :: u64) + unat (60 :: u64) \<and>
      unat (990 :: u64) \<le> unat (1000 :: u64) + unat (60 :: u64))"
  by (rule verify_bearer_iff) simp

lemma split_on_bearer:
  assumes "CHR ''.'' \<notin> set uid"
  shows "split_on CHR ''.'' (make_bearer L t nonce key uid) =
           [uid, show_dec (unat t), hex nonce, hex (auth_mac L key uid t nonce)]"
proof -
  have "of_char CHR ''.'' < (48 :: nat)" by simp
  then show ?thesis
    using assms show_dec_no_sep(1) hex_no_sep [of "CHR ''.''"] by (simp add: make_bearer_def Let_def)
qed

text \<open>
  A token the client makes is accepted by the server, with the client's time stamp and nonce,
  as long as the two clocks differ by at most \<open>window\<close> seconds when it arrives.
\<close>

theorem bearer_round_trip:
  assumes "hmac_ok L" "CHR ''.'' \<notin> set uid" "length nonce = SALT_LEN"
    and "unat now \<le> unat t + unat window" "unat t \<le> unat now + unat window"
  shows "verify_bearer_parts L now (make_bearer L t nonce key uid) key uid window = Some (t, nonce)"
proof -
  have "unat t < 2 ^ 64" using unsigned_less [of t] by simp
  then have "parse_uint 64 (show_dec (unat t)) = Some (unat t)" by (rule parse_uint_show_dec)
  moreover have "length (auth_mac L key uid t nonce) = MAC_LEN"
    using assms(1) by (simp add: hmac_ok_def auth_mac_def)
  ultimately show ?thesis
    using assms by (simp add: verify_bearer_unfold split_on_bearer unhex_exact_iff
        outside_window_iff ct_diff_zero_iff)
qed

theorem bearer_round_trip_witness:
  "verify_bearer_parts demo_lib 1000 (make_bearer demo_lib 990 (replicate 16 7) [1] ''bob'') [1] ''bob''
     AUTH_WINDOW = Some (990, replicate 16 7)"
  by (rule bearer_round_trip) (simp_all add: const_defs)

section \<open>The AUTH payload\<close>

lemma auth_decode_prefix:
  assumes "length salt = 16" "length nonce = 16" "length mac = 32" "is_str uid" "length uid \<le> 255"
  shows "auth_decode ([ver] @ salt @ to_le_bytes (ts :: u64) @ nonce @ [of_nat (length uid)] @
           as_bytes uid @ mac @ tail) =
         Inr \<lparr>ap_proto_version = ver, ap_salt = salt, ap_ts = ts, ap_nonce = nonce, ap_uid = uid,
              ap_mac = mac, ap_max_plaintext =
                (if length tail \<ge> 4 then from_le_bytes (take 4 tail) else of_nat MAX_PLAINTEXT)\<rparr>"
proof -
  have "unat (of_nat (length uid) :: u8) = length uid"
    using assms(5) by (simp add: unat_of_nat take_bit_nat_eq_self_iff)
  then show ?thesis
    using assms by (simp add: auth_decode_def slice_def Let_def nth_append drop_Cons')
qed

interpretation auth_codec: prefix_codec auth_encode "\<lambda>b. result_ok (auth_decode b)" auth_wf
proof
  fix ap tail
  assume "auth_wf ap"
  then show "result_ok (auth_decode (auth_encode ap @ tail)) = Some ap"
    using auth_decode_prefix [of "ap_salt ap" "ap_nonce ap" "ap_mac ap" "ap_uid ap" "ap_proto_version ap"
        "ap_ts ap" "to_le_bytes (ap_max_plaintext ap) @ tail"]
    by (simp add: auth_wf_def auth_encode_def)
qed

text \<open>
  Decoding an AUTH payload recovers every field that was encoded, whatever padding follows it;
  a payload that stops after the HMAC, as version 1 of the protocol sends it, decodes to the same
  fields with the 16 KiB baseline as frame limit.
\<close>

theorem auth_payload_round_trip:
  assumes "auth_wf ap"
  shows "auth_decode (auth_encode ap @ padding) = Inr ap \<and>
         auth_decode (take (length (auth_encode ap) - 4) (auth_encode ap)) =
           Inr (ap\<lparr>ap_max_plaintext := of_nat MAX_PLAINTEXT\<rparr>)"
proof
  show "auth_decode (auth_encode ap @ padding) = Inr ap"
    using auth_codec.dec_enc_tail [OF assms] by simp
  show "auth_decode (take (length (auth_encode ap) - 4) (auth_encode ap)) =
           Inr (ap\<lparr>ap_max_plaintext := of_nat MAX_PLAINTEXT\<rparr>)"
    using assms auth_decode_prefix [of "ap_salt ap" "ap_nonce ap" "ap_mac ap" "ap_uid ap"
        "ap_proto_version ap" "ap_ts ap" "[]"]
    by (simp add: auth_wf_def auth_encode_def take_Cons')
qed

lemma demo_auth_wf: "auth_wf demo_auth"
  using demo_lib_ok(3)
  by (simp add: demo_auth_def auth_wf_def ascii_is_str auth_mac_def hmac_ok_def MAC_LEN_def)

theorem auth_payload_round_trip_witness:
  "auth_decode (auth_encode demo_auth @ [0, 0, 0]) = Inr demo_auth \<and>
   auth_decode (take (length (auth_encode demo_auth) - 4) (auth_encode demo_auth)) =
     Inr (demo_auth\<lparr>ap_max_plaintext := of_nat MAX_PLAINTEXT\<rparr>)"
  by (rule auth_payload_round_trip) (rule demo_auth_wf)

text \<open>
  The HMAC check of the AUTH payload: a payload with a 32-byte HMAC field verifies exactly when
  its time stamp is within the window of the clock and that field is the HMAC of its user, time
  stamp and nonce; the byte-wise comparison without early exit is equality.
\<close>

theorem auth_verify_iff:
  assumes "hmac_ok L" "length (ap_mac ap) = MAC_LEN"
  shows "auth_verify L now ap key window \<longleftrightarrow>
     unat now \<le> unat (ap_ts ap) + unat window \<and> unat (ap_ts ap) \<le> unat now + unat window \<and>
     ap_mac ap = auth_mac L key (ap_uid ap) (ap_ts ap) (ap_nonce ap)"
proof -
  have "length (auth_mac L key (ap_uid ap) (ap_ts ap) (ap_nonce ap)) = MAC_LEN"
    using assms(1) by (simp add: hmac_ok_def auth_mac_def)
  then show ?thesis
    using assms(2) by (auto simp: auth_verify_def outside_window_iff ct_diff_zero_iff)
qed

theorem auth_verify_iff_witness: "auth_verify demo_lib 100 demo_auth [5] 60"
proof -
  have "length (ap_mac demo_auth) = MAC_LEN"
    using demo_auth_wf by (simp add: auth_wf_def MAC_LEN_def)
  from auth_verify_iff [OF demo_lib_ok(3) this] show ?thesis
    by (simp add: demo_auth_def)
qed

end
