(* ===== verification/Frame.thy ===== *)
theory Frame
  imports Crypto
begin

text \<open>
  Model of \<open>src/proto/frame.rs\<close>: the wire format of frames, the negotiated frame limit, the
  encoder, the buffering decoder, the pull reader over a byte stream, the push writer, and the
  payload of OPEN frames. A reader's byte stream is the list of results its successive reads return;
  the end of the list is the end of the stream. The writer is generic in what it writes to.
\<close>

section \<open>Constants and the frame limit\<close>

definition HEADER_LEN :: nat where [const_defs]: "HEADER_LEN = 20"
definition MAX_CIPHERTEXT :: nat where [const_defs]: "MAX_CIPHERTEXT = MAX_PLAINTEXT + TAG_LEN"
definition FLAG_FIN :: u16 where [const_defs]: "FLAG_FIN = 0x0001"
definition FLAG_RST :: u16 where [const_defs]: "FLAG_RST = 0x0002"
definition READ_BUF :: nat where [const_defs]: "READ_BUF = 16 * 1024"
definition PAD_MIN :: nat where [const_defs]: "PAD_MIN = 64"
definition PAD_MAX :: nat where [const_defs]: "PAD_MAX = 512"
definition OPEN_ERR_DIAL :: u8 where [const_defs]: "OPEN_ERR_DIAL = 1"
definition OPEN_ERR_LIMIT :: u8 where [const_defs]: "OPEN_ERR_LIMIT = 2"
definition OPEN_ERR_BAD_TARGET :: u8 where [const_defs]: "OPEN_ERR_BAD_TARGET = 3"
definition OPEN_ERR_DENIED :: u8 where [const_defs]: "OPEN_ERR_DENIED = 4"

definition negotiate :: "u32 \<Rightarrow> u32 \<Rightarrow> nat" where
  "negotiate client server = clamp (min (unat client) (unat server)) MAX_PLAINTEXT MAX_PLAINTEXT_CAP"

section \<open>Frames and headers\<close>

datatype frame_type =
  Auth | AuthOk | Open | OpenOk | OpenErr | Data | Close | Ping | Pong | UdpAssociate | UdpOk
  | UdpData | Error

fun frame_type_code :: "frame_type \<Rightarrow> u8" where
  "frame_type_code Auth = 1"
| "frame_type_code AuthOk = 2"
| "frame_type_code Open = 3"
| "frame_type_code OpenOk = 4"
| "frame_type_code OpenErr = 5"
| "frame_type_code Data = 6"
| "frame_type_code Close = 7"
| "frame_type_code Ping = 8"
| "frame_type_code Pong = 9"
| "frame_type_code UdpAssociate = 10"
| "frame_type_code UdpOk = 11"
| "frame_type_code UdpData = 12"
| "frame_type_code Error = 13"

definition from_u8 :: "u8 \<Rightarrow> frame_type option" where
  "from_u8 v =
     (if v = 1 then Some Auth else if v = 2 then Some AuthOk else if v = 3 then Some Open
      else if v = 4 then Some OpenOk else if v = 5 then Some OpenErr else if v = 6 then Some Data
      else if v = 7 then Some Close else if v = 8 then Some Ping else if v = 9 then Some Pong
      else if v = 10 then Some UdpAssociate else if v = 11 then Some UdpOk
      else if v = 12 then Some UdpData else if v = 13 then Some Error else None)"

record frame =
  f_type :: frame_type
  f_flags :: u16
  f_sid :: u32
  f_counter :: u64
  f_aad :: bytes
  f_payload :: bytes

record header_info =
  h_type :: frame_type
  h_flags :: u16
  h_sid :: u32
  h_ct_len :: nat
  h_counter :: u64
  h_aad :: bytes

datatype io_error = Io_Error string

datatype frame_error =
  UnsupportedVersion u8 | BadFrameType u8 | InvalidFrameLength nat | PayloadTooLarge
  | ReplayedCounter | TruncatedAtEof | OpenTruncated | OpenHostInvalid | OpenBadUtf8
  | CryptoFailed crypto_error | IoFailed io_error

definition build_header :: "frame_type \<Rightarrow> u16 \<Rightarrow> u32 \<Rightarrow> nat \<Rightarrow> u64 \<Rightarrow> bytes" where
  "build_header ft flags sid ct_len counter =
     [PROTO_VERSION, frame_type_code ft] @ to_le_bytes flags @ to_le_bytes sid @
     to_le_bytes (of_nat ct_len :: u32) @ to_le_bytes counter"

definition parse_header :: "bytes \<Rightarrow> frame_error + header_info" where
  "parse_header h =
     (if h ! 0 \<noteq> PROTO_VERSION then Inl (UnsupportedVersion (h ! 0))
      else and_then (ok_or (BadFrameType (h ! 1)) (from_u8 (h ! 1))) (\<lambda>ft.
        Inr \<lparr>h_type = ft, h_flags = from_le_bytes (slice h 2 4), h_sid = from_le_bytes (slice h 4 8),
             h_ct_len = unat (from_le_bytes (slice h 8 12) :: u32),
             h_counter = from_le_bytes (slice h 12 20), h_aad = slice h 0 12\<rparr>))"

section \<open>Encoder\<close>

record frame_encoder =
  enc_cipher :: frame_cipher
  enc_counters :: counter_gen
  enc_limit :: nat

definition frame_encoder_new :: "frame_cipher \<Rightarrow> counter_gen \<Rightarrow> frame_encoder" where
  "frame_encoder_new cipher counters =
     \<lparr>enc_cipher = cipher, enc_counters = counters, enc_limit = MAX_PLAINTEXT\<rparr>"

text \<open>Result, the encoder with its counter advanced, and the output buffer.\<close>

definition encode_into ::
  "crypto_lib \<Rightarrow> frame_encoder \<Rightarrow> frame_type \<Rightarrow> u16 \<Rightarrow> u32 \<Rightarrow> bytes \<Rightarrow> bytes \<Rightarrow>
   (frame_error + unit) \<times> frame_encoder \<times> bytes" where
  "encode_into L e ft flags sid payload out =
     (if length payload > enc_limit e then (Inl PayloadTooLarge, e, out)
      else
        let (counter, gen) = counter_next (enc_counters e);
            e' = e\<lparr>enc_counters := gen\<rparr>;
            header = build_header ft flags sid (length payload + TAG_LEN) counter;
            out1 = out @ header
        in (case seal_slice L (enc_cipher e) counter (take 12 header) payload of
              Inl err \<Rightarrow> (Inl (CryptoFailed err), e', out1 @ payload)
            | Inr (ct, tag) \<Rightarrow> (Inr (), e', (out1 @ ct) @ tag)))"

definition encode ::
  "crypto_lib \<Rightarrow> frame_encoder \<Rightarrow> frame_type \<Rightarrow> u16 \<Rightarrow> u32 \<Rightarrow> bytes \<Rightarrow>
   (frame_error + bytes) \<times> frame_encoder" where
  "encode L e ft flags sid payload =
     (let (r, e', out) = encode_into L e ft flags sid payload [] in
      (and_then r (\<lambda>_. Inr out), e'))"

section \<open>Decoder\<close>

record frame_decoder =
  dec_cipher :: "frame_cipher option"
  dec_window :: "replay_window option"
  dec_limit :: nat
  dec_buf :: bytes
  dec_raw :: bool

definition frame_decoder_new :: "frame_cipher option \<Rightarrow> replay_window option \<Rightarrow> nat \<Rightarrow> frame_decoder" where
  "frame_decoder_new cipher window limit =
     \<lparr>dec_cipher = cipher, dec_window = window, dec_limit = limit, dec_buf = [], dec_raw = False\<rparr>"

definition set_cipher :: "frame_decoder \<Rightarrow> frame_cipher \<Rightarrow> frame_decoder" where
  "set_cipher d cipher = d\<lparr>dec_cipher := Some cipher, dec_raw := False\<rparr>"

definition feed :: "frame_decoder \<Rightarrow> bytes \<Rightarrow> frame_decoder" where
  "feed d bs = d\<lparr>dec_buf := dec_buf d @ bs\<rparr>"

definition decoder_clear :: "frame_decoder \<Rightarrow> frame_decoder" where
  "decoder_clear d = d\<lparr>dec_buf := []\<rparr>"

text \<open>The payload of a complete frame, and the replay window after it.\<close>

definition open_payload ::
  "crypto_lib \<Rightarrow> frame_decoder \<Rightarrow> header_info \<Rightarrow> bytes \<Rightarrow>
   (frame_error + bytes) \<times> replay_window option" where
  "open_payload L d info ct =
     (if dec_raw d then (Inr ct, dec_window d)
      else (case dec_cipher d of
          None \<Rightarrow> (Inr ct, dec_window d)
        | Some cipher \<Rightarrow>
            (case open_ct L cipher (h_counter info) (h_aad info) ct of
               Inl e \<Rightarrow> (Inl (CryptoFailed e), dec_window d)
             | Inr payload \<Rightarrow>
                 (case dec_window d of
                    None \<Rightarrow> (Inr payload, None)
                  | Some w \<Rightarrow>
                      let (fresh, w') = replay_check w (h_counter info) in
                      if fresh then (Inr payload, Some w') else (Inl ReplayedCounter, Some w')))))"

definition next_frame ::
  "crypto_lib \<Rightarrow> frame_decoder \<Rightarrow> (frame_error + frame option) \<times> frame_decoder" where
  "next_frame L d =
     (if length (dec_buf d) < HEADER_LEN then (Inr None, d)
      else (case parse_header (take HEADER_LEN (dec_buf d)) of
          Inl e \<Rightarrow> (Inl e, d)
        | Inr info \<Rightarrow>
            let max_ct = usize_saturating_add (dec_limit d) TAG_LEN in
            if \<not> (TAG_LEN \<le> h_ct_len info \<and> h_ct_len info \<le> max_ct)
            then (Inl (InvalidFrameLength (h_ct_len info)), d)
            else if length (dec_buf d) < HEADER_LEN + h_ct_len info then (Inr None, d)
            else
              let rest = drop HEADER_LEN (dec_buf d);
                  ct = take (h_ct_len info) rest;
                  d1 = d\<lparr>dec_buf := drop (h_ct_len info) rest\<rparr>;
                  (r, w) = open_payload L d1 info ct;
                  d2 = d1\<lparr>dec_window := w\<rparr>
              in (and_then r (\<lambda>payload.
                    Inr (Some \<lparr>f_type = h_type info, f_flags = h_flags info, f_sid = h_sid info,
                               f_counter = h_counter info, f_aad = h_aad info,
                               f_payload = payload\<rparr>)), d2)))"

section \<open>Reader and writer\<close>

type_synonym byte_reads = "(io_error + bytes) list"

fun frame_read ::
  "crypto_lib \<Rightarrow> frame_decoder \<Rightarrow> byte_reads \<Rightarrow>
   (frame_error + frame option) \<times> frame_decoder \<times> byte_reads" where
  "frame_read L d src =
     (case next_frame L d of
        (Inl e, d') \<Rightarrow> (Inl e, d', src)
      | (Inr (Some f), d') \<Rightarrow> (Inr (Some f), d', src)
      | (Inr None, d') \<Rightarrow>
          (case src of
             [] \<Rightarrow> (if dec_buf d' = [] then Inr None else Inl TruncatedAtEof, d', [])
           | Inl e # r \<Rightarrow> (Inl (IoFailed e), d', r)
           | Inr bs # r \<Rightarrow>
               if bs = [] then (if dec_buf d' = [] then Inr None else Inl TruncatedAtEof, d', r)
               else frame_read L (feed d' bs) r))"

declare frame_read.simps [simp del]

record 'w frame_writer =
  fw_w :: 'w
  fw_enc :: frame_encoder
  fw_buf :: bytes

definition frame_write ::
  "crypto_lib \<Rightarrow> ('w \<Rightarrow> bytes \<Rightarrow> (io_error + unit) \<times> 'w) \<Rightarrow> 'w frame_writer \<Rightarrow> frame_type \<Rightarrow> u16 \<Rightarrow>
   u32 \<Rightarrow> bytes \<Rightarrow> (frame_error + unit) \<times> 'w frame_writer" where
  "frame_write L write_all fw ft flags sid payload =
     (let (r, e, buf) = encode_into L (fw_enc fw) ft flags sid payload [];
          fw1 = fw\<lparr>fw_enc := e, fw_buf := buf\<rparr>
      in (case r of
            Inl err \<Rightarrow> (Inl err, fw1)
          | Inr _ \<Rightarrow>
              (case write_all (fw_w fw) buf of
                 (Inl e, w) \<Rightarrow> (Inl (IoFailed e), fw1\<lparr>fw_w := w\<rparr>)
               | (Inr _, w) \<Rightarrow> (Inr (), fw1\<lparr>fw_w := w\<rparr>))))"

definition writer_set_cipher :: "'w frame_writer \<Rightarrow> frame_cipher \<Rightarrow> 'w frame_writer" where
  "writer_set_cipher fw cipher = fw\<lparr>fw_enc := (fw_enc fw)\<lparr>enc_cipher := cipher\<rparr>\<rparr>"

section \<open>OPEN payloads\<close>

definition encode_open :: "string \<Rightarrow> u16 \<Rightarrow> bytes" where
  "encode_open host port =
     to_le_bytes (of_nat (length host) :: u16) @ as_bytes host @ to_le_bytes port"

text \<open>The two random draws are arguments: a 32-bit number and the bytes that fill the pad.\<close>

definition random_padding :: "u32 \<Rightarrow> (nat \<Rightarrow> bytes) \<Rightarrow> bytes" where
  "random_padding r fill_bytes = fill_bytes (PAD_MIN + unat r mod (PAD_MAX - PAD_MIN))"

definition decode_open :: "bytes \<Rightarrow> frame_error + string \<times> u16" where
  "decode_open payload =
     (if length payload < 4 then Inl OpenTruncated
      else
        let hl = unat (from_le_bytes (slice payload 0 2) :: u16) in
        if \<not> (length payload \<ge> 2 + hl + 2 \<and> hl > 0 \<and> hl \<le> 255) then Inl OpenHostInvalid
        else (case from_utf8 (slice payload 2 (2 + hl)) of
            None \<Rightarrow> Inl OpenBadUtf8
          | Some host \<Rightarrow> Inr (host, from_le_bytes (slice payload (2 + hl) (2 + hl + 2)))))"

section \<open>Abstract view\<close>

text \<open>A message is what a caller passes to the encoder and what the peer reads.\<close>

type_synonym msg = "frame_type \<times> u16 \<times> u32 \<times> bytes"

definition msg_of :: "frame \<Rightarrow> msg" where
  "msg_of f = (f_type f, f_flags f, f_sid f, f_payload f)"

fun encode_all :: "crypto_lib \<Rightarrow> frame_encoder \<Rightarrow> msg list \<Rightarrow> bytes \<Rightarrow> frame_error + bytes" where
  "encode_all L e [] out = Inr out"
| "encode_all L e ((ft, flags, sid, payload) # ms) out =
     (let (r, e', out') = encode_into L e ft flags sid payload out in
      and_then r (\<lambda>_. encode_all L e' ms out'))"

text \<open>The results of \<open>n\<close> successive calls of the reader.\<close>

fun drain :: "crypto_lib \<Rightarrow> nat \<Rightarrow> frame_decoder \<Rightarrow> byte_reads \<Rightarrow> (frame_error + msg option) list" where
  "drain L 0 d src = []"
| "drain L (Suc n) d src =
     (let (r, d', src') = frame_read L d src in
      and_then r (\<lambda>f. Inr (map_option msg_of f)) # drain L n d' src')"

definition header_of :: "frame \<Rightarrow> bytes" where
  "header_of f = build_header (f_type f) (f_flags f) (f_sid f) (length (f_payload f) + TAG_LEN) (f_counter f)"

definition wire_frame :: "crypto_lib \<Rightarrow> frame_cipher \<Rightarrow> nat \<Rightarrow> frame \<Rightarrow> bytes \<Rightarrow> bool" where
  "wire_frame L c limit f w \<longleftrightarrow>
     length (f_payload f) \<le> limit \<and> limit \<le> MAX_PLAINTEXT_CAP \<and> f_aad f = take 12 (header_of f) \<and>
     (\<exists>ct tag. seal_slice L c (f_counter f) (f_aad f) (f_payload f) = Inr (ct, tag) \<and>
               w = header_of f @ ct @ tag)"

definition reads :: "frame_decoder \<Rightarrow> frame_cipher \<Rightarrow> nat \<Rightarrow> bool" where
  "reads d c limit \<longleftrightarrow>
     dec_cipher d = Some c \<and> dec_window d = None \<and> dec_limit d = limit \<and> \<not> dec_raw d"

text \<open>The buffer of a decoder that has been fed reads of at most 16 KiB.\<close>

definition buf_bounded :: "frame_decoder \<Rightarrow> bool" where
  "buf_bounded d \<longleftrightarrow>
     dec_limit d \<le> MAX_PLAINTEXT_CAP \<and>
     length (dec_buf d) < HEADER_LEN + dec_limit d + TAG_LEN + READ_BUF"

definition reader_step :: "crypto_lib \<Rightarrow> frame_decoder \<Rightarrow> frame_decoder \<Rightarrow> bool" where
  "reader_step L d d' \<longleftrightarrow>
     (\<exists>src r src'. (\<forall>bs. Inr bs \<in> set src \<longrightarrow> length bs \<le> READ_BUF) \<and> frame_read L d src = (r, d', src'))"

definition open_valid :: "string \<times> u16 \<Rightarrow> bool" where
  "open_valid hp \<longleftrightarrow> is_str (fst hp) \<and> fst hp \<noteq> [] \<and> length (fst hp) \<le> 255"

definition demo_encoder :: frame_encoder where
  "demo_encoder = frame_encoder_new (frame_cipher_new [5]) counter_stream"

section \<open>Lemmas: frame types and headers\<close>

lemma from_u8_code [simp]: "from_u8 (frame_type_code t) = Some t"
  by (cases t) (simp_all add: from_u8_def)

lemma length_build_header [simp, wire_simps]: "length (build_header ft fl sid n c) = HEADER_LEN"
  by (simp add: build_header_def HEADER_LEN_def)

lemma build_header_parts:
  "slice (build_header ft fl sid n c) 2 4 = to_le_bytes fl"
  "slice (build_header ft fl sid n c) 4 8 = to_le_bytes sid"
  "slice (build_header ft fl sid n c) 8 12 = to_le_bytes (of_nat n :: u32)"
  "slice (build_header ft fl sid n c) 12 20 = to_le_bytes c"
  by (simp_all add: build_header_def slice_def)

lemma parse_build_header:
  assumes "n < 2 ^ 32"
  shows "parse_header (build_header ft fl sid n c) =
    Inr \<lparr>h_type = ft, h_flags = fl, h_sid = sid, h_ct_len = n, h_counter = c,
         h_aad = take 12 (build_header ft fl sid n c)\<rparr>"
proof -
  have "unat (of_nat n :: u32) = n"
    using assms by (simp add: unat_of_nat take_bit_nat_eq_self_iff)
  moreover have "build_header ft fl sid n c ! 0 = PROTO_VERSION"
    "build_header ft fl sid n c ! 1 = frame_type_code ft"
    by (simp_all add: build_header_def)
  ultimately show ?thesis
    by (simp add: parse_header_def build_header_parts) (simp add: slice_def)
qed

lemma negotiate_bounds: "MAX_PLAINTEXT \<le> negotiate a b" "negotiate a b \<le> MAX_PLAINTEXT_CAP"
  by (auto simp: negotiate_def clamp_def const_defs)

section \<open>Lemmas: one frame\<close>

lemma encode_into_ok:
  assumes "encode_into L e ft fl sid p out = (Inr u, e', out')" "enc_limit e \<le> MAX_PLAINTEXT_CAP"
  obtains f w where "wire_frame L (enc_cipher e) (enc_limit e) f w" "out' = out @ w"
    "msg_of f = (ft, fl, sid, p)" "enc_cipher e' = enc_cipher e" "enc_limit e' = enc_limit e"
proof -
  let ?c = "fst (counter_next (enc_counters e))"
  let ?h = "build_header ft fl sid (length p + TAG_LEN) ?c"
  let ?f = "\<lparr>f_type = ft, f_flags = fl, f_sid = sid, f_counter = ?c, f_aad = take 12 ?h, f_payload = p\<rparr>"
  have "length p \<le> enc_limit e"
    using assms(1) by (auto simp: encode_into_def split: if_splits)
  moreover obtain ct tag where "seal_slice L (enc_cipher e) ?c (take 12 ?h) p = Inr (ct, tag)"
    "out' = out @ ?h @ ct @ tag" "enc_cipher e' = enc_cipher e" "enc_limit e' = enc_limit e"
    using assms(1) by (auto simp: encode_into_def Let_def split: if_splits prod.splits sum.splits)
  ultimately show thesis
    using that [of ?f "?h @ ct @ tag"] assms(2)
    by (auto simp: wire_frame_def header_of_def msg_of_def)
qed

lemma encode_into_total:
  assumes "aead_total L" "length p \<le> enc_limit e" "enc_limit e \<le> MAX_PLAINTEXT_CAP"
  obtains e' out' where "encode_into L e ft fl sid p out = (Inr (), e', out')"
proof -
  let ?c = "fst (counter_next (enc_counters e))"
  obtain ct tag where "seal_slice L (enc_cipher e) ?c
      (take 12 (build_header ft fl sid (length p + TAG_LEN) ?c)) p = Inr (ct, tag)"
    using seal_slice_total assms by (metis order_trans)
  then show thesis
    using assms(2) that by (simp add: encode_into_def split_def Let_def)
qed

lemma encode_into_too_large:
  "enc_limit e < length p \<Longrightarrow> encode_into L e ft fl sid p out = (Inl PayloadTooLarge, e, out)"
  by (simp add: encode_into_def)

lemma wire_frame_header:
  assumes "wire_frame L c limit f w"
  shows "parse_header (header_of f) =
      Inr \<lparr>h_type = f_type f, h_flags = f_flags f, h_sid = f_sid f,
           h_ct_len = length (f_payload f) + TAG_LEN, h_counter = f_counter f, h_aad = f_aad f\<rparr>"
    and "length (f_payload f) + TAG_LEN \<le> usize_saturating_add limit TAG_LEN"
  using assms by (auto simp: wire_frame_def header_of_def parse_build_header usize_saturating_add_def
      const_defs)

lemma wire_frame_length:
  assumes "aead_ok L" "wire_frame L c limit f w"
  shows "length w = HEADER_LEN + length (f_payload f) + TAG_LEN"
  using assms seal_slice_open(2,3) [OF assms(1)] by (fastforce simp: wire_frame_def header_of_def)

lemma next_frame_complete:
  assumes "aead_ok L" "wire_frame L c limit f w" "reads d c limit" "dec_buf d = w @ rest"
  shows "next_frame L d = (Inr (Some f), d\<lparr>dec_buf := rest\<rparr>)"
proof -
  obtain ct tag where seal: "seal_slice L c (f_counter f) (f_aad f) (f_payload f) = Inr (ct, tag)"
    and w: "w = header_of f @ ct @ tag"
    using assms(2) by (auto simp: wire_frame_def)
  note len = seal_slice_open(2,3) [OF assms(1) seal]
  have hl: "length (header_of f) = HEADER_LEN" by (simp add: header_of_def)
  have "open_ct L c (f_counter f) (f_aad f) (ct @ tag) = Inr (f_payload f)"
    by (rule seal_slice_open(1) [OF assms(1) seal])
  with len hl show ?thesis
    using assms(3,4) wire_frame_header [OF assms(2)]
    by (simp add: next_frame_def w reads_def open_payload_def Let_def)
qed

lemma next_frame_partial:
  assumes "aead_ok L" "wire_frame L c limit f w" "reads d c limit"
    and "dec_buf d = take k w" "k < length w"
  shows "next_frame L d = (Inr None, d)"
proof (cases "k < HEADER_LEN")
  case True
  then have "length (dec_buf d) < HEADER_LEN" using assms(4) by simp
  then show ?thesis by (simp add: next_frame_def)
next
  case False
  have "length (header_of f) = HEADER_LEN" by (simp add: header_of_def)
  then have "take HEADER_LEN (dec_buf d) = header_of f"
    using False assms(2,4) by (auto simp: wire_frame_def min_def)
  moreover have "length (dec_buf d) < HEADER_LEN + (length (f_payload f) + TAG_LEN)"
    using assms(4,5) wire_frame_length [OF assms(1,2)] by simp
  ultimately show ?thesis
    using assms(3) wire_frame_header [OF assms(2)] by (simp add: next_frame_def reads_def Let_def)
qed

section \<open>Streams of frames\<close>

lemma take_of_append:
  assumes "a @ b = c @ d" "length a < length c"
  shows "a = take (length a) c"
  using assms by (metis append_eq_append_conv_if linorder_not_less order_less_imp_le)

lemma drop_of_append:
  assumes "a @ b = c @ d" "\<not> length a < length c"
  shows "a = c @ drop (length c) a" "drop (length c) a @ b = d"
  using assms by (auto simp: append_eq_append_conv2)

text \<open>
  The read loop collects chunks until the decoder has the bytes \<open>w\<close> of one frame. It only depends on
  what the decoder makes of those bytes and of a proper part of them.
\<close>

lemma frame_read_collects:
  assumes complete: "\<And>r. next_frame L (d\<lparr>dec_buf := w @ r\<rparr>) = (Inr (Some f), d\<lparr>dec_buf := r\<rparr>)"
    and partial: "\<And>k. k < length w \<Longrightarrow> next_frame L (d\<lparr>dec_buf := take k w\<rparr>) = (Inr None, d\<lparr>dec_buf := take k w\<rparr>)"
    and "b @ concat chunks = w @ rest" "[] \<notin> set chunks"
  obtains b' chunks' where
    "frame_read L (d\<lparr>dec_buf := b\<rparr>) (map Inr chunks) = (Inr (Some f), d\<lparr>dec_buf := b'\<rparr>, map Inr chunks')"
    "b' @ concat chunks' = rest" "[] \<notin> set chunks'"
  using assms(3,4)
proof (induction chunks arbitrary: b thesis)
  case Nil
  then show ?case
    using complete [of rest] by (auto simp: frame_read.simps)
next
  case (Cons ch chunks)
  show ?case
  proof (cases "length b < length w")
    case True
    then have "next_frame L (d\<lparr>dec_buf := b\<rparr>) = (Inr None, d\<lparr>dec_buf := b\<rparr>)"
      using Cons.prems(2) partial take_of_append [of b] by metis
    then have step: "frame_read L (d\<lparr>dec_buf := b\<rparr>) (map Inr (ch # chunks)) =
        frame_read L (d\<lparr>dec_buf := b @ ch\<rparr>) (map Inr chunks)"
      using Cons.prems(3) by (auto simp: frame_read.simps [of L "d\<lparr>dec_buf := b\<rparr>"] feed_def)
    then show ?thesis
      using Cons.IH [of "b @ ch"] Cons.prems by auto
  next
    case False
    define rest0 where "rest0 = drop (length w) b"
    have "b = w @ rest0" and rest: "rest0 @ concat (ch # chunks) = rest"
      using drop_of_append [OF Cons.prems(2) False] by (simp_all add: rest0_def)
    then show ?thesis
      using Cons.prems complete [of rest0]
      by (intro Cons.prems(1) [of rest0 "ch # chunks"]) (auto simp: frame_read.simps)
  qed
qed

lemma frame_read_complete:
  assumes "aead_ok L" "wire_frame L c limit f w" "reads d c limit"
    and "dec_buf d @ concat chunks = w @ rest" "[] \<notin> set chunks"
  obtains d' chunks' where "frame_read L d (map Inr chunks) = (Inr (Some f), d', map Inr chunks')"
    "reads d' c limit" "dec_buf d' @ concat chunks' = rest" "[] \<notin> set chunks'"
proof -
  have r: "reads (d\<lparr>dec_buf := b\<rparr>) c limit" for b using assms(3) by (simp add: reads_def)
  have "next_frame L (d\<lparr>dec_buf := w @ r'\<rparr>) = (Inr (Some f), d\<lparr>dec_buf := r'\<rparr>)" for r'
    using next_frame_complete [OF assms(1,2) r, of "w @ r'" r'] by simp
  moreover have "k < length w \<Longrightarrow> next_frame L (d\<lparr>dec_buf := take k w\<rparr>) = (Inr None, d\<lparr>dec_buf := take k w\<rparr>)" for k
    using next_frame_partial [OF assms(1,2) r] by simp
  ultimately obtain b' chunks' where
    "frame_read L (d\<lparr>dec_buf := dec_buf d\<rparr>) (map Inr chunks) = (Inr (Some f), d\<lparr>dec_buf := b'\<rparr>, map Inr chunks')"
    "b' @ concat chunks' = rest" "[] \<notin> set chunks'"
    using frame_read_collects [OF _ _ assms(4,5)] by blast
  then show thesis using that r by simp
qed

text \<open>The same frame through a reader that returns frames sealed.\<close>

definition sealed :: "frame \<Rightarrow> bytes \<Rightarrow> frame" where
  "sealed f ct = f\<lparr>f_payload := ct\<rparr>"

lemma next_frame_raw:
  assumes "aead_ok L" "wire_frame L c limit f w" "dec_raw d" "length (f_payload f) \<le> dec_limit d"
    and "dec_limit d \<le> MAX_PLAINTEXT_CAP"
  shows "next_frame L (d\<lparr>dec_buf := w @ rest\<rparr>) = (Inr (Some (sealed f (drop HEADER_LEN w))), d\<lparr>dec_buf := rest\<rparr>)"
    and "k < length w \<Longrightarrow> next_frame L (d\<lparr>dec_buf := take k w\<rparr>) = (Inr None, d\<lparr>dec_buf := take k w\<rparr>)"
proof -
  obtain ct tag where seal: "seal_slice L c (f_counter f) (f_aad f) (f_payload f) = Inr (ct, tag)"
    and w: "w = header_of f @ ct @ tag"
    using assms(2) by (auto simp: wire_frame_def)
  note len = seal_slice_open(2,3) [OF assms(1) seal]
  have hl: "length (header_of f) = HEADER_LEN" by (simp add: header_of_def)
  note hdr = wire_frame_header(1) [OF assms(2)]
  have le: "length (f_payload f) + TAG_LEN \<le> usize_saturating_add (dec_limit d) TAG_LEN"
    using assms(4,5) by (auto simp: usize_saturating_add_def const_defs)
  show "next_frame L (d\<lparr>dec_buf := w @ rest\<rparr>) = (Inr (Some (sealed f (drop HEADER_LEN w))), d\<lparr>dec_buf := rest\<rparr>)"
    using assms(3) len hl hdr le by (simp add: next_frame_def w open_payload_def Let_def sealed_def)
  show "next_frame L (d\<lparr>dec_buf := take k w\<rparr>) = (Inr None, d\<lparr>dec_buf := take k w\<rparr>)" if k: "k < length w"
  proof (cases "k < HEADER_LEN")
    case True
    then have "length (dec_buf (d\<lparr>dec_buf := take k w\<rparr>)) < HEADER_LEN" by simp
    then show ?thesis unfolding next_frame_def by (rule if_P)
  next
    case False
    have "take HEADER_LEN (take k w) = header_of f" using False hl by (simp add: w min_def)
    moreover have "length (take k w) < HEADER_LEN + (length (f_payload f) + TAG_LEN)" using k len hl by (simp add: w)
    ultimately show ?thesis using hdr le False by (simp add: next_frame_def Let_def)
  qed
qed

lemma frame_read_end:
  assumes "dec_buf d = []"
  shows "frame_read L d [] = (Inr None, d, [])"
  using assms by (simp add: frame_read.simps next_frame_def HEADER_LEN_def)

lemma encode_all_wire:
  assumes "aead_total L" "enc_limit e \<le> MAX_PLAINTEXT_CAP"
    and "\<forall>(ft, fl, sid, p)\<in>set ms. length p \<le> enc_limit e"
  obtains fws where "encode_all L e ms out = Inr (out @ concat (map snd fws))"
    "map (msg_of \<circ> fst) fws = ms"
    "\<forall>(f, w)\<in>set fws. wire_frame L (enc_cipher e) (enc_limit e) f w"
  using assms(2,3)
proof (induction ms arbitrary: e out thesis)
  case Nil
  show ?case by (rule Nil.prems(1) [of "[]"]) auto
next
  case (Cons m ms)
  obtain ft fl sid p where m: "m = (ft, fl, sid, p)" by (cases m) auto
  then have "length p \<le> enc_limit e" using Cons.prems(3) by simp
  then obtain e' out' where enc: "encode_into L e ft fl sid p out = (Inr (), e', out')"
    using encode_into_total assms(1) Cons.prems(2) by metis
  obtain f w where f: "wire_frame L (enc_cipher e) (enc_limit e) f w" "out' = out @ w"
    "msg_of f = m" and e': "enc_cipher e' = enc_cipher e" "enc_limit e' = enc_limit e"
    using encode_into_ok [OF enc Cons.prems(2)] m by metis
  have "enc_limit e' \<le> MAX_PLAINTEXT_CAP" "\<forall>(ft, fl, sid, p)\<in>set ms. length p \<le> enc_limit e'"
    using Cons.prems(2,3) e' by auto
  then obtain fws where "encode_all L e' ms out' = Inr (out' @ concat (map snd fws))"
    "map (msg_of \<circ> fst) fws = ms"
    "\<forall>(f, w)\<in>set fws. wire_frame L (enc_cipher e) (enc_limit e) f w"
    using Cons.IH [of e' out'] unfolding e' by blast
  then show ?case
    using enc f m by (intro Cons.prems(1) [of "(f, w) # fws"]) (auto simp: comp_def)
qed

lemma drain_wire:
  assumes "aead_ok L" "\<forall>(f, w)\<in>set fws. wire_frame L c limit f w"
    and "reads d c limit" "dec_buf d @ concat chunks = concat (map snd fws)" "[] \<notin> set chunks"
  shows "drain L (Suc (length fws)) d (map Inr chunks) =
           map (Inr \<circ> Some \<circ> msg_of \<circ> fst) fws @ [Inr None]"
  using assms(2-)
proof (induction fws arbitrary: d chunks)
  case Nil
  then have "chunks = []" "dec_buf d = []" by (cases chunks; auto)+
  then show ?case by (simp add: frame_read_end)
next
  case (Cons fw fws)
  obtain f w where fw: "fw = (f, w)" by (cases fw)
  have "wire_frame L c limit f w" "dec_buf d @ concat chunks = w @ concat (map snd fws)"
    using Cons.prems fw by auto
  from frame_read_complete [OF assms(1) this(1) Cons.prems(2) this(2) Cons.prems(4)]
  obtain d' chunks' where "frame_read L d (map Inr chunks) = (Inr (Some f), d', map Inr chunks')"
    "reads d' c limit" "dec_buf d' @ concat chunks' = concat (map snd fws)" "[] \<notin> set chunks'"
    by blast
  then show ?case
    using Cons.IH [of d' chunks'] Cons.prems(1) fw by simp
qed

text \<open>
  C4. End-to-end framing. Every sequence of messages within the frame limit is encoded, and a reader
  with the same key and limit gets back exactly these messages, in order and then a clean end of
  stream, however the bytes are cut into chunks on the way.
\<close>

theorem frame_stream_round_trip:
  assumes "aead_ok L" "aead_total L" "enc_limit e \<le> MAX_PLAINTEXT_CAP"
    and "\<forall>(ft, fl, sid, p)\<in>set ms. length p \<le> enc_limit e"
  shows "\<exists>bs. encode_all L e ms [] = Inr bs \<and>
    (\<forall>chunks. concat chunks = bs \<and> [] \<notin> set chunks \<longrightarrow>
       drain L (Suc (length ms)) (frame_decoder_new (Some (enc_cipher e)) None (enc_limit e)) (map Inr chunks)
         = map (Inr \<circ> Some) ms @ [Inr None])"
proof -
  obtain fws where enc: "encode_all L e ms [] = Inr ([] @ concat (map snd fws))"
    and ms: "map (msg_of \<circ> fst) fws = ms"
    and wf: "\<forall>(f, w)\<in>set fws. wire_frame L (enc_cipher e) (enc_limit e) f w"
    using encode_all_wire [OF assms(2-4)] by metis
  let ?d = "frame_decoder_new (Some (enc_cipher e)) None (enc_limit e)"
  have "drain L (Suc (length ms)) ?d (map Inr chunks) = map (Inr \<circ> Some) ms @ [Inr None]"
    if "concat chunks = concat (map snd fws)" "[] \<notin> set chunks" for chunks
    using drain_wire [OF assms(1) wf, of ?d chunks] that ms
    by (auto simp: reads_def frame_decoder_new_def)
  then show ?thesis using enc by auto
qed

theorem frame_stream_round_trip_witness:
  "\<exists>bs. encode_all demo_lib demo_encoder [(Open, 0, 1, [1, 2]), (Data, FLAG_FIN, 1, [])] [] = Inr bs \<and>
     drain demo_lib 3 (frame_decoder_new (Some (frame_cipher_new [5])) None MAX_PLAINTEXT)
       (map (\<lambda>b. Inr [b]) bs) =
     [Inr (Some (Open, 0, 1, [1, 2])), Inr (Some (Data, FLAG_FIN, 1, [])), Inr None]"
proof -
  let ?ms = "[(Open, 0, 1, [1, 2]), (Data, FLAG_FIN, 1, [])] :: msg list"
  have "enc_limit demo_encoder \<le> MAX_PLAINTEXT_CAP"
    "\<forall>(ft, fl, sid, p)\<in>set ?ms. length p \<le> enc_limit demo_encoder"
    by (simp_all add: demo_encoder_def frame_encoder_new_def const_defs)
  from frame_stream_round_trip [OF demo_lib_ok(1,2) this] obtain bs where
    enc: "encode_all demo_lib demo_encoder ?ms [] = Inr bs"
    and dr: "\<And>chunks. concat chunks = bs \<Longrightarrow> [] \<notin> set chunks \<Longrightarrow>
      drain demo_lib (Suc (length ?ms)) (frame_decoder_new (Some (enc_cipher demo_encoder)) None
        (enc_limit demo_encoder)) (map Inr chunks) = map (Inr \<circ> Some) ?ms @ [Inr None]"
    by blast
  have "concat (map (\<lambda>b. [b]) bs) = bs" "[] \<notin> set (map (\<lambda>b. [b]) bs)" by auto
  from dr [OF this] enc show ?thesis
    by (simp add: demo_encoder_def frame_encoder_new_def comp_def numeral_3_eq_3)
qed

section \<open>The decoder\<close>

text \<open>
  C32. Authentication comes before replay bookkeeping: when decoding changes the replay window, the
  ciphertext passed authentication under the session key with the counter and header it came with.
  A forged datagram never moves the window.
\<close>

theorem window_moves_only_if_authentic:
  assumes "next_frame L d = (r, d')" "dec_window d' \<noteq> dec_window d"
  shows "\<exists>cipher info payload. dec_cipher d = Some cipher \<and>
    parse_header (take HEADER_LEN (dec_buf d)) = Inr info \<and>
    open_ct L cipher (h_counter info) (h_aad info)
      (take (h_ct_len info) (drop HEADER_LEN (dec_buf d))) = Inr payload"
  using assms
  by (auto simp: next_frame_def open_payload_def Let_def
      split: if_splits sum.splits option.splits prod.splits)

theorem window_moves_only_if_authentic_witness:
  "\<exists>d r d'. next_frame demo_lib d = (r, d') \<and> dec_window d' \<noteq> dec_window d \<and>
     (\<exists>cipher info payload. dec_cipher d = Some cipher \<and>
        parse_header (take HEADER_LEN (dec_buf d)) = Inr info \<and>
        open_ct demo_lib cipher (h_counter info) (h_aad info)
          (take (h_ct_len info) (drop HEADER_LEN (dec_buf d))) = Inr payload)"
proof -
  let ?hdr = "build_header UdpData 0 1 16 9"
  let ?tag = "checksum 16 (nonce_for 9 @ take 12 ?hdr)"
  let ?d = "(frame_decoder_new (Some (frame_cipher_new [5])) (Some replay_window_new) 100)
    \<lparr>dec_buf := ?hdr @ ?tag\<rparr>"
  obtain r d' where nf: "next_frame demo_lib ?d = (r, d')" by fastforce
  have open_tag: "open_ct demo_lib (frame_cipher_new [5]) 9 (take 12 ?hdr) ?tag = Inr []"
    by (simp add: open_ct_def demo_lib_def checksum_def TAG_LEN_def Let_def)
  have "dec_window d' \<noteq> dec_window ?d"
    using nf open_tag
    by (auto simp: next_frame_def frame_decoder_new_def parse_build_header open_payload_def
        replay_check_def replay_window_new_def usize_saturating_add_def checksum_def TAG_LEN_def Let_def)
  with window_moves_only_if_authentic [OF nf this] nf show ?thesis by blast
qed

lemma next_frame_None:
  assumes "next_frame L d = (Inr None, d')" "dec_limit d \<le> MAX_PLAINTEXT_CAP"
  shows "d' = d" "length (dec_buf d) < HEADER_LEN + dec_limit d + TAG_LEN"
  using assms
  by (auto simp: next_frame_def Let_def usize_saturating_add_def const_defs
      split: if_splits sum.splits prod.splits)

lemma next_frame_buf:
  "next_frame L d = (r, d') \<Longrightarrow>
   length (dec_buf d') \<le> length (dec_buf d) \<and> dec_limit d' = dec_limit d"
  by (auto simp: next_frame_def Let_def split: if_splits sum.splits prod.splits)

lemma next_frame_shrinks:
  "next_frame L d = (Inr (Some f), d') \<Longrightarrow> length (dec_buf d') < length (dec_buf d)"
  by (auto simp: next_frame_def Let_def HEADER_LEN_def split: if_splits sum.splits prod.splits)

lemma frame_read_buf:
  assumes "frame_read L d src = (r, d', src')" "\<forall>bs. Inr bs \<in> set src \<longrightarrow> length bs \<le> READ_BUF"
    and "buf_bounded d"
  shows "buf_bounded d'"
  using assms
proof (induction L d src arbitrary: r d' src' rule: frame_read.induct)
  case (1 L d src)
  obtain r0 d0 where nf: "next_frame L d = (r0, d0)" by fastforce
  have d0: "buf_bounded d0"
    using next_frame_buf [OF nf] 1(4) by (auto simp: buf_bounded_def)
  show ?case
  proof (cases "r0 = Inr None \<and> (\<exists>bs r. src = Inr bs # r \<and> bs \<noteq> [])")
    case True
    then obtain bs rest where t: "r0 = Inr None" "src = Inr bs # rest" "bs \<noteq> []" by blast
    have "d0 = d" "length (dec_buf d) < HEADER_LEN + dec_limit d + TAG_LEN"
      using next_frame_None nf t(1) 1(4) by (auto simp: buf_bounded_def)
    moreover have "length bs \<le> READ_BUF" using 1(3) t(2) by simp
    ultimately have "buf_bounded (feed d0 bs)"
      using 1(4) by (simp add: buf_bounded_def feed_def)
    then show ?thesis
      using 1 t nf by (auto simp: frame_read.simps [of L d])
  next
    case False
    then show ?thesis
      using 1(2) nf d0 by (subst (asm) frame_read.simps) (auto split: sum.splits option.splits list.splits if_splits)
  qed
qed

interpretation reader: invariant_system
  "\<lambda>d. \<exists>c w limit. d = frame_decoder_new c w limit \<and> limit \<le> MAX_PLAINTEXT_CAP" "reader_step L" buf_bounded
proof
  fix d
  assume "\<exists>c w limit. d = frame_decoder_new c w limit \<and> limit \<le> MAX_PLAINTEXT_CAP"
  then show "buf_bounded d"
    by (auto simp: buf_bounded_def frame_decoder_new_def const_defs)
next
  fix d d'
  assume "buf_bounded d" "reader_step L d d'"
  then show "buf_bounded d'"
    by (auto simp: reader_step_def intro: frame_read_buf)
qed

text \<open>
  Memory bound: in every state a reader reaches, whatever bytes the peer sends in reads of at
  most 16 KiB and whatever errors occur, its buffer holds less than one maximal frame plus one
  read.
\<close>

theorem reader_buffer_bounded:
  assumes "(reader_step L)\<^sup>*\<^sup>* (frame_decoder_new c w limit) d" "limit \<le> MAX_PLAINTEXT_CAP"
  shows "length (dec_buf d) < HEADER_LEN + MAX_PLAINTEXT_CAP + TAG_LEN + READ_BUF"
proof -
  have "buf_bounded d"
    using assms by (intro reader.reachable_inv [of "frame_decoder_new c w limit"]) auto
  then show ?thesis by (simp add: buf_bounded_def)
qed

theorem reader_buffer_bounded_witness:
  "length (dec_buf (fst (snd (frame_read demo_lib (frame_decoder_new None None 100) [Inr [2, 6, 0]])))) <
     HEADER_LEN + MAX_PLAINTEXT_CAP + TAG_LEN + READ_BUF"
proof -
  let ?d = "frame_decoder_new None None 100"
  obtain r d' src' where rd: "frame_read demo_lib ?d [Inr [2, 6, 0]] = (r, d', src')"
    by (metis prod_cases3)
  then have "reader_step demo_lib ?d d'"
    by (auto simp: reader_step_def const_defs intro!: exI [of _ "[Inr [2, 6, 0]]"])
  from reader_buffer_bounded [OF r_into_rtranclp, OF this] rd show ?thesis
    by (simp add: const_defs)
qed

section \<open>OPEN payloads\<close>

lemma le_bytes_2: "length b = 2 \<Longrightarrow> to_le_bytes (from_le_bytes b :: u16) = b"
  by (rule le_bytes_round_trip) simp

lemma decode_encode_open:
  assumes "open_valid (host, port)"
  shows "decode_open (encode_open host port @ tail) = Inr (host, port)"
proof -
  have "unat (of_nat (length host) :: u16) = length host"
    using assms by (simp add: open_valid_def unat_of_nat take_bit_nat_eq_self_iff)
  then show ?thesis
    using assms by (simp add: open_valid_def decode_open_def encode_open_def slice_def Let_def)
qed

interpretation open_codec: prefix_codec
  "\<lambda>(h, p). encode_open h p" "\<lambda>b. result_ok (decode_open b)" open_valid
  by unfold_locales (auto simp: decode_encode_open)

lemma take_slices: "take (i + j + k) p = slice p 0 i @ slice p i (i + j) @ slice p (i + j) (i + j + k)"
  by (simp add: slice_def take_add)

lemma decode_open_sound:
  assumes "decode_open p = Inr (host, port)"
  shows "open_valid (host, port) \<and> (\<exists>tail. p = encode_open host port @ tail)"
proof -
  define hl where "hl = unat (from_le_bytes (slice p 0 2) :: u16)"
  have len: "2 + hl + 2 \<le> length p" "0 < hl" "hl \<le> 255"
    and host: "from_utf8 (slice p 2 (2 + hl)) = Some host"
    and port: "port = from_le_bytes (slice p (2 + hl) (2 + hl + 2))"
    using assms by (auto simp: decode_open_def Let_def hl_def split: if_splits option.splits)
  have h: "is_str host" "as_bytes host = slice p 2 (2 + hl)"
    using from_utf8_Some [OF host] by auto
  have "length host = hl"
    using arg_cong [OF h(2), of length] len by (simp add: slice_def)
  then have "to_le_bytes (of_nat (length host) :: u16) = slice p 0 2"
    using len le_bytes_2 [of "slice p 0 2"] by (simp add: hl_def slice_def)
  moreover have "to_le_bytes port = slice p (2 + hl) (2 + hl + 2)"
    unfolding port using len by (intro le_bytes_2) (simp add: slice_def)
  ultimately have "encode_open host port = take (2 + hl + 2) p"
    using h(2) by (simp only: encode_open_def take_slices)
  then show ?thesis
    using h(1) len \<open>length host = hl\<close> by (auto simp: open_valid_def intro!: exI [of _ "drop (2 + hl + 2) p"])
qed

text \<open>
  The OPEN payload decoder accepts exactly the encodings of a host of 1 to 255 bytes of valid
  UTF-8 and a port, followed by any padding, and returns that host and port.
\<close>

theorem decode_open_iff:
  "decode_open p = Inr (host, port) \<longleftrightarrow>
     is_str host \<and> host \<noteq> [] \<and> length host \<le> 255 \<and> (\<exists>tail. p = encode_open host port @ tail)"
  using decode_open_sound [of p host port] decode_encode_open [of host port]
  by (auto simp: open_valid_def)

lemma random_padding_length:
  assumes "\<And>n. length (fill n) = n"
  shows "PAD_MIN \<le> length (random_padding r fill)" "length (random_padding r fill) < PAD_MAX"
  using assms by (simp_all add: random_padding_def const_defs)

end
