(* ===== verification/Addr.thy ===== *)
theory Addr
  imports Crypto
begin

text \<open>
  Model of \<open>src/proto/addr.rs\<close>: UDP target and source addresses on the wire, with ports in
  little-endian order inside frames and in network order towards SOCKS5 clients, and the header of
  SOCKS5 UDP datagrams. IP addresses are words in network order. The cursor over the bytes is a local
  of its callers, which drop it on an error.
\<close>

type_synonym ipv4 = u32
type_synonym ipv6 = "128 word"
type_synonym socket_addr_v4 = "ipv4 \<times> u16"

record socket_addr_v6 =
  v6_ip :: ipv6
  v6_port :: u16
  v6_flowinfo :: u32
  v6_scope :: u32

text \<open>\<open>std::net::IpAddr\<close> and \<open>std::net::SocketAddr\<close>\<close>

datatype ip_addr = IpV4 ipv4 | IpV6 ipv6
datatype socket_addr = SockV4 socket_addr_v4 | SockV6 socket_addr_v6

fun sock_ip :: "socket_addr \<Rightarrow> ip_addr" where
  "sock_ip (SockV4 a) = IpV4 (fst a)"
| "sock_ip (SockV6 a) = IpV6 (v6_ip a)"

fun sock_port :: "socket_addr \<Rightarrow> u16" where
  "sock_port (SockV4 a) = snd a"
| "sock_port (SockV6 a) = v6_port a"

datatype udp_addr = V4 socket_addr_v4 | V6 socket_addr_v6 | Domain string u16

datatype addr_error = ReadPastEnd | BadAddressType u8 | AddrBadUtf8 | ReservedNotZero | FragmentNotSupported

section \<open>Encoding\<close>

definition put_port :: "bool \<Rightarrow> u16 \<Rightarrow> bytes" where
  "put_port be_ports port = (if be_ports then to_be_bytes port else to_le_bytes port)"

fun encode_with :: "udp_addr \<Rightarrow> bytes \<Rightarrow> bool \<Rightarrow> bytes" where
  "encode_with (V4 (ip, port)) out be_ports = out @ [1] @ to_be_bytes ip @ put_port be_ports port"
| "encode_with (V6 a) out be_ports = out @ [2] @ to_be_bytes (v6_ip a) @ put_port be_ports (v6_port a)"
| "encode_with (Domain h p) out be_ports =
     out @ [3] @ [of_nat (length h)] @ as_bytes h @ put_port be_ports p"

section \<open>The cursor\<close>

record reader =
  r_b :: bytes
  r_pos :: nat

definition reader_new :: "bytes \<Rightarrow> reader" where
  "reader_new b = \<lparr>r_b = b, r_pos = 0\<rparr>"

definition read_u8 :: "reader \<Rightarrow> addr_error + u8 \<times> reader" where
  "read_u8 r =
     (if r_pos r < length (r_b r) then Inr (r_b r ! r_pos r, r\<lparr>r_pos := r_pos r + 1\<rparr>)
      else Inl ReadPastEnd)"

definition read_bytes :: "reader \<Rightarrow> nat \<Rightarrow> addr_error + bytes \<times> reader" where
  "read_bytes r n =
     (if length (r_b r) - r_pos r \<ge> n
      then Inr (slice (r_b r) (r_pos r) (r_pos r + n), r\<lparr>r_pos := r_pos r + n\<rparr>)
      else Inl ReadPastEnd)"

definition read_u16 :: "reader \<Rightarrow> addr_error + u16 \<times> reader" where
  "read_u16 r = and_then (read_bytes r 2) (\<lambda>(b, r'). Inr (from_le_bytes b, r'))"

definition read_u16_be :: "reader \<Rightarrow> addr_error + u16 \<times> reader" where
  "read_u16_be r = and_then (read_bytes r 2) (\<lambda>(b, r'). Inr (from_be_bytes b, r'))"

definition reader_rest :: "reader \<Rightarrow> bytes \<times> reader" where
  "reader_rest r = (drop (r_pos r) (r_b r), r\<lparr>r_pos := length (r_b r)\<rparr>)"

section \<open>Decoding\<close>

definition decode_with :: "reader \<Rightarrow> bool \<Rightarrow> addr_error + udp_addr \<times> reader" where
  "decode_with r be_ports =
     (let read_port = (if be_ports then read_u16_be else read_u16) in
      and_then (read_u8 r) (\<lambda>(t, r1).
        if t = 1 then
          and_then (read_bytes r1 4) (\<lambda>(b, r2).
          and_then (read_port r2) (\<lambda>(port, r3). Inr (V4 (from_be_bytes b, port), r3)))
        else if t = 2 then
          and_then (read_bytes r1 16) (\<lambda>(b, r2).
          and_then (read_port r2) (\<lambda>(port, r3).
            Inr (V6 \<lparr>v6_ip = from_be_bytes b, v6_port = port, v6_flowinfo = 0, v6_scope = 0\<rparr>, r3)))
        else if t = 3 then
          and_then (read_u8 r1) (\<lambda>(l, r2).
          and_then (read_bytes r2 (unat l)) (\<lambda>(d, r3).
          and_then (read_port r3) (\<lambda>(port, r4).
            (case from_utf8 d of None \<Rightarrow> Inl AddrBadUtf8 | Some h \<Rightarrow> Inr (Domain h port, r4)))))
        else Inl (BadAddressType t)))"

definition parse_socks5_udp :: "bytes \<Rightarrow> addr_error + udp_addr \<times> bytes" where
  "parse_socks5_udp packet =
     and_then (read_u16 (reader_new packet)) (\<lambda>(rsv, r1).
       if rsv \<noteq> 0 then Inl ReservedNotZero
       else and_then (read_u8 r1) (\<lambda>(frag, r2).
         if frag \<noteq> 0 then Inl FragmentNotSupported
         else and_then (decode_with r2 True) (\<lambda>(addr, r3). Inr (addr, fst (reader_rest r3)))))"

definition build_socks5_udp :: "udp_addr \<Rightarrow> bytes \<Rightarrow> bytes" where
  "build_socks5_udp addr payload = encode_with addr [0, 0, 0] True @ payload"

section \<open>Abstract view\<close>

text \<open>Addresses that fit the wire format: what the encoder keeps of an IPv6 socket address is the
  address and the port, and a domain has at most 255 bytes.\<close>

fun addr_valid :: "udp_addr \<Rightarrow> bool" where
  "addr_valid (V4 a) = True"
| "addr_valid (V6 a) = (v6_flowinfo a = 0 \<and> v6_scope a = 0)"
| "addr_valid (Domain h p) = (is_str h \<and> length h \<le> 255)"

definition reader_at :: "reader \<Rightarrow> bytes \<Rightarrow> bool" where
  "reader_at r bs \<longleftrightarrow> r_pos r \<le> length (r_b r) \<and> drop (r_pos r) (r_b r) = bs"

definition decode_rest :: "bool \<Rightarrow> bytes \<Rightarrow> (udp_addr \<times> bytes) option" where
  "decode_rest be_ports bs =
     map_option (\<lambda>(a, r). (a, fst (reader_rest r))) (result_ok (decode_with (reader_new bs) be_ports))"

section \<open>Lemmas: the cursor\<close>

lemma at_new: "reader_at (reader_new b) b"
  by (simp add: reader_at_def reader_new_def)

lemma at_read_u8:
  "reader_at r (x # bs) \<Longrightarrow> read_u8 r = Inr (x, r\<lparr>r_pos := r_pos r + 1\<rparr>) \<and> reader_at (r\<lparr>r_pos := r_pos r + 1\<rparr>) bs"
proof -
  assume "reader_at r (x # bs)"
  then have d: "drop (r_pos r) (r_b r) = x # bs" by (simp add: reader_at_def)
  then have "r_pos r < length (r_b r)" by (metis drop_all list.discI not_less)
  with d show ?thesis
    by (auto simp: read_u8_def reader_at_def Cons_nth_drop_Suc [symmetric])
qed

lemma at_read_bytes:
  "reader_at r (xs @ bs) \<Longrightarrow> length xs = n \<Longrightarrow>
   read_bytes r n = Inr (xs, r\<lparr>r_pos := r_pos r + n\<rparr>) \<and> reader_at (r\<lparr>r_pos := r_pos r + n\<rparr>) bs"
proof -
  assume "reader_at r (xs @ bs)" and n: "length xs = n"
  then have d: "drop (r_pos r) (r_b r) = xs @ bs" and p: "r_pos r \<le> length (r_b r)"
    by (auto simp: reader_at_def)
  have "length (r_b r) - r_pos r = length xs + length bs"
    using arg_cong [OF d, of length] by simp
  moreover have "drop (r_pos r + n) (r_b r) = bs"
    using d n by (metis add.commute append_eq_conv_conj drop_drop)
  ultimately show ?thesis
    using d n p by (auto simp: read_bytes_def reader_at_def slice_def)
qed

lemma at_read_port:
  assumes "reader_at r (put_port be p @ bs)"
  obtains r' where "(if be then read_u16_be r else read_u16 r) = Inr (p, r')" "reader_at r' bs"
  using assms at_read_bytes [OF assms, of 2]
  by (auto simp: put_port_def read_u16_def read_u16_be_def split: if_splits)

lemma decode_encode_at:
  assumes "addr_valid a" "reader_at r (encode_with a [] be @ tail)"
  obtains r' where "decode_with r be = Inr (a, r')" "reader_at r' tail"
proof (cases a)
  case (V4 ap)
  obtain ip port where ap: "ap = (ip, port)" by (cases ap)
  have "reader_at r (1 # to_be_bytes ip @ put_port be port @ tail)"
    using assms(2) V4 ap by simp
  from at_read_u8 [OF this] obtain r1 where r1: "read_u8 r = Inr (1, r1)"
    "reader_at r1 (to_be_bytes ip @ put_port be port @ tail)" by blast
  from at_read_bytes [OF r1(2), of 4] obtain r2 where r2: "read_bytes r1 4 = Inr (to_be_bytes ip, r2)"
    "reader_at r2 (put_port be port @ tail)" by auto
  from at_read_port [OF r2(2)] obtain r3 where
    "(if be then read_u16_be r2 else read_u16 r2) = Inr (port, r3)" "reader_at r3 tail" .
  then show thesis
    using that r1 r2 V4 ap by (cases be) (simp_all add: decode_with_def)
next
  case (V6 ap)
  have "reader_at r (2 # to_be_bytes (v6_ip ap) @ put_port be (v6_port ap) @ tail)"
    using assms(2) V6 by simp
  from at_read_u8 [OF this] obtain r1 where r1: "read_u8 r = Inr (2, r1)"
    "reader_at r1 (to_be_bytes (v6_ip ap) @ put_port be (v6_port ap) @ tail)" by blast
  from at_read_bytes [OF r1(2), of 16] obtain r2 where
    r2: "read_bytes r1 16 = Inr (to_be_bytes (v6_ip ap), r2)" "reader_at r2 (put_port be (v6_port ap) @ tail)" by auto
  from at_read_port [OF r2(2)] obtain r3 where
    "(if be then read_u16_be r2 else read_u16 r2) = Inr (v6_port ap, r3)" "reader_at r3 tail" .
  then show thesis
    using that r1 r2 V6 assms(1) by (cases be) (simp_all add: decode_with_def)
next
  case (Domain h port)
  let ?l = "of_nat (length h) :: u8"
  have l: "unat ?l = length h"
    using assms(1) Domain by (simp add: unat_of_nat take_bit_nat_eq_self_iff)
  have "reader_at r (3 # ?l # as_bytes h @ put_port be port @ tail)"
    using assms(2) Domain by simp
  from at_read_u8 [OF this] obtain r0 where r0: "read_u8 r = Inr (3, r0)"
    "reader_at r0 (?l # as_bytes h @ put_port be port @ tail)" by blast
  from at_read_u8 [OF r0(2)] obtain r1 where r1: "read_u8 r0 = Inr (?l, r1)"
    "reader_at r1 (as_bytes h @ put_port be port @ tail)" by blast
  from at_read_bytes [OF r1(2), of "unat ?l"] l obtain r2 where
    r2: "read_bytes r1 (unat ?l) = Inr (as_bytes h, r2)" "reader_at r2 (put_port be port @ tail)" by auto
  from at_read_port [OF r2(2)] obtain r3 where
    "(if be then read_u16_be r2 else read_u16 r2) = Inr (port, r3)" "reader_at r3 tail" .
  then show thesis
    using that r0 r1 r2 Domain assms(1) by (cases be) (simp_all add: decode_with_def)
qed

lemma reader_rest_at: "reader_at r bs \<Longrightarrow> fst (reader_rest r) = bs"
  by (simp add: reader_at_def reader_rest_def)

interpretation udp_codec: codec "\<lambda>a. encode_with a [] be" "decode_rest be" addr_valid
proof
  fix a tail
  assume "addr_valid a"
  then obtain r' where "decode_with (reader_new (encode_with a [] be @ tail)) be = Inr (a, r')"
    "reader_at r' tail"
    using decode_encode_at [OF _ at_new] by blast
  then show "decode_rest be (encode_with a [] be @ tail) = Some (a, tail)"
    by (simp add: decode_rest_def reader_rest_at)
qed

section \<open>SOCKS5 datagrams\<close>

lemma encode_with_out: "encode_with a out be = out @ encode_with a [] be"
  by (cases a rule: addr_valid.cases) auto

lemma parse_build_socks5_udp:
  assumes "addr_valid a"
  shows "parse_socks5_udp (build_socks5_udp a payload) = Inr (a, payload)"
proof -
  let ?r = "reader_new (build_socks5_udp a payload)"
  have "reader_at ?r ([0, 0] @ 0 # encode_with a [] True @ payload)"
    using at_new by (simp add: build_socks5_udp_def encode_with_out [of a "[0, 0, 0]"])
  from at_read_bytes [OF this, of 2] obtain r1 where
    r1: "read_bytes ?r 2 = Inr ([0, 0], r1)" "reader_at r1 (0 # encode_with a [] True @ payload)" by auto
  from at_read_u8 [OF r1(2)] obtain r2 where
    r2: "read_u8 r1 = Inr (0, r2)" "reader_at r2 (encode_with a [] True @ payload)" by blast
  from decode_encode_at [OF assms r2(2)] obtain r3 where
    "decode_with r2 True = Inr (a, r3)" "reader_at r3 payload" .
  then show ?thesis
    using r1 r2 by (simp add: parse_socks5_udp_def read_u16_def from_le_bytes_def reader_rest_at)
qed

text \<open>
  C38. UDP addresses survive the wire in both port orders, with what follows them left unread, and a
  datagram built for a SOCKS5 client parses back to the address and payload it was built from.
\<close>

theorem udp_addr_round_trip:
  assumes "addr_valid a"
  shows "decode_rest be (encode_with a [] be @ payload) = Some (a, payload) \<and>
         parse_socks5_udp (build_socks5_udp a payload) = Inr (a, payload)"
  using udp_codec.dec_enc_rest [OF assms] parse_build_socks5_udp [OF assms] by simp

theorem udp_addr_round_trip_witness:
  "decode_rest False (encode_with (Domain ''dns.example'' 53) [] False @ [7]) =
     Some (Domain ''dns.example'' 53, [7]) \<and>
   parse_socks5_udp (build_socks5_udp (Domain ''dns.example'' 53) [7]) = Inr (Domain ''dns.example'' 53, [7])"
  by (rule udp_addr_round_trip) (simp add: ascii_is_str)

text \<open>
  RFC 1928 assigns address type 4 to IPv6; the parser refuses it whatever follows.
\<close>

lemma socks5_udp_atyp4_refused: "parse_socks5_udp ([0, 0, 0, 4] @ rest) = Inl (BadAddressType 4)"
  by (simp add: parse_socks5_udp_def read_u16_def read_bytes_def read_u8_def reader_new_def
      slice_def from_le_bytes_def decode_with_def)

text \<open>
  A datagram from an IPv6 peer reaches the SOCKS5 client with address type 2.
\<close>

lemma socks5_udp_v6_atyp: "build_socks5_udp (V6 a) payload ! 3 = 2"
  by (simp add: build_socks5_udp_def)

end
