(* ===== verification/Mux.thy ===== *)
theory Mux
  imports Frame Addr "HOL-Library.Multiset"
begin

text \<open>
  Model of \<open>src/proto/mux.rs\<close>: the errors of opening a session, the server's frame sink, the
  client and the server role of the multiplexer. Sends on queues, replies to waiting callers and
  frames handed to the writer are events a handler returns. The server's hooks are a record of
  operations on a state, and the locale \<open>server_hooks\<close> is the contract of that interface.
\<close>

definition MAX_MUX_TASKS :: nat where [const_defs]: "MAX_MUX_TASKS = 32"
definition ROUTE_CHAN :: nat where [const_defs]: "ROUTE_CHAN = 256"

section \<open>Outbound frames and open errors\<close>

record out_frame =
  of_type :: frame_type
  of_flags :: u16
  of_sid :: u32
  of_payload :: bytes

definition out_frame_new :: "frame_type \<Rightarrow> u16 \<Rightarrow> u32 \<Rightarrow> bytes \<Rightarrow> out_frame" where
  "out_frame_new ft flags sid payload =
     \<lparr>of_type = ft, of_flags = flags, of_sid = sid, of_payload = payload\<rparr>"

datatype open_error = DialFailed | Limit | BadTarget | Denied

fun open_error_tag :: "open_error \<Rightarrow> string" where
  "open_error_tag DialFailed = ''dial-failed''"
| "open_error_tag Limit = ''session-limit''"
| "open_error_tag BadTarget = ''bad-target''"
| "open_error_tag Denied = ''private-target-denied''"

fun to_code :: "open_error \<Rightarrow> u8" where
  "to_code DialFailed = OPEN_ERR_DIAL"
| "to_code Limit = OPEN_ERR_LIMIT"
| "to_code BadTarget = OPEN_ERR_BAD_TARGET"
| "to_code Denied = OPEN_ERR_DENIED"

definition from_code :: "u8 \<Rightarrow> open_error" where
  "from_code c =
     (if c = OPEN_ERR_DIAL then DialFailed else if c = OPEN_ERR_LIMIT then Limit
      else if c = OPEN_ERR_BAD_TARGET then BadTarget else Denied)"

definition code_to_open_error :: "bytes \<Rightarrow> open_error" where
  "code_to_open_error payload = from_code (case payload of [] \<Rightarrow> 0 | c # _ \<Rightarrow> c)"

section \<open>Frame sink\<close>

text \<open>A bounded queue into a writer task.\<close>

record out_chan =
  oc_queue :: "out_frame list"
  oc_cap :: nat
  oc_closed :: bool

text \<open>\<open>send\<close> waits until the queue has room; it fails when the receiver is gone.\<close>

definition chan_send :: "out_chan \<Rightarrow> out_frame \<Rightarrow> bool \<times> out_chan" where
  "chan_send c f = (if oc_closed c then (False, c) else (True, c\<lparr>oc_queue := oc_queue c @ [f]\<rparr>))"

definition chan_try_send :: "out_chan \<Rightarrow> out_frame \<Rightarrow> bool \<times> out_chan" where
  "chan_try_send c f =
     (if oc_closed c \<or> length (oc_queue c) \<ge> oc_cap c then (False, c)
      else (True, c\<lparr>oc_queue := oc_queue c @ [f]\<rparr>))"

datatype frame_sink = Chan out_chan | Datagram frame_encoder out_chan

datatype sink_error = SinkClosed | SinkEncode frame_error

text \<open>
  The QUIC connection of a datagram sink is two arguments: the maximal datagram size it reports
  and whether it takes a datagram. The last component of a result is the datagrams it took.
\<close>

fun sink_send ::
  "crypto_lib \<Rightarrow> nat option \<Rightarrow> (bytes \<Rightarrow> bool) \<Rightarrow> frame_sink \<Rightarrow> frame_type \<Rightarrow> u16 \<Rightarrow> u32 \<Rightarrow> bytes \<Rightarrow>
   (sink_error + unit) \<times> frame_sink \<times> bytes list" where
  "sink_send L max_dg send_dg (Chan tx) ft flags sid payload =
     (let (ok, tx') = chan_send tx (out_frame_new ft flags sid payload) in
      (if ok then Inr () else Inl SinkClosed, Chan tx', []))"
| "sink_send L max_dg send_dg (Datagram enc fallback) ft flags sid payload =
     (case encode L enc ft flags sid payload of
        (Inl e, enc') \<Rightarrow> (Inl (SinkEncode e), Datagram enc' fallback, [])
      | (Inr wire, enc') \<Rightarrow>
          let mx = (case max_dg of Some n \<Rightarrow> n | None \<Rightarrow> 0) in
          if length wire \<le> mx \<and> send_dg wire then (Inr (), Datagram enc' fallback, [wire])
          else
            let (ok, tx') = chan_send fallback (out_frame_new ft flags sid payload) in
            (if ok then Inr () else Inl SinkClosed, Datagram enc' tx', []))"

fun try_send_lossy ::
  "crypto_lib \<Rightarrow> nat option \<Rightarrow> (bytes \<Rightarrow> bool) \<Rightarrow> frame_sink \<Rightarrow> frame_type \<Rightarrow> u16 \<Rightarrow> u32 \<Rightarrow> bytes \<Rightarrow>
   bool \<times> frame_sink \<times> bytes list" where
  "try_send_lossy L max_dg send_dg (Chan tx) ft flags sid payload =
     (if length payload > MAX_PLAINTEXT_CAP then (False, Chan tx, [])
      else
        let (ok, tx') = chan_try_send tx (out_frame_new ft flags sid payload) in (ok, Chan tx', []))"
| "try_send_lossy L max_dg send_dg (Datagram enc fallback) ft flags sid payload =
     (if length payload > MAX_PLAINTEXT_CAP then (False, Datagram enc fallback, [])
      else (case encode L enc ft flags sid payload of
          (Inl e, enc') \<Rightarrow> (False, Datagram enc' fallback, [])
        | (Inr wire, enc') \<Rightarrow>
            let mx = (case max_dg of Some n \<Rightarrow> n | None \<Rightarrow> 0) in
            if length wire \<le> mx \<and> send_dg wire then (True, Datagram enc' fallback, [wire])
            else
              let (ok, tx') = chan_try_send fallback (out_frame_new ft flags sid payload) in
              (ok, Datagram enc' tx', [])))"

section \<open>Client role\<close>

text \<open>
  A route holds whether its receiver is still there; a pending open or associate waits for a reply.
  The command queue to the writer task is open until that task ends.
\<close>

record mux_inner =
  mx_cmd_open :: bool
  mx_sessions :: "(u32, bool) dmap"
  mx_udp :: "(u32, bool) dmap"
  mx_pending_open :: "(u32, unit) dmap"
  mx_pending_udp :: "(u32, unit) dmap"
  mx_next_sid :: u32
  mx_closed :: bool

datatype mux_event =
  Deliver u32 bytes | DeliverUdp u32 udp_addr bytes | Reply u32 "open_error + unit" | Command out_frame

partial_function (option) alloc_sid :: "mux_inner \<Rightarrow> (u32 \<times> mux_inner) option" where
  "alloc_sid m =
     (let v = mx_next_sid m; m' = m\<lparr>mx_next_sid := v + 1\<rparr> in
      if v \<noteq> 0 \<and> \<not> dm_contains (mx_sessions m') v \<and> \<not> dm_contains (mx_udp m') v then Some (v, m')
      else alloc_sid m')"

definition teardown_all :: "mux_inner \<Rightarrow> mux_inner" where
  "teardown_all m = m\<lparr>mx_closed := True, mx_sessions := [], mx_udp := [], mx_pending_open := [],
                       mx_pending_udp := []\<rparr>"

definition resolve_pending :: "mux_inner \<Rightarrow> u32 \<Rightarrow> open_error + unit \<Rightarrow> mux_inner \<times> mux_event list" where
  "resolve_pending m sid r =
     (if dm_contains (mx_pending_open m) sid
      then (m\<lparr>mx_pending_open := AList.delete sid (mx_pending_open m)\<rparr>, [Reply sid r])
      else if dm_contains (mx_pending_udp m) sid
      then (m\<lparr>mx_pending_udp := AList.delete sid (mx_pending_udp m)\<rparr>, [Reply sid r])
      else (m, []))"

definition drop_route :: "mux_inner \<Rightarrow> u32 \<Rightarrow> mux_inner" where
  "drop_route m sid = m\<lparr>mx_sessions := AList.delete sid (mx_sessions m)\<rparr>"

text \<open>Whether the connection must be torn down, the state, and the events in order.\<close>

definition handle_client_frame :: "mux_inner \<Rightarrow> frame \<Rightarrow> bool \<times> mux_inner \<times> mux_event list" where
  "handle_client_frame m f =
     (let sid = f_sid f in
      case f_type f of
        OpenOk \<Rightarrow>
          if dm_contains (mx_pending_open m) sid
          then (False, m\<lparr>mx_pending_open := AList.delete sid (mx_pending_open m)\<rparr>, [Reply sid (Inr ())])
          else (False, m, [])
      | OpenErr \<Rightarrow>
          (let (m', ev) = resolve_pending m sid (Inl (code_to_open_error (f_payload f))) in (False, m', ev))
      | UdpOk \<Rightarrow>
          if dm_contains (mx_pending_udp m) sid
          then (False, m\<lparr>mx_pending_udp := AList.delete sid (mx_pending_udp m)\<rparr>, [Reply sid (Inr ())])
          else (False, m, [])
      | Error \<Rightarrow>
          (let (m', ev) = resolve_pending m sid (Inl (code_to_open_error (f_payload f))) in
           (False, drop_route m' sid, ev))
      | Data \<Rightarrow>
          (let (m1, ev) =
                 (case map_of (mx_sessions m) sid of
                    Some alive \<Rightarrow> if alive then (m, [Deliver sid (f_payload f)]) else (drop_route m sid, [])
                  | None \<Rightarrow> (m, []))
           in (False, if f_flags f AND FLAG_FIN \<noteq> 0 then drop_route m1 sid else m1, ev))
      | Close \<Rightarrow>
          (False, (drop_route m sid)\<lparr>mx_udp := AList.delete sid (mx_udp m)\<rparr>, [])
      | UdpData \<Rightarrow>
          (case decode_with (reader_new (f_payload f)) False of
             Inr (src, r) \<Rightarrow>
               (False, m, case map_of (mx_udp m) sid of
                  Some alive \<Rightarrow> if alive then [DeliverUdp sid src (fst (reader_rest r))] else []
                | None \<Rightarrow> [])
           | Inl _ \<Rightarrow> (False, m, []))
      | Pong \<Rightarrow> (False, m, [])
      | Ping \<Rightarrow> (False, m, if mx_cmd_open m then [Command (out_frame_new Pong 0 0 [])] else [])
      | _ \<Rightarrow> (False, m, []))"

fun run_client_frames :: "mux_inner \<Rightarrow> frame list \<Rightarrow> mux_inner \<times> mux_event list" where
  "run_client_frames m [] = (m, [])"
| "run_client_frames m (f # fs) =
     (let (stop, m1, ev) = handle_client_frame m f in
      if stop then (m1, ev) else let (m2, ev2) = run_client_frames m1 fs in (m2, ev @ ev2))"

text \<open>The reader task: the frames a channel delivers, and then teardown at its end or on an error.\<close>

definition run_client_reader :: "mux_inner \<Rightarrow> frame list \<Rightarrow> mux_inner \<times> mux_event list" where
  "run_client_reader m fs = (let (m', ev) = run_client_frames m fs in (teardown_all m', ev))"

section \<open>Server role\<close>

record 's hooks =
  hk_open_tcp :: "'s \<Rightarrow> u32 \<Rightarrow> string \<Rightarrow> u16 \<Rightarrow> (open_error + unit) \<times> 's"
  hk_feed_tcp :: "'s \<Rightarrow> u32 \<Rightarrow> bytes \<Rightarrow> bool \<Rightarrow> bool \<Rightarrow> 's"
  hk_close_tcp :: "'s \<Rightarrow> u32 \<Rightarrow> bool \<Rightarrow> 's"
  hk_udp_associate :: "'s \<Rightarrow> u32 \<Rightarrow> (open_error + unit) \<times> 's"
  hk_udp_feed :: "'s \<Rightarrow> u32 \<Rightarrow> udp_addr \<Rightarrow> bytes \<Rightarrow> 's"
  hk_touch :: "'s \<Rightarrow> u32 \<Rightarrow> 's"

definition open_reply :: "frame_type \<Rightarrow> u32 \<Rightarrow> open_error + unit \<Rightarrow> out_frame" where
  "open_reply ok sid r =
     (case r of Inr _ \<Rightarrow> out_frame_new ok 0 sid [] | Inl e \<Rightarrow> out_frame_new OpenErr 0 sid [to_code e])"

text \<open>The frames sent through the sink, whose failures are ignored, and the hooks' state.\<close>

definition handle_server_frame :: "'s hooks \<Rightarrow> 's \<Rightarrow> frame \<Rightarrow> out_frame list \<times> 's" where
  "handle_server_frame H s f =
     (let sid = f_sid f; fin = (f_flags f AND FLAG_FIN \<noteq> 0); rst = (f_flags f AND FLAG_RST \<noteq> 0) in
      case f_type f of
        Open \<Rightarrow>
          (case decode_open (f_payload f) of
             Inr (host, port) \<Rightarrow> (let (r, s') = hk_open_tcp H s sid host port in ([open_reply OpenOk sid r], s'))
           | Inl _ \<Rightarrow> ([out_frame_new OpenErr 0 sid [to_code BadTarget]], s))
      | Data \<Rightarrow> ([], hk_feed_tcp H (hk_touch H s sid) sid (f_payload f) fin rst)
      | Close \<Rightarrow>
          if fin \<and> \<not> rst then ([], hk_feed_tcp H s sid [] True False) else ([], hk_close_tcp H s sid rst)
      | Ping \<Rightarrow> ([out_frame_new Pong 0 0 []], s)
      | UdpAssociate \<Rightarrow> (let (r, s') = hk_udp_associate H s sid in ([open_reply UdpOk sid r], s'))
      | UdpData \<Rightarrow>
          (case decode_with (reader_new (f_payload f)) False of
             Inr (dst, r) \<Rightarrow> ([], hk_udp_feed H (hk_touch H s sid) sid dst (fst (reader_rest r)))
           | Inl _ \<Rightarrow> ([], s))
      | Error \<Rightarrow> ([], hk_close_tcp H s sid True)
      | _ \<Rightarrow> ([], s))"

text \<open>
  The server loop. Slow frames go to worker tasks, of which at most \<open>MAX_MUX_TASKS\<close> hold a permit;
  the others are handled in the loop. A state is the frames still to be read, the frames of the
  running workers, the hooks' state and the frames sent so far.
\<close>

definition concurrent_frame :: "frame \<Rightarrow> bool" where
  "concurrent_frame f \<longleftrightarrow> f_type f \<in> {Open, UdpAssociate, UdpData}"

type_synonym 's server_mux = "frame list \<times> frame multiset \<times> 's \<times> out_frame list"

inductive server_mux_step :: "'s hooks \<Rightarrow> 's server_mux \<Rightarrow> 's server_mux \<Rightarrow> bool" for H where
  spawn: "concurrent_frame f \<Longrightarrow> size W < MAX_MUX_TASKS \<Longrightarrow>
    server_mux_step H (f # fs, W, s, out) (fs, W + {#f#}, s, out)"
| inline: "\<not> concurrent_frame f \<Longrightarrow> handle_server_frame H s f = (sent, s') \<Longrightarrow>
    server_mux_step H (f # fs, W, s, out) (fs, W, s', out @ sent)"
| worker: "f \<in># W \<Longrightarrow> handle_server_frame H s f = (sent, s') \<Longrightarrow>
    server_mux_step H (fs, W, s, out) (fs, W - {#f#}, s', out @ sent)"

inductive_cases server_mux_stepE: "server_mux_step H (fs, W, s, out) t"

section \<open>Abstract view\<close>

text \<open>What the user of the session \<open>sid\<close> should receive from a sequence of frames.\<close>

fun session_data :: "u32 \<Rightarrow> frame list \<Rightarrow> bytes list" where
  "session_data sid [] = []"
| "session_data sid (f # fs) =
     (if f_sid f \<noteq> sid then session_data sid fs
      else if f_type f = Data then
        f_payload f # (if f_flags f AND FLAG_FIN \<noteq> 0 then [] else session_data sid fs)
      else if f_type f = Close \<or> f_type f = Error then []
      else session_data sid fs)"

definition delivered :: "u32 \<Rightarrow> mux_event list \<Rightarrow> bytes list" where
  "delivered sid ev = List.map_filter (\<lambda>e. case e of Deliver s d \<Rightarrow> if s = sid then Some d else None | _ \<Rightarrow> None) ev"

definition is_request :: "u32 \<Rightarrow> frame \<Rightarrow> bool" where
  "is_request sid f \<longleftrightarrow> f_sid f = sid \<and> (f_type f = Open \<or> f_type f = UdpAssociate)"

definition is_answer :: "u32 \<Rightarrow> out_frame \<Rightarrow> bool" where
  "is_answer sid f \<longleftrightarrow> of_sid f = sid \<and> (of_type f = OpenOk \<or> of_type f = OpenErr \<or> of_type f = UdpOk)"

definition sid_free :: "mux_inner \<Rightarrow> u32 \<Rightarrow> bool" where
  "sid_free m v \<longleftrightarrow> v \<noteq> 0 \<and> v \<notin> fst ` set (mx_sessions m) \<and> v \<notin> fst ` set (mx_udp m)"

definition demo_mux :: mux_inner where
  "demo_mux = \<lparr>mx_cmd_open = True, mx_sessions = [(1, True), (2, True)], mx_udp = [(3, True)],
     mx_pending_open = [(2, ())], mx_pending_udp = [], mx_next_sid = 1, mx_closed = False\<rparr>"

definition demo_data :: "u32 \<Rightarrow> u16 \<Rightarrow> bytes \<Rightarrow> frame" where
  "demo_data sid flags payload =
     \<lparr>f_type = Data, f_flags = flags, f_sid = sid, f_counter = 1, f_aad = [], f_payload = payload\<rparr>"

definition demo_hooks :: "unit hooks" where
  "demo_hooks = \<lparr>hk_open_tcp = (\<lambda>s sid h p. (Inl Denied, s)), hk_feed_tcp = (\<lambda>s sid bs fin rst. s),
     hk_close_tcp = (\<lambda>s sid rst. s), hk_udp_associate = (\<lambda>s sid. (Inr (), s)),
     hk_udp_feed = (\<lambda>s sid dst bs. s), hk_touch = (\<lambda>s sid. s)\<rparr>"

definition demo_assoc :: frame where
  "demo_assoc = \<lparr>f_type = UdpAssociate, f_flags = 0, f_sid = 4, f_counter = 1, f_aad = [], f_payload = []\<rparr>"

section \<open>Lemmas: codes and the sink\<close>

lemma from_to_code [simp]: "from_code (to_code e) = e"
  by (cases e) (simp_all add: from_code_def const_defs)

lemma code_of_reply: "code_to_open_error [to_code e] = e"
  by (simp add: code_to_open_error_def)

lemma encode_Inr:
  assumes "encode L enc ft fl sid p = (Inr wire, enc')"
  shows "length p \<le> enc_limit enc"
  using assms by (auto simp: encode_def encode_into_def split: if_splits)

lemma encode_nonempty:
  assumes "encode L enc ft fl sid p = (Inr wire, enc')"
  shows "wire \<noteq> []"
  using assms by (auto simp: encode_def encode_into_def build_header_def Let_def
      split: if_splits prod.splits sum.splits)

lemma chan_try_send_queue:
  "chan_try_send c f = (ok, c') \<Longrightarrow> set (oc_queue c') \<subseteq> insert f (set (oc_queue c)) \<and> (\<not> ok \<longrightarrow> c' = c) \<and>
   (length (oc_queue c) \<le> oc_cap c \<longrightarrow> length (oc_queue c') \<le> oc_cap c') \<and> oc_cap c' = oc_cap c"
  by (auto simp: chan_try_send_def split: if_splits)

lemma lossy_stays_datagram:
  "\<exists>ok enc' q' dgs. try_send_lossy L mx snd_dg (Datagram enc q) ft fl sid p = (ok, Datagram enc' q', dgs)"
  by (auto simp: Let_def split: if_splits prod.splits sum.splits)

text \<open>
  A lossy send on the datagram path never queues a frame the control writer cannot encode: what
  it adds to the fallback queue is at most the frame itself, and only when the payload is within the
  negotiated limit; a datagram it sends is within the size the connection reports; and the queue
  stays within its capacity.
\<close>

theorem lossy_send_encodable:
  assumes "try_send_lossy L max_dg send_dg (Datagram enc q) ft fl sid p = (ok, Datagram enc' q', dgs)"
    and "length (oc_queue q) \<le> oc_cap q"
  shows "(q' \<noteq> q \<longrightarrow> length p \<le> enc_limit enc \<and> ok) \<and>
         set (oc_queue q') \<subseteq> insert (out_frame_new ft fl sid p) (set (oc_queue q)) \<and>
         length (oc_queue q') \<le> oc_cap q' \<and>
         (\<forall>w\<in>set dgs. \<exists>n. max_dg = Some n \<and> length w \<le> n)"
  using assms
  by (auto simp: Let_def split: if_splits prod.splits sum.splits option.splits
      dest: encode_Inr encode_nonempty chan_try_send_queue)

theorem lossy_send_encodable_witness:
  "\<exists>ok enc' q' dgs. try_send_lossy demo_lib (Some 1200) (\<lambda>_. False)
       (Datagram demo_encoder \<lparr>oc_queue = [], oc_cap = 1, oc_closed = False\<rparr>) UdpData 0 3 [1, 2]
     = (ok, Datagram enc' q', dgs) \<and>
     set (oc_queue q') \<subseteq> {out_frame_new UdpData 0 3 [1, 2]} \<and> length (oc_queue q') \<le> oc_cap q'"
proof -
  let ?q = "\<lparr>oc_queue = [], oc_cap = 1, oc_closed = False\<rparr>"
  obtain ok enc' q' dgs where r: "try_send_lossy demo_lib (Some 1200) (\<lambda>_. False)
      (Datagram demo_encoder ?q) UdpData 0 3 [1, 2] = (ok, Datagram enc' q', dgs)"
    using lossy_stays_datagram by metis
  from lossy_send_encodable [OF this] r show ?thesis by auto
qed

section \<open>Session identifiers\<close>

lemma alloc_sid_reaches:
  "sid_free m (mx_next_sid m + of_nat k) \<Longrightarrow>
   \<exists>v n. alloc_sid m = Some (v, m\<lparr>mx_next_sid := n\<rparr>) \<and> sid_free m v"
proof (induction k arbitrary: m)
  case 0
  then show ?case
    by (subst alloc_sid.simps) (auto simp: sid_free_def Let_def)
next
  case (Suc k)
  let ?m = "m\<lparr>mx_next_sid := mx_next_sid m + 1\<rparr>"
  show ?case
  proof (cases "sid_free m (mx_next_sid m)")
    case True
    then show ?thesis
      by (subst alloc_sid.simps) (auto simp: sid_free_def Let_def)
  next
    case False
    then have "alloc_sid m = alloc_sid ?m"
      by (subst alloc_sid.simps) (auto simp: sid_free_def Let_def)
    moreover have "sid_free ?m (mx_next_sid ?m + of_nat k)"
      using Suc.prems by (simp add: sid_free_def add.assoc)
    from Suc.IH [OF this] have "\<exists>v n. alloc_sid ?m = Some (v, m\<lparr>mx_next_sid := n\<rparr>) \<and> sid_free m v"
      by (simp add: sid_free_def)
    ultimately show ?thesis by simp
  qed
qed

lemma sid_exists:
  assumes "length (mx_sessions m) + length (mx_udp m) < 2 ^ 32 - 1"
  obtains v where "sid_free m v"
proof -
  let ?B = "insert 0 (fst ` set (mx_sessions m) \<union> fst ` set (mx_udp m)) :: u32 set"
  have "card ?B \<le> Suc (card (fst ` set (mx_sessions m) \<union> fst ` set (mx_udp m)))"
    by (simp add: card_insert_le_m1 card_insert_if)
  also have "\<dots> \<le> Suc (length (mx_sessions m) + length (mx_udp m))"
    using card_Un_le [of "fst ` set (mx_sessions m)" "fst ` set (mx_udp m)"]
      card_image_le [of "set (mx_sessions m)" fst] card_image_le [of "set (mx_udp m)" fst]
      card_length [of "mx_sessions m"] card_length [of "mx_udp m"]
    by simp
  also have "\<dots> < card (UNIV :: u32 set)"
    using assms by (simp add: card_word)
  finally have "?B \<noteq> UNIV" by auto
  then show thesis using that by (auto simp: sid_free_def)
qed

text \<open>
  C40. Allocation of session identifiers terminates, and returns an identifier that is not 0 and not
  in use by any TCP or UDP session of the channel, as long as one is left; nothing else changes.
\<close>

theorem alloc_sid_fresh:
  assumes "length (mx_sessions m) + length (mx_udp m) < 2 ^ 32 - 1"
  shows "\<exists>v n. alloc_sid m = Some (v, m\<lparr>mx_next_sid := n\<rparr>) \<and> v \<noteq> 0 \<and>
           v \<notin> fst ` set (mx_sessions m) \<and> v \<notin> fst ` set (mx_udp m)"
proof -
  obtain v where "sid_free m v" using sid_exists [OF assms] .
  then have "sid_free m (mx_next_sid m + of_nat (unat (v - mx_next_sid m)))" by simp
  from alloc_sid_reaches [OF this] show ?thesis by (auto simp: sid_free_def)
qed

theorem alloc_sid_fresh_witness:
  "\<exists>v n. alloc_sid demo_mux = Some (v, demo_mux\<lparr>mx_next_sid := n\<rparr>) \<and> v \<noteq> 0 \<and> v \<notin> {1, 2} \<and> v \<notin> {3}"
  using alloc_sid_fresh [of demo_mux] by (simp add: demo_mux_def)

section \<open>Demultiplexing on the client\<close>

lemma delivered_simps [simp]:
  "delivered sid [] = []" "delivered sid (a @ b) = delivered sid a @ delivered sid b"
  "delivered sid (Deliver s d # ev) = (if s = sid then d # delivered sid ev else delivered sid ev)"
  "delivered sid (Reply s r # ev) = delivered sid ev"
  "delivered sid (DeliverUdp s u d # ev) = delivered sid ev"
  "delivered sid (Command c # ev) = delivered sid ev"
  by (simp_all add: delivered_def List.map_filter_def)

lemma resolve_pending_route:
  "resolve_pending m k r = (m', ev) \<Longrightarrow> mx_sessions m' = mx_sessions m \<and> delivered sid ev = []"
  by (auto simp: resolve_pending_def split: if_splits)

lemma handle_client_route:
  assumes "handle_client_frame m f = (stop, m', ev)"
  shows "\<not> stop"
    "delivered sid ev =
      (if f_sid f = sid \<and> f_type f = Data \<and> map_of (mx_sessions m) sid = Some True then [f_payload f] else [])"
    "map_of (mx_sessions m') sid =
      (if f_sid f = sid \<and> (f_type f = Data \<and> (f_flags f AND FLAG_FIN \<noteq> 0 \<or> map_of (mx_sessions m) sid = Some False) \<or>
          f_type f = Close \<or> f_type f = Error)
       then None else map_of (mx_sessions m) sid)"
  using assms
  by (cases "f_type f"; auto simp: handle_client_frame_def drop_route_def delete_conv' Let_def
      dest: resolve_pending_route [of _ _ _ _ _ sid]
      split: if_splits option.splits prod.splits sum.splits)+

lemma demux_closed:
  "map_of (mx_sessions m) sid = None \<Longrightarrow> delivered sid (snd (run_client_frames m fs)) = []"
proof (induction fs arbitrary: m)
  case (Cons f fs)
  obtain stop m1 ev where h: "handle_client_frame m f = (stop, m1, ev)" by (metis prod_cases3)
  note r = handle_client_route(1) [OF h] handle_client_route(2,3) [OF h, of sid]
  have "map_of (mx_sessions m1) sid = None" using r(3) Cons.prems by simp
  then show ?case
    using Cons.IH [of m1] r Cons.prems by (simp add: h split_def Let_def)
qed simp

lemma demux_open:
  "map_of (mx_sessions m) sid = Some True \<Longrightarrow> delivered sid (snd (run_client_frames m fs)) = session_data sid fs"
proof (induction fs arbitrary: m)
  case (Cons f fs)
  obtain stop m1 ev where h: "handle_client_frame m f = (stop, m1, ev)" by (metis prod_cases3)
  note r = handle_client_route(1) [OF h] handle_client_route(2,3) [OF h, of sid]
  show ?case
    using Cons.IH [of m1] demux_closed [of m1 sid fs] r Cons.prems
    by (auto simp: h split_def Let_def split: if_splits)
qed simp

lemma run_reader_demux:
  "map_of (mx_sessions m) sid = Some True \<Longrightarrow> delivered sid (snd (run_client_reader m fs)) = session_data sid fs"
  using demux_open [of m sid fs] by (simp add: run_client_reader_def split_def Let_def)

text \<open>
  C35. Demultiplexing. The user of an open session receives exactly the payloads of the DATA frames of
  that session, in order, up to and including the one that carries FIN or up to a CLOSE or ERROR
  frame of the session, whatever frames of other sessions are interleaved.
\<close>

theorem client_demux:
  assumes "map_of (mx_sessions m) sid = Some True"
  shows "delivered sid (snd (run_client_reader m fs)) = session_data sid fs"
  using assms by (rule run_reader_demux)

theorem client_demux_witness:
  "delivered 1 (snd (run_client_reader demo_mux
     [demo_data 1 0 [10], demo_data 2 0 [20], demo_data 1 FLAG_FIN [11], demo_data 1 0 [12]])) = [[10], [11]]"
  using client_demux [of demo_mux 1] by (simp add: demo_mux_def demo_data_def const_defs)

section \<open>The server loop over its hooks\<close>

text \<open>
  The contract of the hooks: every operation keeps an invariant of the state they work on.
\<close>

locale server_hooks =
  fixes H :: "'s hooks"
    and hinv :: "'s \<Rightarrow> bool"
  assumes open_tcp_inv: "hinv s \<Longrightarrow> hinv (snd (hk_open_tcp H s sid host port))"
    and feed_tcp_inv: "hinv s \<Longrightarrow> hinv (hk_feed_tcp H s sid bs fin rst)"
    and close_tcp_inv: "hinv s \<Longrightarrow> hinv (hk_close_tcp H s sid rst)"
    and udp_associate_inv: "hinv s \<Longrightarrow> hinv (snd (hk_udp_associate H s sid))"
    and udp_feed_inv: "hinv s \<Longrightarrow> hinv (hk_udp_feed H s sid dst bs)"
    and touch_inv: "hinv s \<Longrightarrow> hinv (hk_touch H s sid)"
begin

lemma handle_server_frame_inv: "hinv s \<Longrightarrow> hinv (snd (handle_server_frame H s f))"
  using open_tcp_inv feed_tcp_inv close_tcp_inv udp_associate_inv udp_feed_inv touch_inv
  by (auto simp: handle_server_frame_def split_def Let_def split: frame_type.splits sum.splits)

lemma server_mux_step_inv:
  assumes "server_mux_step H t u" "hinv (fst (snd (snd t))) \<and> size (fst (snd t)) \<le> MAX_MUX_TASKS"
  shows "hinv (fst (snd (snd u))) \<and> size (fst (snd u)) \<le> MAX_MUX_TASKS"
  using assms
proof cases
  case (inline f s sent s' fs W out)
  then show ?thesis using assms(2) handle_server_frame_inv [of s f] by simp
next
  case (worker f W s sent s' fs out)
  then show ?thesis using assms(2) handle_server_frame_inv [of s f] by (auto simp: size_Diff_singleton)
qed simp_all

end

sublocale server_hooks \<subseteq> loop: invariant_system
  "\<lambda>t. hinv (fst (snd (snd t))) \<and> fst (snd t) = {#}" "server_mux_step H"
  "\<lambda>t. hinv (fst (snd (snd t))) \<and> size (fst (snd t)) \<le> MAX_MUX_TASKS"
proof
  show "hinv (fst (snd (snd t))) \<and> fst (snd t) = {#} \<Longrightarrow>
      hinv (fst (snd (snd t))) \<and> size (fst (snd t)) \<le> MAX_MUX_TASKS" for t :: "'s server_mux"
    by simp
qed (rule server_mux_step_inv)

text \<open>Every record of hooks keeps the invariant that says nothing.\<close>

interpretation trivial_hooks: server_hooks H "\<lambda>_. True"
  by unfold_locales simp_all

lemma handle_answers:
  "length (filter (is_answer sid) (fst (handle_server_frame H s f))) = (if is_request sid f then 1 else 0)"
  by (cases "f_type f")
    (auto simp: handle_server_frame_def is_answer_def is_request_def open_reply_def out_frame_new_def
      split_def Let_def split: sum.splits)

lemma answers_balance:
  assumes "server_mux_step H (fs, W, s, out) (fs', W', s', out')"
  shows "length (filter (is_answer sid) out') + length (filter (is_request sid) fs') +
           size (filter_mset (is_request sid) W') =
         length (filter (is_answer sid) out) + length (filter (is_request sid) fs) +
           size (filter_mset (is_request sid) W)"
  using assms
proof cases
  case (inline f sent)
  then show ?thesis using handle_answers [of sid H s f] by simp
next
  case (worker f sent)
  have "size (filter_mset (is_request sid) (W - {#f#})) + (if is_request sid f then 1 else 0) =
      size (filter_mset (is_request sid) W)"
    using worker(4) multi_member_split [of f W] by auto
  then show ?thesis using worker handle_answers [of sid H s f] by simp
qed auto

text \<open>
  C14. Every request to open a TCP session or to associate a UDP session that the server loop has
  finished with was answered exactly once, under its own session identifier, in whatever order the
  worker tasks ran; and at most 32 worker tasks ran at any time.
\<close>

theorem every_open_answered_once:
  assumes "(server_mux_step H)\<^sup>*\<^sup>* (fs, {#}, s, []) (fs', W, s', out)"
  shows "length (filter (is_answer sid) out) + length (filter (is_request sid) fs') +
           size (filter_mset (is_request sid) W) = length (filter (is_request sid) fs) \<and>
         size W \<le> MAX_MUX_TASKS"
proof -
  have "(server_mux_step H)\<^sup>*\<^sup>* t u \<Longrightarrow>
    length (filter (is_answer sid) (snd (snd (snd u)))) + length (filter (is_request sid) (fst u)) +
      size (filter_mset (is_request sid) (fst (snd u))) =
    length (filter (is_answer sid) (snd (snd (snd t)))) + length (filter (is_request sid) (fst t)) +
      size (filter_mset (is_request sid) (fst (snd t)))" for t u
    by (induction rule: rtranclp_induct) (auto dest: answers_balance [where sid = sid])
  from this [OF assms] have "length (filter (is_answer sid) out) + length (filter (is_request sid) fs') +
      size (filter_mset (is_request sid) W) = length (filter (is_request sid) fs)" by simp
  moreover have "size W \<le> MAX_MUX_TASKS"
    using trivial_hooks.loop.reachable_inv [OF _ assms] by simp
  ultimately show ?thesis ..
qed

theorem every_open_answered_once_witness:
  "length (filter (is_answer 4) [out_frame_new UdpOk 0 4 []]) + size (filter_mset (is_request 4) {#}) =
     length (filter (is_request 4) [demo_assoc]) \<and> size ({#} :: frame multiset) \<le> MAX_MUX_TASKS"
proof -
  have "server_mux_step demo_hooks ([demo_assoc], {#}, (), []) ([], {#demo_assoc#}, (), [])"
    using server_mux_step.spawn [of demo_assoc "{#}" demo_hooks "[]" "()" "[]"]
    by (simp add: concurrent_frame_def demo_assoc_def const_defs)
  moreover have "server_mux_step demo_hooks ([], {#demo_assoc#}, (), []) ([], {#}, (), [out_frame_new UdpOk 0 4 []])"
    using server_mux_step.worker [of demo_assoc "{#demo_assoc#}" demo_hooks "()" "[out_frame_new UdpOk 0 4 []]" "()" "[]" "[]"]
    by (simp add: handle_server_frame_def demo_assoc_def demo_hooks_def open_reply_def)
  ultimately have "(server_mux_step demo_hooks)\<^sup>*\<^sup>* ([demo_assoc], {#}, (), []) ([], {#}, (), [out_frame_new UdpOk 0 4 []])"
    by (meson converse_rtranclp_into_rtranclp r_into_rtranclp)
  from every_open_answered_once [OF this, of 4] show ?thesis by simp
qed

end
