(* ===== verification/Limit.thy ===== *)
theory Limit
  imports Addr "HOL-Library.Multiset"
begin

text \<open>
  Model of the unauthenticated-connection gate of \<open>src/server/limit.rs\<close>. Tasks run
  \<open>try_admit\<close> and the drop of its guard concurrently; the atomic actions (one locked access to
  the per-address map, one atomic load, compare-exchange or subtraction of the global counter) are the
  steps of a program counter per task, and a run interleaves them in any order.
\<close>

record unauth_gate =
  g_global :: u64
  g_per_ip :: "(ip_addr, u64) dmap"
  g_max_global :: u64
  g_max_per_ip :: u64

definition gate_new :: "u64 \<Rightarrow> u64 \<Rightarrow> unauth_gate" where
  "gate_new max_global max_per_ip =
     \<lparr>g_global = 0, g_per_ip = [], g_max_global = max max_global 1, g_max_per_ip = max max_per_ip 1\<rparr>"

text \<open>\<open>entry(ip).or_insert(0)\<close>, the test and the increment, under the shard lock\<close>

definition admit_ip :: "unauth_gate \<Rightarrow> ip_addr \<Rightarrow> bool \<times> unauth_gate" where
  "admit_ip g ip =
     (let e = (case map_of (g_per_ip g) ip of Some e \<Rightarrow> e | None \<Rightarrow> 0);
          g1 = g\<lparr>g_per_ip := AList.update ip e (g_per_ip g)\<rparr>
      in if e \<ge> g_max_per_ip g then (False, g1)
         else (True, g1\<lparr>g_per_ip := AList.update ip (e + 1) (g_per_ip g1)\<rparr>))"

definition release_ip :: "unauth_gate \<Rightarrow> ip_addr \<Rightarrow> unauth_gate" where
  "release_ip g ip =
     (case map_of (g_per_ip g) ip of
        Some e \<Rightarrow>
          let e' = saturating_sub e 1;
              g1 = g\<lparr>g_per_ip := AList.update ip e' (g_per_ip g)\<rparr>
          in if e' = 0 then g1\<lparr>g_per_ip := AList.delete ip (g_per_ip g1)\<rparr> else g1
      | None \<Rightarrow> g)"

text \<open>
  Where a task is: about to enter \<open>try_admit\<close>; before the load of the loop; before the
  compare-exchange with the value it loaded; about to undo its per-address count; holding the guard;
  in the drop of the guard, with the global slot already returned.
\<close>

datatype gate_pc =
  Enter "ip_addr option" | Load "ip_addr option" | Cas "ip_addr option" u64 | Undo ip_addr
  | Admitted "ip_addr option" | Dropping ip_addr

fun gate_advance :: "unauth_gate \<Rightarrow> gate_pc \<Rightarrow> gate_pc option \<times> unauth_gate" where
  "gate_advance g (Enter None) = (Some (Load None), g)"
| "gate_advance g (Enter (Some ip)) =
     (let (ok, g') = admit_ip g ip in if ok then (Some (Load (Some ip)), g') else (None, g'))"
| "gate_advance g (Load ip) =
     (let cur = g_global g in
      if cur \<ge> g_max_global g then (map_option Undo ip, g) else (Some (Cas ip cur), g))"
| "gate_advance g (Cas ip cur) =
     (if g_global g = cur then (Some (Admitted ip), g\<lparr>g_global := cur + 1\<rparr>) else (Some (Load ip), g))"
| "gate_advance g (Undo ip) = (None, release_ip g ip)"
| "gate_advance g (Admitted ip) = (map_option Dropping ip, g\<lparr>g_global := g_global g - 1\<rparr>)"
| "gate_advance g (Dropping ip) = (None, release_ip g ip)"

type_synonym gate_state = "unauth_gate \<times> gate_pc multiset"

inductive gate_step :: "gate_state \<Rightarrow> gate_state \<Rightarrow> bool" where
  arrive: "gate_step (g, P) (g, P + {#Enter ip#})"
| advance: "pc \<in># P \<Longrightarrow> gate_advance g pc = (next, g') \<Longrightarrow>
    gate_step (g, P) (g', P - {#pc#} + (case next of None \<Rightarrow> {#} | Some pc' \<Rightarrow> {#pc'#}))"

inductive_cases gate_stepE: "gate_step (g, P) t"

text \<open>A call of \<open>try_admit\<close> that no other task interrupts.\<close>

definition try_admit :: "unauth_gate \<Rightarrow> ip_addr option \<Rightarrow> bool \<times> unauth_gate" where
  "try_admit g ip =
     (case gate_advance g (Enter ip) of
        (Some pc1, g1) \<Rightarrow>
          (case gate_advance g1 pc1 of
             (Some pc2, g2) \<Rightarrow>
               (case gate_advance g2 pc2 of
                  (Some (Admitted _), g3) \<Rightarrow> (True, g3)
                | (_, g3) \<Rightarrow> (False, g3))
           | (None, g2) \<Rightarrow> (False, g2))
      | (None, g1) \<Rightarrow> (False, g1))"

section \<open>Abstract view\<close>

fun holds_global :: "gate_pc \<Rightarrow> bool" where
  "holds_global (Admitted ip) = True"
| "holds_global _ = False"

fun holds_ip :: "ip_addr \<Rightarrow> gate_pc \<Rightarrow> bool" where
  "holds_ip a (Enter ip) = False"
| "holds_ip a (Load ip) = (ip = Some a)"
| "holds_ip a (Cas ip cur) = (ip = Some a)"
| "holds_ip a (Undo ip) = (ip = a)"
| "holds_ip a (Admitted ip) = (ip = Some a)"
| "holds_ip a (Dropping ip) = (ip = a)"

definition ip_count :: "unauth_gate \<Rightarrow> ip_addr \<Rightarrow> nat" where
  "ip_count g a = (case map_of (g_per_ip g) a of Some e \<Rightarrow> unat e | None \<Rightarrow> 0)"

definition cas_below :: "unauth_gate \<Rightarrow> gate_pc \<Rightarrow> bool" where
  "cas_below g pc \<longleftrightarrow> (case pc of Cas ip cur \<Rightarrow> cur < g_max_global g | _ \<Rightarrow> True)"

definition gate_inv :: "gate_state \<Rightarrow> bool" where
  "gate_inv s \<longleftrightarrow>
     (case s of (g, P) \<Rightarrow>
        dm_ok (g_per_ip g) \<and> 0 < g_max_per_ip g \<and>
        (\<forall>a e. map_of (g_per_ip g) a = Some e \<longrightarrow> 0 < e) \<and>
        unat (g_global g) = size (filter_mset holds_global P) \<and>
        g_global g \<le> g_max_global g \<and>
        (\<forall>a. ip_count g a = size (filter_mset (holds_ip a) P)) \<and>
        (\<forall>a. ip_count g a \<le> unat (g_max_per_ip g)) \<and>
        (\<forall>pc. pc \<in># P \<longrightarrow> cas_below g pc))"

section \<open>Lemmas: one atomic action\<close>

lemma admit_ip_ok:
  assumes "admit_ip g a = (True, g')" "ip_count g a \<le> unat (g_max_per_ip g)"
  shows "ip_count g' a = Suc (ip_count g a)" "ip_count g' a \<le> unat (g_max_per_ip g)"
    and "a \<noteq> b \<Longrightarrow> ip_count g' b = ip_count g b"
proof -
  let ?e = "case map_of (g_per_ip g) a of Some e \<Rightarrow> e | None \<Rightarrow> 0"
  have lt: "?e < g_max_per_ip g" and g': "g_per_ip g' = AList.update a (?e + 1) (AList.update a ?e (g_per_ip g))"
    using assms(1) by (auto simp: admit_ip_def Let_def split: if_splits)
  have "unat (?e + 1) = Suc (unat ?e)"
    using lt by (rule unat_inc)
  moreover have "ip_count g a = unat ?e"
    by (simp add: ip_count_def split: option.splits)
  ultimately show "ip_count g' a = Suc (ip_count g a)" "ip_count g' a \<le> unat (g_max_per_ip g)"
    using g' lt by (simp_all add: ip_count_def update_conv' word_less_nat_alt)
  show "a \<noteq> b \<Longrightarrow> ip_count g' b = ip_count g b"
    by (simp add: ip_count_def g' update_conv')
qed

lemma admit_ip_wf:
  assumes "admit_ip g a = (ok, g')" "0 < g_max_per_ip g"
    "dm_ok (g_per_ip g)" "\<forall>a e. map_of (g_per_ip g) a = Some e \<longrightarrow> 0 < e"
  shows "dm_ok (g_per_ip g')" "\<forall>a e. map_of (g_per_ip g') a = Some e \<longrightarrow> 0 < e"
    "g_global g' = g_global g" "g_max_global g' = g_max_global g" "g_max_per_ip g' = g_max_per_ip g"
proof -
  have "x < m \<Longrightarrow> 0 < x + 1" for x m :: u64
    using unat_inc [of x m] by (simp add: word_less_nat_alt)
  then show "\<forall>a e. map_of (g_per_ip g') a = Some e \<longrightarrow> 0 < e"
    using assms by (auto simp: admit_ip_def Let_def update_conv' not_le split: if_splits option.splits)
qed (use assms in \<open>auto simp: admit_ip_def Let_def split: if_splits\<close>)

lemma admit_ip_refused:
  assumes "admit_ip g a = (False, g')" "0 < g_max_per_ip g"
  shows "ip_count g' b = ip_count g b"
  using assms by (auto simp: admit_ip_def Let_def ip_count_def update_conv' split: if_splits option.splits)

lemma release_ip_count:
  assumes "\<forall>a e. map_of (g_per_ip g) a = Some e \<longrightarrow> 0 < e" "dm_ok (g_per_ip g)"
  shows "ip_count (release_ip g a) b = (if b = a then ip_count g a - 1 else ip_count g b)"
proof (cases "map_of (g_per_ip g) a")
  case None
  then show ?thesis by (simp add: release_ip_def ip_count_def)
next
  case (Some e)
  then have "e \<noteq> 0" using assms(1) by auto
  then have "unat (e - 1) = unat e - 1" "saturating_sub e 1 = e - 1" by (simp_all add: unat_dec)
  then show ?thesis
    using Some assms(2)
    by (auto simp: release_ip_def ip_count_def Let_def update_conv' delete_conv')
qed

lemma release_ip_wf:
  assumes "\<forall>a e. map_of (g_per_ip g) a = Some e \<longrightarrow> 0 < e" "dm_ok (g_per_ip g)"
  shows "dm_ok (g_per_ip (release_ip g a))"
    "\<forall>b e. map_of (g_per_ip (release_ip g a)) b = Some e \<longrightarrow> 0 < e"
    "g_global (release_ip g a) = g_global g" "g_max_global (release_ip g a) = g_max_global g"
    "g_max_per_ip (release_ip g a) = g_max_per_ip g"
  using assms
  by (auto simp: release_ip_def Let_def update_conv' delete_conv' word_gt_0
      simp del: map_of_eq_Some_iff split: option.splits if_splits)

lemma size_filter_remove:
  "pc \<in># P \<Longrightarrow> size (filter_mset Q (P - {#pc#})) = size (filter_mset Q P) - (if Q pc then 1 else 0)"
  by (auto simp: filter_diff_mset size_Diff_singleton)

lemma size_filter_pos: "pc \<in># P \<Longrightarrow> Q pc \<Longrightarrow> 0 < size (filter_mset Q P)"
  by (metis count_greater_zero_iff count_filter_mset size_eq_0_iff_empty gr0I empty_iff set_mset_empty)

lemma ip_count_global [simp]: "ip_count (g\<lparr>g_global := n\<rparr>) a = ip_count g a"
  by (simp add: ip_count_def)

lemma admit_ip_bounded:
  assumes "admit_ip g b = (ok, g')" "0 < g_max_per_ip g" "\<And>a. ip_count g a \<le> unat (g_max_per_ip g)"
  shows "ip_count g' a \<le> unat (g_max_per_ip g)"
  using assms admit_ip_ok [of g b g'] admit_ip_refused [of g b g'] by (cases ok; cases "b = a") auto

lemma release_ip_bounded:
  assumes "\<forall>a e. map_of (g_per_ip g) a = Some e \<longrightarrow> 0 < e" "dm_ok (g_per_ip g)" "ip_count g a \<le> n"
  shows "ip_count (release_ip g b) a \<le> n"
  using release_ip_count [OF assms(1,2), of b a] assms(3) by (auto split: if_splits)

text \<open>What each atomic action does to the two counters, against what the task holds before and after.\<close>

lemma advance_holds_ip:
  assumes "gate_inv (g, P)" "pc \<in># P" "gate_advance g pc = (nxt, g')"
  shows "ip_count g' a + (if holds_ip a pc then 1 else 0) =
         ip_count g a + (case nxt of None \<Rightarrow> 0 | Some pc' \<Rightarrow> if holds_ip a pc' then 1 else 0)"
    and "ip_count g' a \<le> unat (g_max_per_ip g)"
proof -
  have wf: "0 < g_max_per_ip g" "dm_ok (g_per_ip g)" "\<forall>a e. map_of (g_per_ip g) a = Some e \<longrightarrow> 0 < e"
    and cnt: "\<And>a. ip_count g a = size (filter_mset (holds_ip a) P)" "\<And>a. ip_count g a \<le> unat (g_max_per_ip g)"
    using assms(1) unfolding gate_inv_def by blast+
  have pos: "holds_ip b pc \<Longrightarrow> 0 < ip_count g b" for b
    using cnt(1) size_filter_pos assms(2) by metis
  show "ip_count g' a + (if holds_ip a pc then 1 else 0) =
         ip_count g a + (case nxt of None \<Rightarrow> 0 | Some pc' \<Rightarrow> if holds_ip a pc' then 1 else 0)"
    using assms(3) wf cnt(2) pos
    by (cases "(g, pc)" rule: gate_advance.cases)
       (auto simp: release_ip_count Let_def split: prod.splits if_splits option.splits
         dest: admit_ip_ok admit_ip_refused)
  show "ip_count g' a \<le> unat (g_max_per_ip g)"
    using assms(3) wf cnt(2)
    by (cases "(g, pc)" rule: gate_advance.cases)
       (auto simp: Let_def split: prod.splits if_splits intro: admit_ip_bounded release_ip_bounded)
qed

lemma advance_global:
  assumes "gate_inv (g, P)" "pc \<in># P" "gate_advance g pc = (nxt, g')"
  shows "unat (g_global g') + (if holds_global pc then 1 else 0) =
         unat (g_global g) + (case nxt of None \<Rightarrow> 0 | Some pc' \<Rightarrow> if holds_global pc' then 1 else 0)"
    and "g_global g' \<le> g_max_global g"
    and "(case nxt of None \<Rightarrow> True | Some pc' \<Rightarrow> cas_below g pc')"
proof -
  have wf: "0 < g_max_per_ip g" "dm_ok (g_per_ip g)" "\<forall>a e. map_of (g_per_ip g) a = Some e \<longrightarrow> 0 < e"
    and cnt: "unat (g_global g) = size (filter_mset holds_global P)" "g_global g \<le> g_max_global g"
    and cas: "cas_below g pc"
    using assms(1,2) unfolding gate_inv_def by blast+
  have pos: "holds_global pc \<Longrightarrow> g_global g \<noteq> 0"
    using cnt(1) size_filter_pos [OF assms(2)] by (metis less_irrefl unat_eq_0)
  have inc: "\<And>ip. pc = Cas ip (g_global g) \<Longrightarrow> unat (g_global g + 1) = Suc (unat (g_global g)) \<and>
      g_global g + 1 \<le> g_max_global g"
    using cas by (auto simp: cas_below_def word_le_nat_alt word_less_nat_alt unat_inc [of _ "g_max_global g"])
  have dec: "holds_global pc \<Longrightarrow> Suc (unat (g_global g - 1)) = unat (g_global g) \<and>
      g_global g - 1 \<le> g_max_global g"
    using pos cnt(2) by (auto simp: unat_dec word_le_nat_alt unat_gt_0)
  note c = admit_ip_wf [OF _ wf] release_ip_wf [OF wf(3,2)]
  show "unat (g_global g') + (if holds_global pc then 1 else 0) =
         unat (g_global g) + (case nxt of None \<Rightarrow> 0 | Some pc' \<Rightarrow> if holds_global pc' then 1 else 0)"
    using assms(3) inc dec
    by (cases "(g, pc)" rule: gate_advance.cases)
       (auto simp: c Let_def split: prod.splits if_splits option.splits dest: admit_ip_wf(3-) [OF _ wf])
  show "g_global g' \<le> g_max_global g"
    using assms(3) inc dec cnt(2)
    by (cases "(g, pc)" rule: gate_advance.cases)
       (auto simp: c Let_def split: prod.splits if_splits option.splits dest: admit_ip_wf(3-) [OF _ wf])
  show "(case nxt of None \<Rightarrow> True | Some pc' \<Rightarrow> cas_below g pc')"
    using assms(3)
    by (cases "(g, pc)" rule: gate_advance.cases)
       (auto simp: cas_below_def Let_def split: prod.splits if_splits option.splits)
qed

lemma advance_wf:
  assumes "gate_inv (g, P)" "gate_advance g pc = (nxt, g')"
  shows "dm_ok (g_per_ip g')" "\<forall>a e. map_of (g_per_ip g') a = Some e \<longrightarrow> 0 < e"
    "g_max_global g' = g_max_global g" "g_max_per_ip g' = g_max_per_ip g"
proof -
  have wf: "0 < g_max_per_ip g" "dm_ok (g_per_ip g)" "\<forall>a e. map_of (g_per_ip g) a = Some e \<longrightarrow> 0 < e"
    using assms(1) unfolding gate_inv_def by blast+
  note c = admit_ip_wf [OF _ wf] release_ip_wf [OF wf(3,2)]
  show "dm_ok (g_per_ip g')"
    using assms(2) c wf by (cases "(g, pc)" rule: gate_advance.cases)
      (auto simp: Let_def split: prod.splits if_splits)
  show "\<forall>a e. map_of (g_per_ip g') a = Some e \<longrightarrow> 0 < e"
    using assms(2) c wf by (cases "(g, pc)" rule: gate_advance.cases)
      (auto simp: Let_def simp del: map_of_eq_Some_iff split: prod.splits if_splits)
  show "g_max_global g' = g_max_global g" "g_max_per_ip g' = g_max_per_ip g"
    using assms(2) c by (cases "(g, pc)" rule: gate_advance.cases; auto simp: Let_def split: prod.splits if_splits)+
qed

lemma gate_step_inv:
  assumes "gate_inv s" "gate_step s t"
  shows "gate_inv t"
  using assms(2,1)
proof (cases rule: gate_step.cases)
  case (arrive g P ip)
  then show ?thesis
    using assms(1) by (auto simp: gate_inv_def cas_below_def)
next
  case (advance pc P g nxt g')
  have inv: "gate_inv (g, P)" using assms(1) advance by simp
  note wf = advance_wf [OF inv advance(4)]
  let ?Q = "P - {#pc#} + (case nxt of None \<Rightarrow> {#} | Some pc' \<Rightarrow> {#pc'#})"
  have cnt: "unat (g_global g) = size (filter_mset holds_global P)" "0 < g_max_per_ip g"
      "\<And>a. ip_count g a = size (filter_mset (holds_ip a) P)" "\<And>q. q \<in># P \<Longrightarrow> cas_below g q"
    using inv unfolding gate_inv_def by blast+
  have sz: "size (filter_mset R ?Q) + (if R pc then 1 else 0) = size (filter_mset R P) +
      (case nxt of None \<Rightarrow> 0 | Some pc' \<Rightarrow> if R pc' then 1 else 0)" for R
    using size_filter_remove [OF advance(3), of R] size_filter_pos [OF advance(3), of R]
    by (auto split: option.splits)
  have "unat (g_global g') = size (filter_mset holds_global ?Q)"
    using advance_global(1) [OF inv advance(3,4)] sz [of holds_global] cnt(1) by linarith
  moreover have "ip_count g' a = size (filter_mset (holds_ip a) ?Q)" for a
    using advance_holds_ip(1) [OF inv advance(3,4), of a] sz [of "holds_ip a"] cnt(3) [of a] by linarith
  moreover have "cas_below g' q" if "q \<in># ?Q" for q
  proof -
    have "cas_below g' r = cas_below g r" for r
      using wf(3) by (cases r) (simp_all add: cas_below_def)
    moreover have "q \<in># P \<or> nxt = Some q"
      using that by (auto split: option.splits dest: in_diffD)
    ultimately show ?thesis
      using cnt(4) advance_global(3) [OF inv advance(3,4)] by auto
  qed
  ultimately show ?thesis
    using wf advance_global(2) [OF inv advance(3,4)] advance_holds_ip(2) [OF inv advance(3,4)] cnt(2)
    unfolding advance(2) gate_inv_def by auto
qed

lemma gate_step_max:
  "gate_step s t \<Longrightarrow> gate_inv s \<Longrightarrow>
   g_max_global (fst t) = g_max_global (fst s) \<and> g_max_per_ip (fst t) = g_max_per_ip (fst s)"
  by (induction rule: gate_step.induct) (auto dest: advance_wf(3,4))

interpretation gate: invariant_system
  "\<lambda>s. s = (gate_new mg mi, {#})" gate_step
  "\<lambda>s. gate_inv s \<and> g_max_global (fst s) = max mg 1 \<and> g_max_per_ip (fst s) = max mi 1"
proof
  fix s :: gate_state
  assume s: "s = (gate_new mg mi, {#})"
  have "0 < max mi 1" by (simp add: less_max_iff_disj)
  with s show "gate_inv s \<and> g_max_global (fst s) = max mg 1 \<and> g_max_per_ip (fst s) = max mi 1"
    by (simp add: gate_inv_def gate_new_def ip_count_def)
next
  fix s t
  assume "gate_inv s \<and> g_max_global (fst s) = max mg 1 \<and> g_max_per_ip (fst s) = max mi 1" "gate_step s t"
  then show "gate_inv t \<and> g_max_global (fst t) = max mg 1 \<and> g_max_per_ip (fst t) = max mi 1"
    using gate_step_inv gate_step_max by metis
qed

lemma gate_idle:
  assumes "gate_inv (g, {#})"
  shows "g_global g = 0" "g_per_ip g = []"
proof -
  show "g_global g = 0" using assms by (simp add: gate_inv_def unat_eq_0)
  have "map_of (g_per_ip g) a = None" for a
  proof (cases "map_of (g_per_ip g) a")
    case (Some e)
    then have "0 < e" "ip_count g a = 0" using assms by (auto simp: gate_inv_def)
    with Some show ?thesis by (simp add: ip_count_def unat_eq_0)
  qed
  then show "g_per_ip g = []" by (metis empty_eq_map_of_iff ext)
qed

text \<open>
  C29. The gate under concurrency. However the atomic actions of any number of tasks interleave, the
  number of connections holding a slot never exceeds the global cap, the number holding one for any
  one address never exceeds the per-address cap, and when every task has finished the gate is back
  in its initial state: no slot is leaked or returned twice.
\<close>

theorem unauth_gate_caps:
  assumes "gate_step\<^sup>*\<^sup>* (gate_new mg mi, {#}) (g, P)"
  shows "size (filter_mset holds_global P) \<le> unat (max mg 1) \<and>
         (\<forall>a. size (filter_mset (holds_ip a) P) \<le> unat (max mi 1)) \<and>
         (P = {#} \<longrightarrow> g = gate_new mg mi)"
proof -
  have inv: "gate_inv (g, P)" and mx: "g_max_global g = max mg 1" "g_max_per_ip g = max mi 1"
    using gate.reachable_inv [OF refl assms] by auto
  have "g = gate_new mg mi" if "P = {#}"
    using gate_idle [of g] inv mx that by (simp add: gate_new_def)
  with inv mx show ?thesis
    by (auto simp: gate_inv_def word_le_nat_alt)
qed

lemma gate_demo_run:
  "gate_step\<^sup>*\<^sup>* (gate_new 2 1, {#})
     (gate_new 2 1\<lparr>g_global := 1, g_per_ip := [(IpV4 7, 1)]\<rparr>, {#Admitted (Some (IpV4 7))#})"
proof -
  let ?a = "IpV4 7" and ?g = "gate_new 2 1"
  let ?g1 = "?g\<lparr>g_per_ip := [(?a, 1)]\<rparr>"
  have "gate_step\<^sup>*\<^sup>* (?g, {#}) (?g, {#Enter (Some ?a)#})"
    using gate_step.arrive [of ?g "{#}" "Some ?a"] by (intro r_into_rtranclp) simp
  also have "gate_step\<^sup>*\<^sup>* (?g, {#Enter (Some ?a)#}) (?g1, {#Load (Some ?a)#})"
    using gate_step.advance [of "Enter (Some ?a)" "{#Enter (Some ?a)#}" ?g "Some (Load (Some ?a))" ?g1]
    by (intro r_into_rtranclp) (simp add: admit_ip_def gate_new_def max_def)
  also have "gate_step\<^sup>*\<^sup>* (?g1, {#Load (Some ?a)#}) (?g1, {#Cas (Some ?a) 0#})"
    using gate_step.advance [of "Load (Some ?a)" "{#Load (Some ?a)#}" ?g1 "Some (Cas (Some ?a) 0)" ?g1]
    by (intro r_into_rtranclp) (simp add: gate_new_def max_def)
  also have "gate_step\<^sup>*\<^sup>* (?g1, {#Cas (Some ?a) 0#}) (?g1\<lparr>g_global := 1\<rparr>, {#Admitted (Some ?a)#})"
    using gate_step.advance [of "Cas (Some ?a) 0" "{#Cas (Some ?a) 0#}" ?g1 "Some (Admitted (Some ?a))"
        "?g1\<lparr>g_global := 1\<rparr>"]
    by (intro r_into_rtranclp) (simp add: gate_new_def)
  finally show ?thesis
    by (simp add: gate_new_def)
qed

theorem unauth_gate_caps_witness:
  "size (filter_mset (holds_ip (IpV4 7)) {#Admitted (Some (IpV4 7))#}) \<le> unat (max (1 :: u64) 1) \<and>
   size (filter_mset holds_global {#Admitted (Some (IpV4 7))#}) \<le> unat (max (2 :: u64) 1)"
  using unauth_gate_caps [OF gate_demo_run] by blast

text \<open>An uninterrupted call admits the caller exactly when both caps leave room.\<close>

lemma try_admit_iff:
  "fst (try_admit g ip) \<longleftrightarrow>
     (case ip of None \<Rightarrow> True
      | Some a \<Rightarrow> (case map_of (g_per_ip g) a of Some e \<Rightarrow> e | None \<Rightarrow> 0) < g_max_per_ip g) \<and>
     g_global g < g_max_global g"
  by (auto simp: try_admit_def admit_ip_def Let_def not_le split: option.splits)

end
