(* ===== verification/Server_State.thy ===== *)
theory Server_State
  imports Frame Limit
begin

text \<open>
  Model of \<open>src/server/state.rs\<close>: sessions, connections and the global state of the server.
  Connections are shared objects: a task may hold a connection that is no longer listed. They live in
  a heap keyed by their unique id, and the map \<open>conns\<close> is the list of the ids it holds.
  Cancellation tokens are numbered; the operations that cancel tokens return them. Time is an argument:
  milliseconds of uptime for idle tracking, the calibrated Unix time for the replay cache, and
  an \<open>Instant\<close> for the DNS cache.
\<close>

definition NONCE_CAP :: nat where [const_defs]: "NONCE_CAP = 50000"
definition UDP_DNS_CACHE_CAP :: nat where [const_defs]: "UDP_DNS_CACHE_CAP = 4096"

type_synonym token = nat
type_synonym millis = int

section \<open>Sessions\<close>

record session_handle =
  sh_cancel :: token
  sh_last_active :: millis

definition handle_from_token :: "millis \<Rightarrow> token \<Rightarrow> session_handle" where
  "handle_from_token now token = \<lparr>sh_cancel = token, sh_last_active = now\<rparr>"

definition handle_touch :: "millis \<Rightarrow> session_handle \<Rightarrow> session_handle" where
  "handle_touch now h = h\<lparr>sh_last_active := now\<rparr>"

text \<open>\<open>Duration::from_millis(now.saturating_sub(last) as u64)\<close>\<close>

definition idle_millis :: "millis \<Rightarrow> millis \<Rightarrow> nat" where
  "idle_millis now since = nat (clamp (now - since) (- (2 ^ 63)) (2 ^ 63 - 1) mod 2 ^ 64)"

definition handle_idle_for :: "millis \<Rightarrow> session_handle \<Rightarrow> nat" where
  "handle_idle_for now h = idle_millis now (sh_last_active h)"

section \<open>Connections\<close>

text \<open>The sending half of a session's inbound queue, and the relay sockets of a UDP session.\<close>

record tcp_route =
  tr_queue :: "(bytes \<times> bool) list"
  tr_closed :: bool

record udp_relay =
  ur_cancel :: token
  ur_v4 :: "nat option"
  ur_v6 :: "nat option"

definition udp_relay_new :: "token \<Rightarrow> udp_relay" where
  "udp_relay_new token = \<lparr>ur_cancel = token, ur_v4 = None, ur_v6 = None\<rparr>"

record conn_state =
  cs_id :: u64
  cs_uid :: string
  cs_cipher :: frame_cipher
  cs_stream_counters :: counter_gen
  cs_cancel :: token
  cs_sessions :: "(u32, session_handle) dmap"
  cs_tcp_routes :: "(u32, tcp_route) dmap"
  cs_udp_routes :: "(u32, udp_relay) dmap"
  cs_max_per_conn :: nat
  cs_last_active :: millis
  cs_limit :: nat

definition try_register_with ::
  "millis \<Rightarrow> conn_state \<Rightarrow> u32 \<Rightarrow> token \<Rightarrow> session_handle option \<times> conn_state" where
  "try_register_with now c sid token =
     (let c1 = c\<lparr>cs_last_active := now\<rparr> in
      if dm_contains (cs_sessions c1) sid then (None, c1)
      else
        let h = handle_from_token now token in
        (Some h, c1\<lparr>cs_sessions := AList.update sid h (cs_sessions c1)\<rparr>))"

text \<open>\<open>child\<close> is the token \<open>child_token()\<close> returns; the registration result is only asserted on.\<close>

definition register :: "millis \<Rightarrow> conn_state \<Rightarrow> u32 \<Rightarrow> token \<Rightarrow> token \<times> conn_state" where
  "register now c sid child = (child, snd (try_register_with now c sid child))"

text \<open>Whether a handle was removed, the connection, and the tokens cancelled.\<close>

definition drop_session :: "conn_state \<Rightarrow> u32 \<Rightarrow> bool \<times> conn_state \<times> token list" where
  "drop_session c sid =
     (let c1 = c\<lparr>cs_tcp_routes := AList.delete sid (cs_tcp_routes c)\<rparr>;
          (c2, t2) =
            (case map_of (cs_udp_routes c1) sid of
               Some r \<Rightarrow> (c1\<lparr>cs_udp_routes := AList.delete sid (cs_udp_routes c1)\<rparr>, [ur_cancel r])
             | None \<Rightarrow> (c1, []))
      in (case map_of (cs_sessions c2) sid of
            Some h \<Rightarrow> (True, c2\<lparr>cs_sessions := AList.delete sid (cs_sessions c2)\<rparr>, t2 @ [sh_cancel h])
          | None \<Rightarrow> (False, c2, t2)))"

definition conn_touch :: "millis \<Rightarrow> conn_state \<Rightarrow> u32 \<Rightarrow> conn_state" where
  "conn_touch now c sid =
     (let c1 = c\<lparr>cs_last_active := now\<rparr> in
      case map_of (cs_sessions c1) sid of
        Some h \<Rightarrow> c1\<lparr>cs_sessions := AList.update sid (handle_touch now h) (cs_sessions c1)\<rparr>
      | None \<Rightarrow> c1)"

definition conn_idle_for :: "millis \<Rightarrow> conn_state \<Rightarrow> nat" where
  "conn_idle_for now c = idle_millis now (cs_last_active c)"

definition session_count :: "conn_state \<Rightarrow> nat" where
  "session_count c = length (cs_sessions c)"

section \<open>The server\<close>

record server_state =
  st_static_keys :: "(string, bytes) dmap"
  st_heap :: "(u64, conn_state) dmap"
  st_conns :: "u64 list"
  st_conn_seq :: u64
  st_active_sessions :: u64
  st_max_sessions :: nat
  st_rates :: "(string, nat) dmap"
  st_idle :: nat
  st_allow_private_targets :: bool
  st_seen_nonces :: "(string, u64) dmap"
  st_max_plaintext :: nat
  st_udp_dns :: "(string, socket_addr \<times> nat) dmap"
  st_udp_dns_ttl :: nat

text \<open>
  \<open>rate_for\<close>: limiters are shared objects; \<open>new_limiter\<close> is the reference of the one that is
  created when the user has none yet.
\<close>

definition rate_for :: "server_state \<Rightarrow> nat \<Rightarrow> string \<Rightarrow> nat \<times> server_state" where
  "rate_for st new_limiter uid =
     (case map_of (st_rates st) uid of
        Some r \<Rightarrow> (r, st)
      | None \<Rightarrow> (new_limiter, st\<lparr>st_rates := AList.update uid new_limiter (st_rates st)\<rparr>))"

definition udp_dns_cached :: "server_state \<Rightarrow> string \<Rightarrow> nat \<Rightarrow> socket_addr option" where
  "udp_dns_cached st key now =
     (if st_udp_dns_ttl st = 0 then None
      else (case map_of (st_udp_dns st) key of
          None \<Rightarrow> None
        | Some (addr, at) \<Rightarrow> if now - at \<le> st_udp_dns_ttl st then Some addr else None))"

definition udp_dns_store :: "server_state \<Rightarrow> string \<Rightarrow> socket_addr \<Rightarrow> nat \<Rightarrow> server_state" where
  "udp_dns_store st key addr now =
     (if st_udp_dns_ttl st = 0 then st
      else
        let full = length (st_udp_dns st) \<ge> UDP_DNS_CACHE_CAP;
            st1 = (if full
                   then st\<lparr>st_udp_dns := dm_retain (\<lambda>_ (_, at). now - at \<le> st_udp_dns_ttl st) (st_udp_dns st)\<rparr>
                   else st)
        in if full \<and> length (st_udp_dns st1) \<ge> UDP_DNS_CACHE_CAP then st1
           else st1\<lparr>st_udp_dns := AList.update key (addr, now) (st_udp_dns st1)\<rparr>)"

text \<open>An uninterrupted round of the compare-exchange loop.\<close>

definition try_acquire_session :: "server_state \<Rightarrow> bool \<times> server_state" where
  "try_acquire_session st =
     (let cur = st_active_sessions st in
      if cur \<ge> of_nat (st_max_sessions st) then (False, st)
      else (True, st\<lparr>st_active_sessions := cur + 1\<rparr>))"

definition release_session :: "server_state \<Rightarrow> server_state" where
  "release_session st = st\<lparr>st_active_sessions := st_active_sessions st - 1\<rparr>"

definition nonce_key :: "string \<Rightarrow> u64 \<Rightarrow> bytes \<Rightarrow> string" where
  "nonce_key uid ts nonce = uid @ ''|'' @ show_dec (unat ts) @ ''|'' @ hex nonce"

definition check_and_remember_nonce ::
  "u64 \<Rightarrow> server_state \<Rightarrow> string \<Rightarrow> bytes \<Rightarrow> u64 \<Rightarrow> bool \<times> server_state" where
  "check_and_remember_nonce now st uid nonce ts =
     (let key = nonce_key uid ts nonce in
      if dm_contains (st_seen_nonces st) key then (False, st)
      else
        let cutoff = saturating_sub now (2 * AUTH_WINDOW);
            st1 = st\<lparr>st_seen_nonces := dm_retain (\<lambda>_ v. v > cutoff) (st_seen_nonces st)\<rparr>
        in if length (st_seen_nonces st1) \<ge> NONCE_CAP then (False, st1)
           else (True, st1\<lparr>st_seen_nonces := AList.update key ts (st_seen_nonces st1)\<rparr>))"

section \<open>The reaper\<close>

text \<open>
  Dropping the session \<open>sid\<close> of the connection \<open>cid\<close> and releasing its quota when a handle was
  removed: the pattern every teardown path of the server uses.
\<close>

definition drop_and_release :: "server_state \<Rightarrow> u64 \<Rightarrow> u32 \<Rightarrow> server_state \<times> token list" where
  "drop_and_release st cid sid =
     (case map_of (st_heap st) cid of
        None \<Rightarrow> (st, [])
      | Some c \<Rightarrow>
          let (removed, c', ts) = drop_session c sid;
              st1 = st\<lparr>st_heap := AList.update cid c' (st_heap st)\<rparr>
          in (if removed then release_session st1 else st1, ts))"

fun drop_all :: "server_state \<Rightarrow> u64 \<Rightarrow> u32 list \<Rightarrow> server_state \<times> token list" where
  "drop_all st cid [] = (st, [])"
| "drop_all st cid (sid # sids) =
     (let (st1, ts) = drop_and_release st cid sid; (st2, us) = drop_all st1 cid sids in (st2, ts @ us))"

text \<open>One iteration of the loop over the connections: the state, the tokens cancelled, and whether
  the connection goes to \<open>dead_conns\<close>.\<close>

definition reap_conn :: "millis \<Rightarrow> server_state \<Rightarrow> u64 \<Rightarrow> server_state \<times> token list \<times> bool" where
  "reap_conn now st cid =
     (case map_of (st_heap st) cid of
        None \<Rightarrow> (st, [], False)
      | Some c \<Rightarrow>
          let expired = map fst (filter (\<lambda>(sid, h). handle_idle_for now h > st_idle st) (cs_sessions c));
              (st1, ts) = drop_all st cid expired
          in (case map_of (st_heap st1) cid of
                None \<Rightarrow> (st1, ts, False)
              | Some c1 \<Rightarrow>
                  if cs_sessions c1 = [] \<and> conn_idle_for now c1 > st_idle st * 3
                  then (st1, ts @ [cs_cancel c1], True) else (st1, ts, False)))"

fun reap_conns :: "millis \<Rightarrow> server_state \<Rightarrow> u64 list \<Rightarrow> server_state \<times> token list \<times> u64 list" where
  "reap_conns now st [] = (st, [], [])"
| "reap_conns now st (cid # cids) =
     (let (st1, ts, dead) = reap_conn now st cid;
          (st2, us, ds) = reap_conns now st1 cids
      in (st2, ts @ us, if dead then cid # ds else ds))"

definition reap_idle :: "millis \<Rightarrow> server_state \<Rightarrow> server_state \<times> token list" where
  "reap_idle now st =
     (let (st1, ts, dead_conns) = reap_conns now st (st_conns st) in
      (st1\<lparr>st_conns := filter (\<lambda>id. id \<notin> set dead_conns) (st_conns st1)\<rparr>, ts))"

definition sweep_conns :: "(token \<Rightarrow> bool) \<Rightarrow> server_state \<Rightarrow> server_state" where
  "sweep_conns is_cancelled st =
     st\<lparr>st_conns := filter (\<lambda>id. case map_of (st_heap st) id of
         Some c \<Rightarrow> \<not> is_cancelled (cs_cancel c) | None \<Rightarrow> True) (st_conns st)\<rparr>"

section \<open>Abstract view\<close>

definition conn_ok :: "conn_state \<Rightarrow> bool" where
  "conn_ok c \<longleftrightarrow> dm_ok (cs_sessions c) \<and> dm_ok (cs_tcp_routes c) \<and> dm_ok (cs_udp_routes c)"

text \<open>The sessions registered on all connections, listed or not.\<close>

definition registered :: "server_state \<Rightarrow> nat" where
  "registered st = sum_list (map (session_count \<circ> snd) (st_heap st))"

definition heap_ok :: "server_state \<Rightarrow> bool" where
  "heap_ok st \<longleftrightarrow> dm_ok (st_heap st) \<and> dm_all conn_ok (st_heap st) \<and> st_max_sessions st < 2 ^ 64"

definition quota_ok :: "server_state \<Rightarrow> bool" where
  "quota_ok st \<longleftrightarrow>
     heap_ok st \<and> unat (st_active_sessions st) = registered st \<and> registered st \<le> st_max_sessions st"

text \<open>What is left of a connection when the sessions in \<open>S\<close> are dropped.\<close>

definition conn_without :: "u32 set \<Rightarrow> conn_state \<Rightarrow> conn_state" where
  "conn_without S c =
     c\<lparr>cs_sessions := filter (\<lambda>p. fst p \<notin> S) (cs_sessions c),
       cs_tcp_routes := filter (\<lambda>p. fst p \<notin> S) (cs_tcp_routes c),
       cs_udp_routes := filter (\<lambda>p. fst p \<notin> S) (cs_udp_routes c)\<rparr>"

definition expired_sids :: "millis \<Rightarrow> server_state \<Rightarrow> conn_state \<Rightarrow> u32 set" where
  "expired_sids now st c = {sid. \<exists>h. (sid, h) \<in> set (cs_sessions c) \<and> handle_idle_for now h > st_idle st}"

definition reaped :: "millis \<Rightarrow> server_state \<Rightarrow> conn_state \<Rightarrow> conn_state" where
  "reaped now st c = conn_without (expired_sids now st c) c"

definition dead_after_reap :: "millis \<Rightarrow> server_state \<Rightarrow> u64 \<Rightarrow> bool" where
  "dead_after_reap now st cid \<longleftrightarrow>
     (\<exists>c. map_of (st_heap st) cid = Some c \<and> cs_sessions (reaped now st c) = [] \<and>
          conn_idle_for now c > 3 * st_idle st)"

text \<open>Successive calls of the replay cache: clock, user, nonce and time stamp of each.\<close>

fun remember_run :: "server_state \<Rightarrow> (u64 \<times> string \<times> bytes \<times> u64) list \<Rightarrow> bool list" where
  "remember_run st [] = []"
| "remember_run st ((now, uid, nonce, ts) # rs) =
     (let (ok, st') = check_and_remember_nonce now st uid nonce ts in ok # remember_run st' rs)"

inductive cache_step :: "server_state \<Rightarrow> server_state \<Rightarrow> bool" where
  nonce: "cache_step st (snd (check_and_remember_nonce now st uid nonce ts))"
| dns: "cache_step st (udp_dns_store st key addr now)"

definition caches_bounded :: "server_state \<Rightarrow> bool" where
  "caches_bounded st \<longleftrightarrow>
     length (st_seen_nonces st) \<le> NONCE_CAP \<and> length (st_udp_dns st) \<le> UDP_DNS_CACHE_CAP"

definition demo_conn :: conn_state where
  "demo_conn = \<lparr>cs_id = 1, cs_uid = ''alice'', cs_cipher = frame_cipher_new [5],
     cs_stream_counters = counter_stream_server, cs_cancel = 100,
     cs_sessions = [(7, \<lparr>sh_cancel = 107, sh_last_active = 0\<rparr>), (8, \<lparr>sh_cancel = 108, sh_last_active = 9000\<rparr>)],
     cs_tcp_routes = [(7, \<lparr>tr_queue = [], tr_closed = False\<rparr>)], cs_udp_routes = [],
     cs_max_per_conn = 64, cs_last_active = 9000, cs_limit = MAX_PLAINTEXT\<rparr>"

definition demo_server :: server_state where
  "demo_server = \<lparr>st_static_keys = [(''alice'', [5])], st_heap = [(1, demo_conn)], st_conns = [1],
     st_conn_seq = 2, st_active_sessions = 2, st_max_sessions = 10, st_rates = [], st_idle = 5000,
     st_allow_private_targets = False, st_seen_nonces = [], st_max_plaintext = 65536, st_udp_dns = [],
     st_udp_dns_ttl = 3600000\<rparr>"

section \<open>Lemmas: dropping sessions\<close>

lemma filter_absent: "k \<notin> fst ` set m \<Longrightarrow> filter (\<lambda>p. fst p \<noteq> k) m = m"
  by (induction m) auto

lemma drop_session_eq:
  assumes "drop_session c sid = (removed, c', ts)"
  shows "c' = conn_without {sid} c" "removed \<longleftrightarrow> sid \<in> fst ` set (cs_sessions c)"
    "\<And>h. map_of (cs_sessions c) sid = Some h \<Longrightarrow> sh_cancel h \<in> set ts"
    "\<And>r. map_of (cs_udp_routes c) sid = Some r \<Longrightarrow> ur_cancel r \<in> set ts"
  using assms
  by (auto simp: drop_session_def conn_without_def Let_def dm_delete_filter map_of_eq_None_iff
      filter_absent intro!: conn_state.equality split: option.splits)
    (auto simp: map_of_eq_None_iff dest: map_of_SomeD intro: rev_image_eqI)

lemma conn_without_ok [simp]: "conn_ok c \<Longrightarrow> conn_ok (conn_without S c)"
  by (simp add: conn_ok_def conn_without_def distinct_map_filter)

lemma conn_without_comp [simp]: "conn_without S (conn_without T c) = conn_without (S \<union> T) c"
  by (simp add: conn_without_def conj_commute)

lemma conn_without_empty [simp]: "conn_without {} c = c"
  by (simp add: conn_without_def)

lemma length_without:
  "dm_ok m \<Longrightarrow> length (filter (\<lambda>p. fst p \<noteq> k) m) + (if k \<in> fst ` set m then 1 else 0) = length m"
  using length_dm_delete [of m k] by (cases m) (auto simp: dm_delete_filter)

lemma session_count_without:
  assumes "conn_ok c"
  shows "session_count (conn_without {sid} c) + (if sid \<in> fst ` set (cs_sessions c) then 1 else 0) = session_count c"
  using assms length_without [of "cs_sessions c" sid]
  by (simp add: session_count_def conn_without_def conn_ok_def)

lemma registered_update:
  assumes "map_of (st_heap st) cid = Some c" "st_heap st' = AList.update cid c' (st_heap st)"
  shows "registered st' + session_count c = registered st + session_count c'"
  using sum_dm_update [OF assms(1), of session_count c'] assms(2) by (simp add: registered_def)

lemma heap_ok_update:
  assumes "heap_ok st" "conn_ok c'" "st_heap st' = AList.update cid c' (st_heap st)"
    "st_max_sessions st' = st_max_sessions st"
  shows "heap_ok st'"
  using assms by (simp add: heap_ok_def dm_update_all)

lemma heap_conn_ok: "heap_ok st \<Longrightarrow> map_of (st_heap st) cid = Some c \<Longrightarrow> conn_ok c"
  unfolding heap_ok_def by (blast intro: dm_all_map_of)

lemma drop_and_release_heap:
  assumes "drop_and_release st cid sid = (st', ts)" "map_of (st_heap st) cid = Some c"
  shows "st_heap st' = AList.update cid (conn_without {sid} c) (st_heap st)"
    and "st_active_sessions st' =
      (if sid \<in> fst ` set (cs_sessions c) then st_active_sessions st - 1 else st_active_sessions st)"
    and "st' = st\<lparr>st_heap := st_heap st', st_active_sessions := st_active_sessions st'\<rparr>"
  using assms drop_session_eq(1,2) [of c sid]
  by (auto simp: drop_and_release_def release_session_def split_def Let_def prod_eq_iff split: if_splits)

lemma drop_and_release_quota:
  assumes "quota_ok st" "drop_and_release st cid sid = (st', ts)"
  shows "quota_ok st'"
proof (cases "map_of (st_heap st) cid")
  case None
  then show ?thesis using assms by (simp add: drop_and_release_def)
next
  case (Some c)
  note h = drop_and_release_heap [OF assms(2) Some]
  have ok: "conn_ok c" "heap_ok st" using assms(1) Some heap_conn_ok by (auto simp: quota_ok_def)
  have mx: "st_max_sessions st' = st_max_sessions st" by (subst h(3)) simp
  have hp: "heap_ok st'" using heap_ok_update [OF ok(2) _ h(1) mx] ok(1) by simp
  have reg: "registered st' + (if sid \<in> fst ` set (cs_sessions c) then 1 else 0) = registered st"
    using registered_update [OF Some h(1)] session_count_without [OF ok(1), of sid] by linarith
  have "unat (st_active_sessions st') = registered st'"
  proof (cases "sid \<in> fst ` set (cs_sessions c)")
    case True
    then have "st_active_sessions st \<noteq> 0" using reg assms(1) by (auto simp: quota_ok_def unat_eq_0)
    then show ?thesis using True reg assms(1) h(2) by (simp add: quota_ok_def unat_dec)
  qed (use reg assms(1) h(2) in \<open>simp add: quota_ok_def\<close>)
  then show ?thesis using hp reg assms(1) mx by (auto simp: quota_ok_def split: if_splits)
qed

section \<open>The reaper\<close>

lemma drop_all_effect:
  assumes "drop_all st cid sids = (st', ts)" "map_of (st_heap st) cid = Some c"
  shows "map_of (st_heap st') = (map_of (st_heap st))(cid \<mapsto> conn_without (set sids) c) \<and>
         st_idle st' = st_idle st \<and> st_conns st' = st_conns st \<and> (quota_ok st \<longrightarrow> quota_ok st')"
  using assms
proof (induction sids arbitrary: st c st' ts)
  case Nil
  then show ?case by (auto simp: fun_upd_idem)
next
  case (Cons sid sids)
  obtain st1 ts1 us where d: "drop_and_release st cid sid = (st1, ts1)" "drop_all st1 cid sids = (st', us)"
    using Cons.prems(1) by (auto simp: Let_def split: prod.splits)
  note h = drop_and_release_heap [OF d(1) Cons.prems(2)]
  have m: "map_of (st_heap st1) cid = Some (conn_without {sid} c)"
    using h(1) by (simp add: update_conv')
  have "st_idle st1 = st_idle st" "st_conns st1 = st_conns st"
    by (subst h(3), simp)+
  moreover have "set sids \<union> {sid} = set (sid # sids)" by auto
  ultimately show ?case
    using Cons.IH [OF d(2) m] h(1) drop_and_release_quota [OF _ d(1)]
    by (simp add: update_conv' fun_eq_iff)
qed

lemma reap_conn_effect:
  assumes "reap_conn now st cid = (st', ts, dead)"
  shows "map_of (st_heap st') =
      (case map_of (st_heap st) cid of None \<Rightarrow> map_of (st_heap st)
       | Some c \<Rightarrow> (map_of (st_heap st))(cid \<mapsto> reaped now st c)) \<and>
      dead = dead_after_reap now st cid \<and>
      st_idle st' = st_idle st \<and> st_conns st' = st_conns st \<and> (quota_ok st \<longrightarrow> quota_ok st')"
proof (cases "map_of (st_heap st) cid")
  case None
  then show ?thesis using assms by (auto simp: reap_conn_def dead_after_reap_def)
next
  case (Some c)
  let ?sids = "map fst (filter (\<lambda>(sid, h). handle_idle_for now h > st_idle st) (cs_sessions c))"
  obtain st1 ts1 where d: "drop_all st cid ?sids = (st1, ts1)" by fastforce
  have "set ?sids = expired_sids now st c"
    by (force simp: expired_sids_def)
  then have e: "map_of (st_heap st1) = (map_of (st_heap st))(cid \<mapsto> reaped now st c)"
      "st_idle st1 = st_idle st" "st_conns st1 = st_conns st" "quota_ok st \<longrightarrow> quota_ok st1"
    using drop_all_effect [OF d Some] by (auto simp: reaped_def)
  have "conn_idle_for now (reaped now st c) = conn_idle_for now c"
    by (simp add: reaped_def conn_without_def conn_idle_for_def)
  then show ?thesis
    using assms Some d e
    by (auto simp: reap_conn_def Let_def dead_after_reap_def mult.commute split: if_splits)
qed

lemma reap_conns_effect:
  assumes "reap_conns now st cids = (st', ts, dead)" "distinct cids"
  shows "(\<forall>cid. map_of (st_heap st') cid =
            (if cid \<in> set cids then map_option (reaped now st) (map_of (st_heap st) cid)
             else map_of (st_heap st) cid)) \<and>
         dead = filter (dead_after_reap now st) cids \<and>
         st_idle st' = st_idle st \<and> st_conns st' = st_conns st \<and> (quota_ok st \<longrightarrow> quota_ok st')"
  using assms
proof (induction cids arbitrary: st st' ts dead)
  case (Cons cid cids)
  obtain st1 ts1 d1 us ds where r: "reap_conn now st cid = (st1, ts1, d1)"
    "reap_conns now st1 cids = (st', us, ds)" and dead: "dead = (if d1 then cid # ds else ds)"
    using Cons.prems(1) by (auto simp: Let_def split: prod.splits)
  note e = reap_conn_effect [OF r(1)]
  have idle: "st_idle st1 = st_idle st" using e by simp
  then have rp: "reaped now st1 = reaped now st"
    by (auto simp: reaped_def expired_sids_def fun_eq_iff)
  have "dead_after_reap now st1 k = dead_after_reap now st k" if "k \<noteq> cid" for k
    using that e idle rp by (auto simp: dead_after_reap_def split: option.splits)
  moreover have "cid \<notin> set cids" "distinct cids" using Cons.prems(2) by auto
  ultimately have "\<forall>k\<in>set cids. dead_after_reap now st1 k = dead_after_reap now st k" by metis
  then have "filter (dead_after_reap now st1) cids = filter (dead_after_reap now st) cids"
    by (simp cong: filter_cong)
  then show ?case
    using Cons.IH [OF r(2) \<open>distinct cids\<close>] e rp dead \<open>cid \<notin> set cids\<close>
    by (auto split: option.splits)
qed simp

text \<open>
  C30. The reaper. It drops exactly the sessions that were idle longer than the configured time,
  with their routes, on every listed connection; it unlists exactly the connections that have no
  session left and were idle for more than three times that long; and it keeps the session quota
  exact: the global counter is again the number of registered sessions.
\<close>

theorem reap_idle_exact:
  assumes "quota_ok st" "distinct (st_conns st)" "reap_idle now st = (st', ts)"
  shows "quota_ok st' \<and>
    st_conns st' = filter (\<lambda>cid. \<not> dead_after_reap now st cid) (st_conns st) \<and>
    (\<forall>cid. map_of (st_heap st') cid =
       (if cid \<in> set (st_conns st)
        then map_option (\<lambda>c. conn_without (expired_sids now st c) c) (map_of (st_heap st) cid)
        else map_of (st_heap st) cid))"
proof -
  obtain st1 ts1 dead where r: "reap_conns now st (st_conns st) = (st1, ts1, dead)"
    by (cases "reap_conns now st (st_conns st)") auto
  note e = reap_conns_effect [OF r assms(2)]
  have st': "st' = st1\<lparr>st_conns := filter (\<lambda>id. id \<notin> set dead) (st_conns st1)\<rparr>"
    using assms(3) r by (simp add: reap_idle_def)
  have "quota_ok st'"
    using e assms(1) by (simp add: st' quota_ok_def heap_ok_def registered_def)
  moreover have "filter (\<lambda>id. id \<notin> set dead) (st_conns st) = filter (\<lambda>cid. \<not> dead_after_reap now st cid) (st_conns st)"
    using e by (intro filter_cong) auto
  moreover have "reaped now st = (\<lambda>c. conn_without (expired_sids now st c) c)"
    by (simp add: fun_eq_iff reaped_def)
  ultimately show ?thesis
    using e by (simp add: st')
qed

lemma demo_quota_ok: "quota_ok demo_server"
  by (simp add: quota_ok_def heap_ok_def dm_all_def conn_ok_def registered_def session_count_def
      demo_server_def demo_conn_def)

theorem reap_idle_exact_witness:
  "quota_ok (fst (reap_idle 10000 demo_server)) \<and>
   map_of (st_heap (fst (reap_idle 10000 demo_server))) 1 =
     Some (conn_without (expired_sids 10000 demo_server demo_conn) demo_conn)"
proof -
  obtain st' ts where r: "reap_idle 10000 demo_server = (st', ts)" by fastforce
  have "distinct (st_conns demo_server)" by (simp add: demo_server_def)
  from reap_idle_exact [OF demo_quota_ok this r] show ?thesis
    by (simp add: r) (simp add: demo_server_def)
qed

section \<open>Caches\<close>

lemma nonce_key_inj:
  "nonce_key u t n = nonce_key u' t' n' \<longleftrightarrow> u = u' \<and> t = t' \<and> n = n'"
proof -
  let ?b = "CHR ''|''"
  have h: "?b \<notin> set (hex n)" "?b \<notin> set (hex n')" by (rule hex_no_sep; simp)+
  have k: "nonce_key u t n = (u @ ?b # show_dec (unat t)) @ ?b # hex n" for u t n
    by (simp add: nonce_key_def)
  show ?thesis
    unfolding k append_sep_inj [OF h] append_sep_inj [OF show_dec_no_sep(2) show_dec_no_sep(2)]
    by (auto intro: unsigned_word_eqI)
qed

lemma length_dm_retain: "length (dm_retain P m) \<le> length m"
  by (simp add: dm_retain_def)

lemma length_dm_update: "length (AList.update k v m) \<le> Suc (length m)"
  by (induction m) auto

lemma nonce_accept_iff:
  "fst (check_and_remember_nonce now st uid nonce ts) \<longleftrightarrow>
     \<not> dm_contains (st_seen_nonces st) (nonce_key uid ts nonce) \<and>
     length (dm_retain (\<lambda>_ v. v > saturating_sub now (2 * AUTH_WINDOW)) (st_seen_nonces st)) < NONCE_CAP"
  by (auto simp: check_and_remember_nonce_def Let_def)

lemma nonce_remembered:
  assumes "fst (check_and_remember_nonce now st uid nonce ts)"
  shows "map_of (st_seen_nonces (snd (check_and_remember_nonce now st uid nonce ts))) (nonce_key uid ts nonce) = Some ts"
  using assms by (auto simp: check_and_remember_nonce_def Let_def update_conv' split: if_splits)

text \<open>An entry survives a call while the clock is less than two windows past its time stamp.\<close>

lemma above_cutoff:
  assumes "ts \<noteq> 0" "unat now < unat ts + 2 * unat AUTH_WINDOW"
  shows "saturating_sub now (2 * AUTH_WINDOW) < (ts :: u64)"
  using assms by (auto simp: saturating_sub_def word_less_nat_alt unat_sub_if' AUTH_WINDOW_def unat_gt_0)

lemma nonce_kept:
  assumes "dm_ok (st_seen_nonces st)" "map_of (st_seen_nonces st) k = Some ts" "ts \<noteq> 0"
    and "unat now < unat ts + 2 * unat AUTH_WINDOW"
  shows "map_of (st_seen_nonces (snd (check_and_remember_nonce now st uid nonce t))) k = Some ts"
    and "dm_ok (st_seen_nonces (snd (check_and_remember_nonce now st uid nonce t)))"
proof -
  have "k \<in> fst ` set (st_seen_nonces st)"
    using assms(2) by (metis map_of_eq_None_iff option.discI)
  then show "map_of (st_seen_nonces (snd (check_and_remember_nonce now st uid nonce t))) k = Some ts"
    using assms above_cutoff [OF assms(3,4)]
    by (cases "nonce_key uid t nonce = k")
       (auto simp: check_and_remember_nonce_def Let_def update_conv' map_of_dm_retain
        simp del: map_of_eq_Some_iff)
  show "dm_ok (st_seen_nonces (snd (check_and_remember_nonce now st uid nonce t)))"
    using assms(1) by (auto simp: check_and_remember_nonce_def Let_def)
qed

lemma remember_run_rejects:
  assumes "dm_ok (st_seen_nonces st)" "map_of (st_seen_nonces st) (nonce_key uid ts nonce) = Some ts"
    and "ts \<noteq> 0" "\<forall>r\<in>set rs. unat (fst r) < unat ts + 2 * unat AUTH_WINDOW"
  shows "\<not> last (remember_run st (rs @ [(now, uid, nonce, ts)]))"
  using assms(1,2,4)
proof (induction rs arbitrary: st)
  case Nil
  then have "dm_contains (st_seen_nonces st) (nonce_key uid ts nonce)"
    by (simp add: dm_contains_def del: dm_contains_iff)
  then have "\<not> fst (check_and_remember_nonce now st uid nonce ts)"
    by (simp add: nonce_accept_iff del: dm_contains_iff)
  then show ?case by (simp add: split_def Let_def)
next
  case (Cons r rs)
  obtain n u nc t where r: "r = (n, u, nc, t)" by (cases r) auto
  let ?st = "snd (check_and_remember_nonce n st u nc t)"
  have "unat n < unat ts + 2 * unat AUTH_WINDOW" using Cons.prems(3) r by simp
  from nonce_kept [OF Cons.prems(1,2) assms(3) this]
  have "\<not> last (remember_run ?st (rs @ [(now, uid, nonce, ts)]))"
    using Cons.IH Cons.prems(3) by simp
  moreover have "remember_run ?st (rs @ [(now, uid, nonce, ts)]) \<noteq> []"
    by (cases "rs @ [(now, uid, nonce, ts)]") (auto simp: split_def Let_def)
  ultimately show ?case by (simp add: r split_def Let_def)
qed

lemma udp_dns_store_bound:
  "length (st_udp_dns st) \<le> UDP_DNS_CACHE_CAP \<Longrightarrow>
   length (st_udp_dns (udp_dns_store st key addr now)) \<le> UDP_DNS_CACHE_CAP"
  using length_dm_update [of key "(addr, now)" "st_udp_dns st"]
    length_dm_update [of key "(addr, now)" "dm_retain (\<lambda>_ (_, at). now - at \<le> st_udp_dns_ttl st) (st_udp_dns st)"]
    length_dm_retain [of "\<lambda>_ (_, at). now - at \<le> st_udp_dns_ttl st" "st_udp_dns st"]
  by (auto simp: udp_dns_store_def Let_def)

lemma nonce_bound:
  "length (st_seen_nonces st) \<le> NONCE_CAP \<Longrightarrow>
   length (st_seen_nonces (snd (check_and_remember_nonce now st uid nonce ts))) \<le> NONCE_CAP"
  using length_dm_update [of "nonce_key uid ts nonce" ts
      "dm_retain (\<lambda>_ v. v > saturating_sub now (2 * AUTH_WINDOW)) (st_seen_nonces st)"]
    length_dm_retain [of "\<lambda>_ v. v > saturating_sub now (2 * AUTH_WINDOW)" "st_seen_nonces st"]
  by (auto simp: check_and_remember_nonce_def Let_def)

interpretation caches: invariant_system
  "\<lambda>st. st_seen_nonces st = [] \<and> st_udp_dns st = []" cache_step caches_bounded
proof
  fix st st' :: server_state
  assume inv: "caches_bounded st" and "cache_step st st'"
  from this(2) show "caches_bounded st'"
  proof cases
    case (nonce now uid nonce ts)
    moreover have "st_udp_dns (snd (check_and_remember_nonce now st uid nonce ts)) = st_udp_dns st"
      by (simp add: check_and_remember_nonce_def Let_def)
    ultimately show ?thesis using inv nonce_bound by (simp add: caches_bounded_def)
  next
    case (dns key addr now)
    moreover have "st_seen_nonces (udp_dns_store st key addr now) = st_seen_nonces st"
      by (simp add: udp_dns_store_def Let_def)
    ultimately show ?thesis using inv udp_dns_store_bound by (simp add: caches_bounded_def)
  qed
qed (simp add: caches_bounded_def)

text \<open>
  Neither of the two tables that remote peers can grow exceeds its cap: whatever authentication
  attempts and name lookups occur, in any order and at any times, the replay cache holds at most
  50000 nonces and the UDP name cache at most 4096 names.
\<close>

theorem server_caches_bounded:
  assumes "cache_step\<^sup>*\<^sup>* st st'" "st_seen_nonces st = []" "st_udp_dns st = []"
  shows "length (st_seen_nonces st') \<le> NONCE_CAP \<and> length (st_udp_dns st') \<le> UDP_DNS_CACHE_CAP"
  using caches.reachable_inv [OF _ assms(1)] assms(2,3) by (simp add: caches_bounded_def)

theorem server_caches_bounded_witness:
  "length (st_seen_nonces (snd (check_and_remember_nonce 1000 demo_server ''bob'' [1] 990))) \<le> NONCE_CAP"
proof -
  have "cache_step\<^sup>*\<^sup>* demo_server (snd (check_and_remember_nonce 1000 demo_server ''bob'' [1] 990))"
    by (intro r_into_rtranclp cache_step.nonce)
  from server_caches_bounded [OF this] show ?thesis by (simp add: demo_server_def)
qed

text \<open>A name that was stored is found again until its time to live has passed.\<close>

lemma udp_dns_store_cached:
  assumes "st_udp_dns_ttl st \<noteq> 0" "length (st_udp_dns st) < UDP_DNS_CACHE_CAP"
  shows "udp_dns_cached (udp_dns_store st key addr now) key now' =
           (if now' - now \<le> st_udp_dns_ttl st then Some addr else None)"
  using assms by (simp add: udp_dns_cached_def udp_dns_store_def Let_def update_conv')

end
