(* ===== verification/Text.thy ===== *)
theory Text
  imports Prelude
begin

text \<open>
  The part of Rust's string library that the textual components (configuration, dates, HTTP, health)
  use beyond the prelude: trimming of Unicode white space, lines, substring search and ASCII
  case folding, on strings of UTF-8 bytes.
\<close>

section \<open>White space\<close>

text \<open>The length of the white-space character a string begins with, 0 when it begins with none.\<close>

fun ws_code :: "nat list \<Rightarrow> nat" where
  "ws_code (a # b # c # r) =
     (if (9 \<le> a \<and> a \<le> 13) \<or> a = 32 then 1
      else if a = 0xC2 \<and> (b = 0x85 \<or> b = 0xA0) then 2
      else if a = 0xE1 \<and> b = 0x9A \<and> c = 0x80 then 3
      else if a = 0xE2 \<and> b = 0x80 \<and> ((0x80 \<le> c \<and> c \<le> 0x8A) \<or> c = 0xA8 \<or> c = 0xA9 \<or> c = 0xAF) then 3
      else if a = 0xE2 \<and> b = 0x81 \<and> c = 0x9F then 3
      else if a = 0xE3 \<and> b = 0x80 \<and> c = 0x80 then 3
      else 0)"
| "ws_code [a, b] =
     (if (9 \<le> a \<and> a \<le> 13) \<or> a = 32 then 1 else if a = 0xC2 \<and> (b = 0x85 \<or> b = 0xA0) then 2 else 0)"
| "ws_code [a] = (if (9 \<le> a \<and> a \<le> 13) \<or> a = 32 then 1 else 0)"
| "ws_code [] = 0"

definition ws_len :: "string \<Rightarrow> nat" where
  "ws_len s = ws_code (map of_char (take 3 s))"

definition ws_suffix :: "string \<Rightarrow> nat" where
  "ws_suffix s =
     (let n = length s in
      if n \<ge> 1 \<and> ws_len (drop (n - 1) s) = 1 then 1
      else if n \<ge> 2 \<and> ws_len (drop (n - 2) s) = 2 then 2
      else if n \<ge> 3 \<and> ws_len (drop (n - 3) s) = 3 then 3
      else 0)"

lemma ws_len_empty [simp]: "ws_len [] = 0"
  by (simp add: ws_len_def)

lemma ws_suffix_empty [simp]: "ws_suffix [] = 0"
  by (simp add: ws_suffix_def)

function trim_start :: "string \<Rightarrow> string" where
  "trim_start s = (if ws_len s = 0 then s else trim_start (drop (ws_len s) s))"
  by pat_completeness auto

termination trim_start
  by (relation "measure length") (auto simp: neq_Nil_conv intro!: diff_less Nat.gr0I)

function trim_end :: "string \<Rightarrow> string" where
  "trim_end s = (if ws_suffix s = 0 then s else trim_end (take (length s - ws_suffix s) s))"
  by pat_completeness auto

termination trim_end
  by (relation "measure length") (auto simp: neq_Nil_conv intro!: diff_less Nat.gr0I)

declare trim_start.simps [simp del] trim_end.simps [simp del]

definition trim :: "string \<Rightarrow> string" where
  "trim s = trim_end (trim_start s)"

section \<open>Lines and substrings\<close>

definition newline :: char where "newline = char_of (10 :: nat)"
definition carriage_return :: char where "carriage_return = char_of (13 :: nat)"

definition strip_cr :: "string \<Rightarrow> string" where
  "strip_cr s = (if s \<noteq> [] \<and> last s = carriage_return then butlast s else s)"

definition lines :: "string \<Rightarrow> string list" where
  "lines t =
     (let segs = split_on newline t in
      map strip_cr (butlast segs) @ (if last segs = [] then [] else [last segs]))"

fun contains_str :: "string \<Rightarrow> string \<Rightarrow> bool" where
  "contains_str p [] = (p = [])"
| "contains_str p (c # cs) = (starts_with p (c # cs) \<or> contains_str p cs)"

text \<open>\<open>str::find\<close> of a character and of a string\<close>

fun find_char :: "char \<Rightarrow> string \<Rightarrow> nat option" where
  "find_char c [] = None"
| "find_char c (x # xs) = (if x = c then Some 0 else map_option Suc (find_char c xs))"

fun find_str :: "string \<Rightarrow> string \<Rightarrow> nat option" where
  "find_str p [] = (if p = [] then Some 0 else None)"
| "find_str p (c # cs) = (if starts_with p (c # cs) then Some 0 else map_option Suc (find_str p cs))"

definition ends_with :: "string \<Rightarrow> string \<Rightarrow> bool" where
  "ends_with p s \<longleftrightarrow> length p \<le> length s \<and> drop (length s - length p) s = p"

definition strip_suffix :: "string \<Rightarrow> string \<Rightarrow> string option" where
  "strip_suffix p s = (if ends_with p s then Some (take (length s - length p) s) else None)"

section \<open>Case\<close>

definition lower_char :: "char \<Rightarrow> char" where
  "lower_char c = (let n = of_char c :: nat in if 65 \<le> n \<and> n \<le> 90 then char_of (n + 32) else c)"

definition to_ascii_lowercase :: "string \<Rightarrow> string" where
  "to_ascii_lowercase s = map lower_char s"

definition eq_ignore_ascii_case :: "string \<Rightarrow> string \<Rightarrow> bool" where
  "eq_ignore_ascii_case s t \<longleftrightarrow> to_ascii_lowercase s = to_ascii_lowercase t"

section \<open>Lemmas\<close>

lemma trim_id: "ws_len s = 0 \<Longrightarrow> ws_suffix s = 0 \<Longrightarrow> trim s = s"
  by (simp add: trim_def trim_start.simps [of s] trim_end.simps [of s])

lemma trim_start_ws_len: "ws_len (trim_start s) = 0"
  by (induction s rule: trim_start.induct) (simp add: trim_start.simps)

lemma trim_end_ws_suffix: "ws_suffix (trim_end s) = 0"
  by (induction s rule: trim_end.induct) (simp add: trim_end.simps)

lemma trim_nil [simp]: "trim [] = []"
  by (rule trim_id) simp_all

text \<open>Printable ASCII characters begin and end no white space.\<close>

definition graphic :: "char \<Rightarrow> bool" where
  "graphic c \<longleftrightarrow> 33 \<le> (of_char c :: nat) \<and> (of_char c :: nat) < 127"

lemma ws_code_graphic: "33 \<le> a \<Longrightarrow> a < 127 \<Longrightarrow> ws_code (a # r) = 0"
  by (cases "a # r" rule: ws_code.cases) auto

lemma ws_len_graphic: "graphic c \<Longrightarrow> ws_len (c # s) = 0"
  by (simp add: ws_len_def graphic_def ws_code_graphic)

lemma ws_code_last:
  "ws_code [a, b] = 2 \<Longrightarrow> b \<ge> 127" "ws_code [a, b, c] = 3 \<Longrightarrow> c \<ge> 127"
  by (auto split: if_splits)

lemma ws_suffix_graphic:
  assumes "graphic c"
  shows "ws_suffix (s @ [c]) = 0"
proof -
  have c: "(of_char c :: nat) < 127" using assms by (simp add: graphic_def)
  have "ws_len (drop (length (s @ [c]) - 1) (s @ [c])) = 0" using ws_len_graphic [OF assms, of "[]"] by simp
  moreover have "ws_len (drop (length (s @ [c]) - 2) (s @ [c])) \<noteq> 2" if n: "2 \<le> length (s @ [c])"
  proof -
    obtain t x where "s = t @ [x]" using n by (cases s rule: rev_cases) auto
    then show ?thesis using ws_code_last(1) [of "of_char x" "of_char c"] c by (auto simp: ws_len_def)
  qed
  moreover have "ws_len (drop (length (s @ [c]) - 3) (s @ [c])) \<noteq> 3" if n: "3 \<le> length (s @ [c])"
  proof -
    obtain t x y where "s = t @ [x, y]"
      using n by (cases s rule: rev_cases; cases "butlast s" rule: rev_cases) auto
    then show ?thesis using ws_code_last(2) [of "of_char x" "of_char y" "of_char c"] c by (auto simp: ws_len_def)
  qed
  ultimately show ?thesis by (auto simp: ws_suffix_def Let_def)
qed

lemma trim_graphic:
  assumes "list_all graphic s"
  shows "trim s = s"
proof (cases s)
  case (Cons a r)
  then obtain t b where tb: "s = t @ [b]" by (metis list.distinct(1) rev_exhaust)
  then have "graphic b" using assms by simp
  then have "ws_suffix s = 0" using ws_suffix_graphic tb by simp
  moreover have "ws_len s = 0" using assms Cons ws_len_graphic by simp
  ultimately show ?thesis by (intro trim_id)
qed simp

lemma starts_with_append [simp]: "starts_with p (p @ s)"
  by (simp add: starts_with_def)

lemma starts_with_iff: "starts_with p s \<longleftrightarrow> (\<exists>r. s = p @ r)"
  by (auto simp: starts_with_def) (metis append_take_drop_id)

lemma lower_idem [simp]: "to_ascii_lowercase (to_ascii_lowercase s) = to_ascii_lowercase s"
proof -
  have "lower_char (lower_char c) = lower_char c" for c
    using of_char_less [of c] by (simp add: lower_char_def Let_def)
  then show ?thesis by (simp add: to_ascii_lowercase_def)
qed

end
