(* ===== verification/Egress.thy ===== *)
theory Egress
  imports Mux Server_State Text
begin

text \<open>
  Model of the egress policy of \<open>src/server/hub.rs\<close>: which addresses the server may contact, how
  targets are resolved, and dialling. The address classes of \<open>std::net\<close> are spelled out. The textual
  address parser, the resolver and the sockets are arguments.
\<close>

section \<open>Octets and segments\<close>

definition octets :: "ipv4 \<Rightarrow> u8 list" where
  "octets ip = map (\<lambda>k. ucast (drop_bit k ip)) [24, 16, 8, 0]"

definition ipv4_new :: "u8 \<Rightarrow> u8 \<Rightarrow> u8 \<Rightarrow> u8 \<Rightarrow> ipv4" where
  "ipv4_new a b c d = from_be_bytes [a, b, c, d]"

definition segments :: "ipv6 \<Rightarrow> u16 list" where
  "segments ip = map (\<lambda>k. ucast (drop_bit k ip)) [112, 96, 80, 64, 48, 32, 16, 0]"

section \<open>Address classes of the standard library\<close>

definition v4_is_unspecified :: "ipv4 \<Rightarrow> bool" where "v4_is_unspecified ip \<longleftrightarrow> ip = 0"
definition v4_is_loopback :: "ipv4 \<Rightarrow> bool" where "v4_is_loopback ip \<longleftrightarrow> octets ip ! 0 = 127"

definition v4_is_private :: "ipv4 \<Rightarrow> bool" where
  "v4_is_private ip \<longleftrightarrow>
     (let q = octets ip in
      q ! 0 = 10 \<or> (q ! 0 = 172 \<and> 16 \<le> q ! 1 \<and> q ! 1 \<le> 31) \<or> (q ! 0 = 192 \<and> q ! 1 = 168))"

definition v4_is_link_local :: "ipv4 \<Rightarrow> bool" where
  "v4_is_link_local ip \<longleftrightarrow> octets ip ! 0 = 169 \<and> octets ip ! 1 = 254"

definition v4_is_multicast :: "ipv4 \<Rightarrow> bool" where
  "v4_is_multicast ip \<longleftrightarrow> 224 \<le> octets ip ! 0 \<and> octets ip ! 0 \<le> 239"

definition v4_is_broadcast :: "ipv4 \<Rightarrow> bool" where "v4_is_broadcast ip \<longleftrightarrow> ip = 0xFFFFFFFF"

definition v6_is_unspecified :: "ipv6 \<Rightarrow> bool" where "v6_is_unspecified ip \<longleftrightarrow> ip = 0"
definition v6_is_loopback :: "ipv6 \<Rightarrow> bool" where "v6_is_loopback ip \<longleftrightarrow> ip = 1"
definition v6_is_multicast :: "ipv6 \<Rightarrow> bool" where
  "v6_is_multicast ip \<longleftrightarrow> segments ip ! 0 AND 0xff00 = 0xff00"

section \<open>The policy\<close>

definition seg_v4 :: "u16 \<Rightarrow> u16 \<Rightarrow> ipv4" where
  "seg_v4 hi lo = ipv4_new (ucast (drop_bit 8 hi)) (ucast hi) (ucast (drop_bit 8 lo)) (ucast lo)"

definition embedded_ipv4 :: "u16 list \<Rightarrow> ipv4 option" where
  "embedded_ipv4 s =
     (if take 5 s = [0, 0, 0, 0, 0] \<and> s ! 5 = 0xffff then Some (seg_v4 (s ! 6) (s ! 7))
      else if take 4 s = [0, 0, 0, 0] \<and> s ! 4 = 0xffff \<and> s ! 5 = 0 then Some (seg_v4 (s ! 6) (s ! 7))
      else if take 6 s = [0, 0, 0, 0, 0, 0] then Some (seg_v4 (s ! 6) (s ! 7))
      else if s ! 0 = 0x0064 \<and> s ! 1 = 0xff9b \<and> slice s 2 6 = [0, 0, 0, 0] then Some (seg_v4 (s ! 6) (s ! 7))
      else if s ! 0 = 0x2002 then Some (seg_v4 (s ! 1) (s ! 2))
      else None)"

definition is_public_v4 :: "ipv4 \<Rightarrow> bool" where
  "is_public_v4 ip \<longleftrightarrow>
     \<not> v4_is_unspecified ip \<and> \<not> v4_is_loopback ip \<and> \<not> v4_is_private ip \<and> \<not> v4_is_link_local ip \<and>
     \<not> v4_is_multicast ip \<and> \<not> v4_is_broadcast ip \<and>
     (let q = octets ip in
      q ! 0 \<noteq> 0 \<and> q ! 0 AND 0xf0 \<noteq> 0xf0 \<and>
      \<not> (q ! 0 = 100 \<and> 64 \<le> q ! 1 \<and> q ! 1 \<le> 127) \<and>
      \<not> (q ! 0 = 192 \<and> q ! 1 = 0 \<and> q ! 2 = 0) \<and>
      \<not> (q ! 0 = 192 \<and> q ! 1 = 0 \<and> q ! 2 = 2) \<and>
      \<not> (q ! 0 = 198 \<and> q ! 1 = 18) \<and> \<not> (q ! 0 = 198 \<and> q ! 1 = 19) \<and>
      \<not> (q ! 0 = 198 \<and> q ! 1 = 51 \<and> q ! 2 = 100) \<and>
      \<not> (q ! 0 = 203 \<and> q ! 1 = 0 \<and> q ! 2 = 113))"

definition is_public_v6 :: "ipv6 \<Rightarrow> bool" where
  "is_public_v6 ip \<longleftrightarrow>
     (let s = segments ip in
      case embedded_ipv4 s of
        Some v4 \<Rightarrow> is_public_v4 v4
      | None \<Rightarrow>
          \<not> v6_is_unspecified ip \<and> \<not> v6_is_loopback ip \<and> \<not> v6_is_multicast ip \<and>
          \<not> (s ! 0 AND 0xfe00 = 0xfc00) \<and> \<not> (s ! 0 AND 0xffc0 = 0xfe80) \<and>
          \<not> (s ! 0 = 0x2001 \<and> s ! 1 = 0x0db8) \<and> \<not> (s ! 0 = 0x2001 \<and> s ! 1 = 0x0000) \<and>
          \<not> (s ! 0 = 0x2001 \<and> (s ! 1 AND 0xfff0 = 0x0010 \<or> s ! 1 AND 0xfff0 = 0x0020)) \<and>
          \<not> (take 4 s = [0x0100, 0, 0, 0]))"

definition is_public_target :: "socket_addr \<Rightarrow> bool" where
  "is_public_target addr = (case sock_ip addr of IpV4 ip \<Rightarrow> is_public_v4 ip | IpV6 ip \<Rightarrow> is_public_v6 ip)"

section \<open>Resolution and dialling\<close>

text \<open>
  What the resolver answers: the addresses of a name, or nothing on an error or a timeout.
\<close>

type_synonym resolver = "string \<Rightarrow> u16 \<Rightarrow> socket_addr list option"

definition sock_new :: "ip_addr \<Rightarrow> u16 \<Rightarrow> socket_addr" where
  "sock_new ip port =
     (case ip of IpV4 a \<Rightarrow> SockV4 (a, port)
      | IpV6 a \<Rightarrow> SockV6 \<lparr>v6_ip = a, v6_port = port, v6_flowinfo = 0, v6_scope = 0\<rparr>)"

definition resolve_target ::
  "(string \<Rightarrow> ip_addr option) \<Rightarrow> resolver \<Rightarrow> string \<Rightarrow> u16 \<Rightarrow> bool \<Rightarrow> open_error + socket_addr list" where
  "resolve_target parse_ip lookup host port allow_private_targets =
     and_then
       (case parse_ip host of
          Some ip \<Rightarrow> Inr [sock_new ip port]
        | None \<Rightarrow> ok_or DialFailed (lookup host port))
       (\<lambda>addrs.
          let addrs' = filter (\<lambda>a. allow_private_targets \<or> is_public_target a) addrs in
          if addrs' = [] then Inl Denied else Inr addrs')"

text \<open>
  The addresses a dial tried, in order, and its result. A connection attempt succeeds, fails, or is
  cut off by the timeout of the whole dial.
\<close>

datatype attempt = Connected | Refused | TimedOut

fun try_connect :: "(socket_addr \<Rightarrow> attempt) \<Rightarrow> socket_addr list \<Rightarrow> socket_addr list \<times> socket_addr option" where
  "try_connect connect [] = ([], None)"
| "try_connect connect (a # as) =
     (case connect a of
        Connected \<Rightarrow> ([a], Some a)
      | TimedOut \<Rightarrow> ([a], None)
      | Refused \<Rightarrow> let (tried, r) = try_connect connect as in (a # tried, r))"

definition dial_target ::
  "(string \<Rightarrow> ip_addr option) \<Rightarrow> resolver \<Rightarrow> (socket_addr \<Rightarrow> attempt) \<Rightarrow> string \<Rightarrow> u16 \<Rightarrow> bool \<Rightarrow>
   socket_addr list \<times> (open_error + socket_addr)" where
  "dial_target parse_ip lookup connect host port allow_private_targets =
     (if host = [] \<or> length host > 255 then ([], Inl BadTarget)
      else (case resolve_target parse_ip lookup host port allow_private_targets of
          Inl e \<Rightarrow> ([], Inl e)
        | Inr addrs \<Rightarrow> let (tried, r) = try_connect connect addrs in (tried, ok_or DialFailed r)))"

definition dns_key :: "string \<Rightarrow> u16 \<Rightarrow> string" where
  "dns_key host port = to_ascii_lowercase host @ '':'' @ show_dec (unat port)"

definition check_policy :: "bool \<Rightarrow> socket_addr \<Rightarrow> open_error + socket_addr" where
  "check_policy allow_private_targets addr =
     (if allow_private_targets \<or> is_public_target addr then Inr addr else Inl Denied)"

fun resolve_udp_target ::
  "(string \<Rightarrow> ip_addr option) \<Rightarrow> resolver \<Rightarrow> nat \<Rightarrow> udp_addr \<Rightarrow> bool \<Rightarrow> server_state \<Rightarrow>
   (open_error + socket_addr) \<times> server_state" where
  "resolve_udp_target parse_ip lookup now (V4 a) allow st = (check_policy allow (SockV4 a), st)"
| "resolve_udp_target parse_ip lookup now (V6 a) allow st = (check_policy allow (SockV6 a), st)"
| "resolve_udp_target parse_ip lookup now (Domain host port) allow st =
     (let key = dns_key host port in
      case udp_dns_cached st key now of
        Some addr \<Rightarrow> (check_policy allow addr, st)
      | None \<Rightarrow>
          (case resolve_target parse_ip lookup host port allow of
             Inl e \<Rightarrow> (Inl e, st)
           | Inr [] \<Rightarrow> (Inl Denied, st)
           | Inr (addr # _) \<Rightarrow> (Inr addr, udp_dns_store st key addr now)))"

section \<open>Abstract view: address blocks\<close>

definition in_block4 :: "ipv4 \<Rightarrow> nat \<times> nat \<Rightarrow> bool" where
  "in_block4 ip b \<longleftrightarrow> unat ip div 2 ^ (32 - snd b) = fst b"

text \<open>The prefix as a number and its length: \<open>0/8\<close>, \<open>10/8\<close>, \<open>100.64/10\<close>, \<open>127/8\<close>,
  \<open>169.254/16\<close>, \<open>172.16/12\<close>, \<open>192.0.0/24\<close>, \<open>192.0.2/24\<close>, \<open>192.168/16\<close>,
  \<open>198.18/15\<close>, \<open>198.51.100/24\<close>, \<open>203.0.113/24\<close>, \<open>224/4\<close>, \<open>240/4\<close>.\<close>

definition special_blocks4 :: "(nat \<times> nat) list" where
  "special_blocks4 =
     [(0, 8), (10, 8), (100 * 4 + 1, 10), (127, 8), (169 * 256 + 254, 16), (172 * 16 + 1, 12),
      (192 * 65536, 24), (192 * 65536 + 2, 24), (192 * 256 + 168, 16), (198 * 128 + 9, 15),
      (198 * 65536 + 51 * 256 + 100, 24), (203 * 65536 + 113, 24), (14, 4), (15, 4)]"

definition in_block6 :: "ipv6 \<Rightarrow> nat \<times> nat \<Rightarrow> bool" where
  "in_block6 ip b \<longleftrightarrow> unat ip div 2 ^ (128 - snd b) = fst b"

text \<open>IPv4-mapped, IPv4-translated, IPv4-compatible and NAT64 addresses: \<open>::ffff:0:0/96\<close>,
  \<open>::ffff:0:0:0/96\<close>, \<open>::/96\<close>, \<open>64:ff9b::/96\<close>, which carry an IPv4 address in the last 32 bits;
  6to4 addresses, \<open>2002::/16\<close>, carry it in the 32 bits after the prefix.\<close>

definition embedding_blocks :: "(nat \<times> nat) list" where
  "embedding_blocks = [(0xffff, 96), (0xffff0000, 96), (0, 96), (0x64ff9b0000000000000000, 96)]"

definition sixto4_block :: "nat \<times> nat" where
  "sixto4_block = (0x2002, 16)"

text \<open>The embedding forms, as blocks.\<close>

definition carried_v4 :: "ipv6 \<Rightarrow> ipv4 option" where
  "carried_v4 ip =
     (if list_ex (in_block6 ip) embedding_blocks then Some (of_nat (unat ip mod 2 ^ 32))
      else if in_block6 ip sixto4_block then Some (of_nat (unat ip div 2 ^ 80 mod 2 ^ 32))
      else None)"

text \<open>\<open>ff00::/8\<close>, \<open>fc00::/7\<close>, \<open>fe80::/10\<close>, \<open>2001:db8::/32\<close>, \<open>2001::/32\<close>,
  \<open>2001:10::/28\<close>, \<open>2001:20::/28\<close>, \<open>100::/64\<close>.\<close>

definition special_blocks6 :: "(nat \<times> nat) list" where
  "special_blocks6 =
     [(0xff, 8), (0x7e, 7), (0x3fa, 10), (0x20010db8, 32), (0x20010000, 32), (0x2001001, 28),
      (0x2001002, 28), (0x0100000000000000, 64)]"

definition public_octets :: "nat \<Rightarrow> nat \<Rightarrow> nat \<Rightarrow> bool" where
  "public_octets a b c \<longleftrightarrow>
     a \<noteq> 127 \<and> \<not> (a = 10 \<or> (a = 172 \<and> 16 \<le> b \<and> b \<le> 31) \<or> (a = 192 \<and> b = 168)) \<and>
     \<not> (a = 169 \<and> b = 254) \<and> \<not> (224 \<le> a \<and> a \<le> 239) \<and> a \<noteq> 0 \<and> a div 16 \<noteq> 15 \<and>
     \<not> (a = 100 \<and> 64 \<le> b \<and> b \<le> 127) \<and> \<not> (a = 192 \<and> b = 0 \<and> c = 0) \<and>
     \<not> (a = 192 \<and> b = 0 \<and> c = 2) \<and> \<not> (a = 198 \<and> b = 18) \<and> \<not> (a = 198 \<and> b = 19) \<and>
     \<not> (a = 198 \<and> b = 51 \<and> c = 100) \<and> \<not> (a = 203 \<and> b = 0 \<and> c = 113)"

definition seg :: "nat \<Rightarrow> nat \<Rightarrow> nat" where
  "seg n k = n div 2 ^ k mod 65536"

section \<open>Lemmas: octets\<close>

lemma unat_drop_bit: "unat (drop_bit k (w :: 'a::len word)) = unat w div 2 ^ k"
proof -
  have "take_bit LENGTH('a) (unat w) = unat w"
    by (simp add: take_bit_nat_eq_self_iff unsigned_less)
  then show ?thesis by (simp add: unsigned_drop_bit_eq drop_bit_eq_div [where 'a = nat])
qed

lemma unat_ucast_div:
  "unat (ucast (drop_bit k (w :: 'a::len word)) :: 'b::len word) = unat w div 2 ^ k mod 2 ^ LENGTH('b)"
  by (simp add: unsigned_ucast_eq unat_drop_bit take_bit_eq_mod [where 'a = nat])

lemma octet_eqs:
  "unat (octets ip ! 0) = unat ip div 2 ^ 24" "unat (octets ip ! Suc 0) = unat ip div 2 ^ 16 mod 256"
  "unat (octets ip ! 2) = unat ip div 2 ^ 8 mod 256"
proof -
  have "unat ip < 2 ^ 32" using unsigned_less [of ip] by simp
  then have "unat ip div 2 ^ 24 mod 256 = unat ip div 2 ^ 24" by simp
  then show "unat (octets ip ! 0) = unat ip div 2 ^ 24"
    using unat_ucast_div [of 24 ip, where 'b = 8] by (simp add: octets_def)
  show "unat (octets ip ! Suc 0) = unat ip div 2 ^ 16 mod 256" "unat (octets ip ! 2) = unat ip div 2 ^ 8 mod 256"
    using unat_ucast_div [of 16 ip, where 'b = 8] unat_ucast_div [of 8 ip, where 'b = 8]
    by (simp_all add: octets_def numeral_2_eq_2)
qed

lemma and_top_mask:
  fixes w :: "'a::len word"
  assumes "n \<le> LENGTH('a)"
  shows "w AND push_bit n (mask (LENGTH('a) - n)) = push_bit n (drop_bit n w)"
  using assms by (intro bit_word_eqI) (auto simp: bit_simps dest: bit_imp_le_length)

lemma top_mask_eq:
  fixes w c :: "'a::len word"
  assumes "n \<le> LENGTH('a)" "m = push_bit n (mask (LENGTH('a) - n))" "unat c = 2 ^ n * k"
  shows "w AND m = c \<longleftrightarrow> unat w div 2 ^ n = k"
proof -
  have "unat (w AND m) = 2 ^ n * (unat w div 2 ^ n)"
  proof -
    have "2 ^ n * (unat w div 2 ^ n) < 2 ^ LENGTH('a)"
      by (metis le_less_trans times_div_less_eq_dividend unsigned_less)
    then show ?thesis
      unfolding assms(2) and_top_mask [OF assms(1)]
      by (simp add: unsigned_push_bit_eq unat_drop_bit push_bit_eq_mult [where 'a = nat]
          take_bit_eq_mod [where 'a = nat] mult.commute)
  qed
  then show ?thesis
    using assms(3) by (metis mult_cancel1 power_not_zero unsigned_word_eqI zero_neq_numeral)
qed

lemma word_nat_simps:
  "(w :: 'a::len word) = w' \<longleftrightarrow> unat w = unat w'" "w \<le> w' \<longleftrightarrow> unat w \<le> unat w'"
  by (auto simp: word_le_nat_alt intro: unsigned_word_eqI)

lemma block_parts:
  fixes n a b c :: nat
  assumes "a = n div 2 ^ 24" "b = n div 2 ^ 16 mod 256" "c = n div 2 ^ 8 mod 256"
  shows "n div 2 ^ 22 = 4 * a + b div 64" "n div 2 ^ 16 = 256 * a + b" "n div 2 ^ 20 = 16 * a + b div 16"
    "n div 2 ^ 8 = 65536 * a + 256 * b + c" "n div 2 ^ 17 = 128 * a + b div 2" "n div 2 ^ 28 = a div 16"
proof -
  have h16: "n div 2 ^ 16 = 256 * a + b"
    using assms div_mult2_eq [of n "2 ^ 16" 256] by simp
  have h8: "n div 2 ^ 8 = 256 * (n div 2 ^ 16) + c"
    using assms div_mult2_eq [of n "2 ^ 8" 256] by simp
  show "n div 2 ^ 16 = 256 * a + b" "n div 2 ^ 8 = 65536 * a + 256 * b + c"
    using h16 h8 by simp_all
  have "n div 2 ^ 22 = (256 * a + b) div 64" "n div 2 ^ 20 = (256 * a + b) div 16"
    "n div 2 ^ 17 = (256 * a + b) div 2"
    using h16 div_mult2_eq [of n "2 ^ 16" 64] div_mult2_eq [of n "2 ^ 16" 16] div_mult2_eq [of n "2 ^ 16" 2]
    by simp_all
  moreover have "(256 * a + b) div 64 = 4 * a + b div 64" "(256 * a + b) div 16 = 16 * a + b div 16"
    "(256 * a + b) div 2 = 128 * a + b div 2"
    by (presburger, presburger, presburger)
  ultimately show "n div 2 ^ 22 = 4 * a + b div 64" "n div 2 ^ 20 = 16 * a + b div 16"
    "n div 2 ^ 17 = 128 * a + b div 2"
    by simp_all
  show "n div 2 ^ 28 = a div 16"
    using assms(1) div_mult2_eq [of n "2 ^ 24" 16] by simp
qed

lemma digits_eq:
  fixes a b x y :: nat
  assumes "b < k" "x < k"
  shows "k * a + b = k * y + x \<longleftrightarrow> a = y \<and> b = x"
proof
  assume e: "k * a + b = k * y + x"
  have "(k * a + b) div k = a" "(k * y + x) div k = y" using assms by simp_all
  then have "a = y" using e by simp
  then show "a = y \<and> b = x" using e by simp
qed simp

lemma range_div: "0 < k \<Longrightarrow> b div k = (q :: nat) \<longleftrightarrow> q * k \<le> b \<and> b < Suc q * k"
  by (metis div_le_mono div_mult_self_is_m div_nat_eqI dividend_less_div_times mult_Suc
      nonzero_mult_div_cancel_right times_div_less_eq_dividend mult.commute less_nat_zero_code)

lemma block_eqs:
  fixes a b c :: nat
  assumes "b < 256"
  shows "4 * a + b div 64 = 401 \<longleftrightarrow> a = 100 \<and> 64 \<le> b \<and> b \<le> 127"
    "16 * a + b div 16 = 2753 \<longleftrightarrow> a = 172 \<and> 16 \<le> b \<and> b \<le> 31"
    "128 * a + b div 2 = 25353 \<longleftrightarrow> a = 198 \<and> (b = 18 \<or> b = 19)"
    "a div 16 = 14 \<longleftrightarrow> 224 \<le> a \<and> a \<le> 239"
proof -
  have "4 * a + b div 64 = 4 * 100 + 1 \<longleftrightarrow> a = 100 \<and> b div 64 = 1"
    by (rule digits_eq) (use assms in auto)
  moreover have "b div 64 = 1 \<longleftrightarrow> 1 * 64 \<le> b \<and> b < Suc 1 * 64" by (rule range_div) simp
  ultimately show "4 * a + b div 64 = 401 \<longleftrightarrow> a = 100 \<and> 64 \<le> b \<and> b \<le> 127" by auto
  have "16 * a + b div 16 = 16 * 172 + 1 \<longleftrightarrow> a = 172 \<and> b div 16 = 1"
    by (rule digits_eq) (use assms in auto)
  moreover have "b div 16 = 1 \<longleftrightarrow> 1 * 16 \<le> b \<and> b < Suc 1 * 16" by (rule range_div) simp
  ultimately show "16 * a + b div 16 = 2753 \<longleftrightarrow> a = 172 \<and> 16 \<le> b \<and> b \<le> 31" by auto
  have "128 * a + b div 2 = 128 * 198 + 9 \<longleftrightarrow> a = 198 \<and> b div 2 = 9"
    by (rule digits_eq) (use assms in auto)
  moreover have "b div 2 = 9 \<longleftrightarrow> 9 * 2 \<le> b \<and> b < Suc 9 * 2" by (rule range_div) simp
  ultimately show "128 * a + b div 2 = 25353 \<longleftrightarrow> a = 198 \<and> (b = 18 \<or> b = 19)" by auto
  have "a div 16 = 14 \<longleftrightarrow> 14 * 16 \<le> a \<and> a < Suc 14 * 16" by (rule range_div) simp
  then show "a div 16 = 14 \<longleftrightarrow> 224 \<le> a \<and> a \<le> 239" by auto
qed

lemma is_public_v4_octets:
  "is_public_v4 ip \<longleftrightarrow> public_octets (unat ip div 2 ^ 24) (unat ip div 2 ^ 16 mod 256) (unat ip div 2 ^ 8 mod 256)"
proof -
  define a b c where "a = unat ip div 2 ^ 24" and "b = unat ip div 2 ^ 16 mod 256" and "c = unat ip div 2 ^ 8 mod 256"
  have q: "unat (octets ip ! 0) = a" "unat (octets ip ! 1) = b" "unat (octets ip ! 2) = c"
    using octet_eqs [of ip] by (simp_all add: a_def b_def c_def)
  have f0: "octets ip ! 0 AND 0xf0 = 0xf0 \<longleftrightarrow> a div 16 = 15"
    using top_mask_eq [where n = 4 and m = "0xf0 :: u8" and c = "0xf0" and k = 15 and w = "octets ip ! 0"] q(1)
    by (simp add: mask_eq_exp_minus_1 push_bit_eq_mult)
  have p: "v4_is_loopback ip \<longleftrightarrow> a = 127"
    "v4_is_private ip \<longleftrightarrow> a = 10 \<or> (a = 172 \<and> 16 \<le> b \<and> b \<le> 31) \<or> (a = 192 \<and> b = 168)"
    "v4_is_link_local ip \<longleftrightarrow> a = 169 \<and> b = 254" "v4_is_multicast ip \<longleftrightarrow> 224 \<le> a \<and> a \<le> 239"
    using q by (simp_all add: v4_is_loopback_def v4_is_private_def v4_is_link_local_def
        v4_is_multicast_def Let_def word_nat_simps [where 'a = 8])
  have w: "v4_is_unspecified ip \<Longrightarrow> a = 0" "v4_is_broadcast ip \<Longrightarrow> a div 16 = 15"
    by (simp_all add: v4_is_unspecified_def v4_is_broadcast_def a_def)
  have r: "is_public_v4 ip \<longleftrightarrow>
      \<not> v4_is_unspecified ip \<and> a \<noteq> 127 \<and> \<not> (a = 10 \<or> (a = 172 \<and> 16 \<le> b \<and> b \<le> 31) \<or> (a = 192 \<and> b = 168)) \<and>
      \<not> (a = 169 \<and> b = 254) \<and> \<not> (224 \<le> a \<and> a \<le> 239) \<and> \<not> v4_is_broadcast ip \<and> a \<noteq> 0 \<and> a div 16 \<noteq> 15 \<and>
      \<not> (a = 100 \<and> 64 \<le> b \<and> b \<le> 127) \<and> \<not> (a = 192 \<and> b = 0 \<and> c = 0) \<and>
      \<not> (a = 192 \<and> b = 0 \<and> c = 2) \<and> \<not> (a = 198 \<and> b = 18) \<and> \<not> (a = 198 \<and> b = 19) \<and>
      \<not> (a = 198 \<and> b = 51 \<and> c = 100) \<and> \<not> (a = 203 \<and> b = 0 \<and> c = 113)"
    unfolding is_public_v4_def Let_def p f0 using q by (simp add: word_nat_simps [where 'a = 8])
  show ?thesis
    unfolding r public_octets_def a_def [symmetric] b_def [symmetric] c_def [symmetric]
    using w by argo
qed

lemma public_v4_blocks: "is_public_v4 ip \<longleftrightarrow> list_all (\<lambda>b. \<not> in_block4 ip b) special_blocks4"
proof -
  define n where "n = unat ip"
  define a b c where "a = n div 2 ^ 24" and "b = n div 2 ^ 16 mod 256" and "c = n div 2 ^ 8 mod 256"
  have small: "b < 256" "c < 256" by (simp_all add: b_def c_def)
  note parts = block_parts [OF a_def b_def c_def]
  have two: "256 * a + b = 256 * y + x \<longleftrightarrow> a = y \<and> b = x" if "x < 256" for x y
    by (rule digits_eq [OF small(1) that])
  have three: "65536 * a + 256 * b + c = 256 * (256 * y + x) + z \<longleftrightarrow> a = y \<and> b = x \<and> c = z"
    if "x < 256" "z < 256" for x y z
    using digits_eq [OF small(2) that(2), of "256 * a + b" "256 * y + x"] two [OF that(1), of y] by simp
  have e: "256 * a + b = 256 * 169 + 254 \<longleftrightarrow> a = 169 \<and> b = 254"
    "256 * a + b = 256 * 192 + 168 \<longleftrightarrow> a = 192 \<and> b = 168"
    "65536 * a + 256 * b + c = 256 * (256 * 192 + 0) + 0 \<longleftrightarrow> a = 192 \<and> b = 0 \<and> c = 0"
    "65536 * a + 256 * b + c = 256 * (256 * 192 + 0) + 2 \<longleftrightarrow> a = 192 \<and> b = 0 \<and> c = 2"
    "65536 * a + 256 * b + c = 256 * (256 * 198 + 51) + 100 \<longleftrightarrow> a = 198 \<and> b = 51 \<and> c = 100"
    "65536 * a + 256 * b + c = 256 * (256 * 203 + 0) + 113 \<longleftrightarrow> a = 203 \<and> b = 0 \<and> c = 113"
    by (rule two three; simp)+
  have "list_all (\<lambda>b. \<not> in_block4 ip b) special_blocks4 \<longleftrightarrow>
      a \<noteq> 0 \<and> a \<noteq> 10 \<and> 4 * a + b div 64 \<noteq> 401 \<and> a \<noteq> 127 \<and> 256 * a + b \<noteq> 256 * 169 + 254 \<and>
      16 * a + b div 16 \<noteq> 2753 \<and> 65536 * a + 256 * b + c \<noteq> 256 * (256 * 192 + 0) + 0 \<and>
      65536 * a + 256 * b + c \<noteq> 256 * (256 * 192 + 0) + 2 \<and> 256 * a + b \<noteq> 256 * 192 + 168 \<and>
      128 * a + b div 2 \<noteq> 25353 \<and> 65536 * a + 256 * b + c \<noteq> 256 * (256 * 198 + 51) + 100 \<and>
      65536 * a + 256 * b + c \<noteq> 256 * (256 * 203 + 0) + 113 \<and> a div 16 \<noteq> 14 \<and> a div 16 \<noteq> 15"
    using parts by (simp add: special_blocks4_def in_block4_def n_def [symmetric] a_def)
  also have "\<dots> \<longleftrightarrow> public_octets a b c"
    unfolding block_eqs [OF small(1)] e public_octets_def by argo
  finally show ?thesis
    by (simp add: is_public_v4_octets a_def b_def c_def n_def)
qed

section \<open>Lemmas: segments\<close>

lemma four_digits:
  "l mod 256 + 256 * (l div 256 + 256 * (h mod 256 + 256 * (h div 256 + 256 * 0))) = 65536 * h + (l :: nat)"
proof -
  have "x + 256 * (y + 256 * (z + 256 * (w + 256 * 0))) = 65536 * (256 * w + z) + (256 * y + x)" for x y z w :: nat
    by (simp add: algebra_simps)
  then show ?thesis by (simp only: mult_div_mod_eq)
qed

lemma unat_seg_v4: "unat (seg_v4 hi lo) = 65536 * unat hi + unat lo"
proof -
  have b: "unat (ucast (drop_bit 8 w) :: u8) = unat w div 256" "unat (ucast w :: u8) = unat w mod 256" for w :: u16
  proof -
    have "unat w < 256 * 256" using unsigned_less [of w] by simp
    then have "unat w div 256 mod 256 = unat w div 256" by (simp add: less_mult_imp_div_less)
    then show "unat (ucast (drop_bit 8 w) :: u8) = unat w div 256" "unat (ucast w :: u8) = unat w mod 256"
      using unat_ucast_div [of 8 w, where 'b = 8] unat_ucast_div [of 0 w, where 'b = 8] by simp_all
  qed
  have small: "unat hi < 65536" "unat lo < 65536" using unsigned_less [of hi] unsigned_less [of lo] by simp_all
  have l: "le_nat [ucast lo, ucast (drop_bit 8 lo), ucast hi, ucast (drop_bit 8 hi)] = 65536 * unat hi + unat lo"
    unfolding le_nat.simps b(1) [of lo] b(1) [of hi] b(2) [of lo] b(2) [of hi] by (rule four_digits)
  have "seg_v4 hi lo = of_nat (65536 * unat hi + unat lo)"
    unfolding l [symmetric]
    by (simp only: seg_v4_def ipv4_new_def from_be_bytes_def from_le_bytes_def rev.simps append.simps)
  moreover have "unat (of_nat (65536 * unat hi + unat lo) :: ipv4) = 65536 * unat hi + unat lo"
    unfolding unat_of_nat by (rule mod_less) (use small in simp)
  ultimately show ?thesis by metis
qed

lemma div_chain: "n div 2 ^ k = 65536 * (n div 2 ^ (k + 16)) + n div 2 ^ k mod (65536 :: nat)"
proof -
  have "n div 2 ^ (k + 16) = n div 2 ^ k div 65536"
    by (simp add: power_add div_mult2_eq)
  then show ?thesis by simp
qed

lemma seg_less [simp]: "seg n k < 65536"
  by (simp add: seg_def)

lemma segments_eq:
  "segments ip = map (\<lambda>k. of_nat (seg (unat ip) k)) [112, 96, 80, 64, 48, 32, 16, 0]"
proof -
  have "ucast (drop_bit k ip) = (of_nat (seg (unat ip) k) :: u16)" for k
    unfolding word_nat_simps(1) [where 'a = 16] unat_ucast_div
    by (simp add: seg_def unat_of_nat take_bit_eq_mod [where 'a = nat])
  then show ?thesis by (simp add: segments_def)
qed

lemma seg_word_eq: "(of_nat (seg n k) :: u16) = w \<longleftrightarrow> seg n k = unat w"
proof -
  have "unat (of_nat (seg n k) :: u16) = seg n k"
    by (simp add: unat_of_nat take_bit_nat_eq_self_iff)
  then show ?thesis by (simp add: word_nat_simps(1))
qed

lemma prefix_chain:
  assumes "n < 2 ^ 128"
  shows "n div 2 ^ 112 = seg n 112" "n div 2 ^ 96 = 65536 * (n div 2 ^ 112) + seg n 96"
    "n div 2 ^ 80 = 65536 * (n div 2 ^ 96) + seg n 80" "n div 2 ^ 64 = 65536 * (n div 2 ^ 80) + seg n 64"
    "n div 2 ^ 48 = 65536 * (n div 2 ^ 64) + seg n 48" "n div 2 ^ 32 = 65536 * (n div 2 ^ 48) + seg n 32"
proof -
  have "n div 2 ^ 112 < 65536" using assms by (simp add: less_mult_imp_div_less)
  then show "n div 2 ^ 112 = seg n 112" by (simp add: seg_def)
qed (use div_chain [of n 96] div_chain [of n 80] div_chain [of n 64] div_chain [of n 48]
    div_chain [of n 32] in \<open>simp_all add: seg_def\<close>)

text \<open>A prefix of \<open>k\<close> segments is a given number exactly when the segments are its digits.\<close>

lemma chain_eq:
  assumes "p = 65536 * q + seg n k" "d < 65536"
  shows "p = 65536 * e + d \<longleftrightarrow> q = e \<and> seg n k = d"
  unfolding assms(1) by (rule digits_eq) (use assms(2) in auto)

lemma chain_zero:
  assumes "p = 65536 * q + seg n k"
  shows "p = 0 \<longleftrightarrow> q = 0 \<and> seg n k = 0"
  unfolding assms by simp

lemma embedding_prefix:
  assumes n: "n < 2 ^ 128"
  shows "n div 2 ^ 32 = 0 \<longleftrightarrow> seg n 112 = 0 \<and> seg n 96 = 0 \<and> seg n 80 = 0 \<and> seg n 64 = 0 \<and> seg n 48 = 0 \<and> seg n 32 = 0"
    "n div 2 ^ 32 = 0xffff \<longleftrightarrow>
       seg n 112 = 0 \<and> seg n 96 = 0 \<and> seg n 80 = 0 \<and> seg n 64 = 0 \<and> seg n 48 = 0 \<and> seg n 32 = 0xffff"
    "n div 2 ^ 32 = 0xffff0000 \<longleftrightarrow>
       seg n 112 = 0 \<and> seg n 96 = 0 \<and> seg n 80 = 0 \<and> seg n 64 = 0 \<and> seg n 48 = 0xffff \<and> seg n 32 = 0"
    "n div 2 ^ 32 = 0x64ff9b0000000000000000 \<longleftrightarrow>
       seg n 112 = 0x64 \<and> seg n 96 = 0xff9b \<and> seg n 80 = 0 \<and> seg n 64 = 0 \<and> seg n 48 = 0 \<and> seg n 32 = 0"
proof -
  note c = prefix_chain [OF n]
  have z48: "n div 2 ^ 48 = 0 \<longleftrightarrow> seg n 112 = 0 \<and> seg n 96 = 0 \<and> seg n 80 = 0 \<and> seg n 64 = 0 \<and> seg n 48 = 0"
    and z64: "n div 2 ^ 64 = 0 \<longleftrightarrow> seg n 112 = 0 \<and> seg n 96 = 0 \<and> seg n 80 = 0 \<and> seg n 64 = 0"
    using chain_zero [OF c(2)] chain_zero [OF c(3)] chain_zero [OF c(4)] chain_zero [OF c(5)] c(1) by metis+
  show "n div 2 ^ 32 = 0 \<longleftrightarrow> seg n 112 = 0 \<and> seg n 96 = 0 \<and> seg n 80 = 0 \<and> seg n 64 = 0 \<and> seg n 48 = 0 \<and> seg n 32 = 0"
    using chain_zero [OF c(6)] z48 by metis
  show "n div 2 ^ 32 = 0xffff \<longleftrightarrow>
       seg n 112 = 0 \<and> seg n 96 = 0 \<and> seg n 80 = 0 \<and> seg n 64 = 0 \<and> seg n 48 = 0 \<and> seg n 32 = 0xffff"
    using chain_eq [OF c(6), where d = "0xffff" and e = "0"] z48 by simp
  show "n div 2 ^ 32 = 0xffff0000 \<longleftrightarrow>
       seg n 112 = 0 \<and> seg n 96 = 0 \<and> seg n 80 = 0 \<and> seg n 64 = 0 \<and> seg n 48 = 0xffff \<and> seg n 32 = 0"
    using chain_eq [OF c(6), where d = "0" and e = "0xffff"] chain_eq [OF c(5), where d = "0xffff" and e = "0"] z64 by simp
  show "n div 2 ^ 32 = 0x64ff9b0000000000000000 \<longleftrightarrow>
       seg n 112 = 0x64 \<and> seg n 96 = 0xff9b \<and> seg n 80 = 0 \<and> seg n 64 = 0 \<and> seg n 48 = 0 \<and> seg n 32 = 0"
    using chain_eq [OF c(6), where d = "0" and e = "0x64ff9b000000000000"] chain_eq [OF c(5), where d = "0" and e = "0x64ff9b00000000"]
      chain_eq [OF c(4), where d = "0" and e = "0x64ff9b0000"] chain_eq [OF c(3), where d = "0" and e = "0x64ff9b"]
      chain_eq [OF c(2), where d = "0xff9b" and e = "0x64"] c(1)
    by simp
qed

lemma v6_small: "unat (ip :: ipv6) < 2 ^ 128"
  using unsigned_less [of ip] by simp

lemma embedded_low: "unat (seg_v4 (of_nat (seg n 16)) (of_nat (seg n 0))) = n mod 2 ^ 32"
proof -
  have "unat (of_nat (seg n k) :: u16) = seg n k" for k
    using seg_word_eq by metis
  moreover have "65536 * seg n 16 + seg n 0 = n mod 2 ^ 32"
    using mod_mult2_eq [of n 65536 65536] by (simp add: seg_def)
  ultimately show ?thesis by (simp add: unat_seg_v4)
qed

lemma embedded_sixto4:
  "unat (seg_v4 (of_nat (seg n 96)) (of_nat (seg n 80))) = n div 2 ^ 80 mod 2 ^ 32"
proof -
  have "unat (of_nat (seg n k) :: u16) = seg n k" for k
    using seg_word_eq by metis
  moreover have "65536 * seg n 96 + seg n 80 = n div 2 ^ 80 mod 2 ^ 32"
    using mod_mult2_eq [of "n div 2 ^ 80" 65536 65536] by (simp add: seg_def div_mult2_eq [symmetric])
  ultimately show ?thesis by (simp add: unat_seg_v4)
qed

lemma embedded_ipv4_carried: "embedded_ipv4 (segments ip) = carried_v4 ip"
proof -
  define n where "n = unat ip"
  have small: "n < 2 ^ 128" unfolding n_def by (rule v6_small)
  have low: "seg_v4 (of_nat (seg n 16)) (of_nat (seg n 0)) = of_nat (n mod 2 ^ 32)"
    and six: "seg_v4 (of_nat (seg n 96)) (of_nat (seg n 80)) = of_nat (n div 2 ^ 80 mod 2 ^ 32)"
    using embedded_low [of n] embedded_sixto4 [of n] by (metis of_nat_unat ucast_id)+
  have "list_ex (in_block6 ip) embedding_blocks \<longleftrightarrow>
      n div 2 ^ 32 = 0xffff \<or> n div 2 ^ 32 = 0xffff0000 \<or> n div 2 ^ 32 = 0 \<or> n div 2 ^ 32 = 0x64ff9b0000000000000000"
    by (simp add: embedding_blocks_def in_block6_def n_def)
  moreover have "in_block6 ip sixto4_block \<longleftrightarrow> seg n 112 = 0x2002"
    using prefix_chain(1) [OF small] by (simp add: sixto4_block_def in_block6_def n_def)
  ultimately show ?thesis
    unfolding segments_eq carried_v4_def embedding_prefix [OF small] n_def [symmetric]
    by (simp add: embedded_ipv4_def slice_def seg_word_eq low six)
qed

lemma special6_parts:
  assumes n: "n < 2 ^ 128"
  shows "n div 2 ^ 120 = seg n 112 div 256" "n div 2 ^ 121 = seg n 112 div 512" "n div 2 ^ 118 = seg n 112 div 64"
    "n div 2 ^ 100 = 4096 * seg n 112 + seg n 96 div 16"
proof -
  note c = prefix_chain [OF n]
  have q: "n div 2 ^ (112 + j) = seg n 112 div 2 ^ j" for j
    unfolding c(1) [symmetric] by (simp add: power_add div_mult2_eq)
  show "n div 2 ^ 120 = seg n 112 div 256" "n div 2 ^ 121 = seg n 112 div 512" "n div 2 ^ 118 = seg n 112 div 64"
    using q [of 8] q [of 9] q [of 6] by simp_all
  have "n div 2 ^ 100 = n div 2 ^ 96 div 16" by (simp add: div_mult2_eq [symmetric])
  also have "\<dots> = (65536 * seg n 112 + seg n 96) div 16" using c by simp
  also have "\<dots> = 4096 * seg n 112 + seg n 96 div 16" by presburger
  finally show "n div 2 ^ 100 = 4096 * seg n 112 + seg n 96 div 16" .
qed

lemma special6_eqs:
  assumes n: "n < 2 ^ 128"
  shows "n div 2 ^ 96 = 0x20010db8 \<longleftrightarrow> seg n 112 = 0x2001 \<and> seg n 96 = 0xdb8"
    "n div 2 ^ 96 = 0x20010000 \<longleftrightarrow> seg n 112 = 0x2001 \<and> seg n 96 = 0"
    "n div 2 ^ 100 = 0x2001001 \<longleftrightarrow> seg n 112 = 0x2001 \<and> seg n 96 div 16 = 1"
    "n div 2 ^ 100 = 0x2001002 \<longleftrightarrow> seg n 112 = 0x2001 \<and> seg n 96 div 16 = 2"
    "n div 2 ^ 64 = 0x0100000000000000 \<longleftrightarrow> seg n 112 = 0x100 \<and> seg n 96 = 0 \<and> seg n 80 = 0 \<and> seg n 64 = 0"
proof -
  note c = prefix_chain [OF n]
  show "n div 2 ^ 96 = 0x20010db8 \<longleftrightarrow> seg n 112 = 0x2001 \<and> seg n 96 = 0xdb8"
    "n div 2 ^ 96 = 0x20010000 \<longleftrightarrow> seg n 112 = 0x2001 \<and> seg n 96 = 0"
    using chain_eq [OF c(2), where d = "0xdb8" and e = "0x2001"] chain_eq [OF c(2), where d = "0" and e = "0x2001"] c(1)
    by simp_all
  have small: "seg n 96 div 16 < 4096" using less_mult_imp_div_less [of "seg n 96" 4096 16] by simp
  show "n div 2 ^ 100 = 0x2001001 \<longleftrightarrow> seg n 112 = 0x2001 \<and> seg n 96 div 16 = 1"
    "n div 2 ^ 100 = 0x2001002 \<longleftrightarrow> seg n 112 = 0x2001 \<and> seg n 96 div 16 = 2"
    unfolding special6_parts(4) [OF n]
    using digits_eq [OF small, of 1 "seg n 112" "0x2001"] digits_eq [OF small, of 2 "seg n 112" "0x2001"] by simp_all
  show "n div 2 ^ 64 = 0x0100000000000000 \<longleftrightarrow> seg n 112 = 0x100 \<and> seg n 96 = 0 \<and> seg n 80 = 0 \<and> seg n 64 = 0"
    using chain_eq [OF c(4), where d = "0" and e = "0x10000000000"] chain_eq [OF c(3), where d = "0" and e = "0x1000000"]
      chain_eq [OF c(2), where d = "0" and e = "0x100"] c(1)
    by simp
qed

lemma masked_segs:
  fixes w :: u16
  shows "w AND 0xff00 = 0xff00 \<longleftrightarrow> unat w div 256 = 0xff" "w AND 0xfe00 = 0xfc00 \<longleftrightarrow> unat w div 512 = 0x7e"
    "w AND 0xffc0 = 0xfe80 \<longleftrightarrow> unat w div 64 = 0x3fa" "w AND 0xfff0 = 0x10 \<longleftrightarrow> unat w div 16 = 1"
    "w AND 0xfff0 = 0x20 \<longleftrightarrow> unat w div 16 = 2"
  using top_mask_eq [where n = 8 and m = "0xff00 :: u16" and c = "0xff00" and k = "0xff" and w = w]
    top_mask_eq [where n = 9 and m = "0xfe00 :: u16" and c = "0xfc00" and k = "0x7e" and w = w]
    top_mask_eq [where n = 6 and m = "0xffc0 :: u16" and c = "0xfe80" and k = "0x3fa" and w = w]
    top_mask_eq [where n = 4 and m = "0xfff0 :: u16" and c = "0x10" and k = 1 and w = w]
    top_mask_eq [where n = 4 and m = "0xfff0 :: u16" and c = "0x20" and k = 2 and w = w]
  by (simp_all add: mask_eq_exp_minus_1 push_bit_eq_mult)

lemma special_blocks6_segs:
  assumes n: "n = unat ip"
  shows "list_all (\<lambda>b. \<not> in_block6 ip b) special_blocks6 \<longleftrightarrow>
      seg n 112 div 256 \<noteq> 0xff \<and> seg n 112 div 512 \<noteq> 0x7e \<and> seg n 112 div 64 \<noteq> 0x3fa \<and>
      \<not> (seg n 112 = 0x2001 \<and> seg n 96 = 0xdb8) \<and> \<not> (seg n 112 = 0x2001 \<and> seg n 96 = 0) \<and>
      \<not> (seg n 112 = 0x2001 \<and> seg n 96 div 16 = 1) \<and> \<not> (seg n 112 = 0x2001 \<and> seg n 96 div 16 = 2) \<and>
      \<not> (seg n 112 = 0x100 \<and> seg n 96 = 0 \<and> seg n 80 = 0 \<and> seg n 64 = 0)"
proof -
  have small: "n < 2 ^ 128" unfolding n by (rule v6_small)
  have "list_all (\<lambda>b. \<not> in_block6 ip b) special_blocks6 \<longleftrightarrow>
      n div 2 ^ 120 \<noteq> 0xff \<and> n div 2 ^ 121 \<noteq> 0x7e \<and> n div 2 ^ 118 \<noteq> 0x3fa \<and>
      n div 2 ^ 96 \<noteq> 0x20010db8 \<and> n div 2 ^ 96 \<noteq> 0x20010000 \<and>
      n div 2 ^ 100 \<noteq> 0x2001001 \<and> n div 2 ^ 100 \<noteq> 0x2001002 \<and> n div 2 ^ 64 \<noteq> 0x0100000000000000"
    by (simp add: special_blocks6_def in_block6_def n)
  then show ?thesis
    unfolding special6_eqs [OF small] special6_parts(1-3) [OF small] .
qed

lemma public_v6_blocks:
  "is_public_v6 ip \<longleftrightarrow>
     (case carried_v4 ip of
        Some v4 \<Rightarrow> is_public_v4 v4
      | None \<Rightarrow> list_all (\<lambda>b. \<not> in_block6 ip b) special_blocks6)"
proof (cases "carried_v4 ip")
  case None
  define n where "n = unat ip"
  have uw: "unat (of_nat (seg n k) :: u16) = seg n k" for k
    using seg_word_eq by metis
  have low: "ip \<noteq> 0" "ip \<noteq> 1"
    using None by (auto simp: carried_v4_def embedding_blocks_def in_block6_def)
  have "is_public_v6 ip \<longleftrightarrow>
      seg n 112 div 256 \<noteq> 0xff \<and> seg n 112 div 512 \<noteq> 0x7e \<and> seg n 112 div 64 \<noteq> 0x3fa \<and>
      \<not> (seg n 112 = 0x2001 \<and> seg n 96 = 0xdb8) \<and> \<not> (seg n 112 = 0x2001 \<and> seg n 96 = 0) \<and>
      \<not> (seg n 112 = 0x2001 \<and> (seg n 96 div 16 = 1 \<or> seg n 96 div 16 = 2)) \<and>
      \<not> (seg n 112 = 0x100 \<and> seg n 96 = 0 \<and> seg n 80 = 0 \<and> seg n 64 = 0)"
    unfolding is_public_v6_def Let_def embedded_ipv4_carried None option.case
    unfolding v6_is_multicast_def masked_segs v6_is_unspecified_def v6_is_loopback_def segments_eq n_def [symmetric]
    by (simp add: low seg_word_eq uw)
  then show ?thesis
    unfolding special_blocks6_segs [OF n_def] using None by auto
next
  case (Some v4)
  then show ?thesis by (simp add: is_public_v6_def embedded_ipv4_carried Let_def)
qed

section \<open>Lemmas: resolution and dialling\<close>

lemma resolve_target_allowed:
  "resolve_target parse_ip lookup host port allow = Inr addrs \<Longrightarrow>
   addrs \<noteq> [] \<and> list_all (\<lambda>a. allow \<or> is_public_target a) addrs"
  by (auto simp: resolve_target_def Let_def list_all_iff split: if_splits)

lemma try_connect_tried: "\<exists>rest. as = fst (try_connect connect as) @ rest"
  by (induction as) (auto split: attempt.splits prod.splits)

lemma try_connect_Some:
  "snd (try_connect connect as) = Some a \<longleftrightarrow>
   (\<exists>refused rest. as = refused @ a # rest \<and> connect a = Connected \<and>
      list_all (\<lambda>x. connect x = Refused) refused)" (is "_ \<longleftrightarrow> ?reached as")
proof (induction as)
  case IH: (Cons x as)
  have split: "?reached (x # as) \<longleftrightarrow> x = a \<and> connect a = Connected \<or> connect x = Refused \<and> ?reached as"
  proof
    assume "?reached (x # as)"
    then obtain r rest where r: "x # as = r @ a # rest" "connect a = Connected"
      "list_all (\<lambda>x. connect x = Refused) r" by blast
    then show "x = a \<and> connect a = Connected \<or> connect x = Refused \<and> ?reached as"
      by (cases r) auto
  next
    assume "x = a \<and> connect a = Connected \<or> connect x = Refused \<and> ?reached as"
    then show "?reached (x # as)"
    proof
      assume "x = a \<and> connect a = Connected"
      then have "x # as = [] @ a # as \<and> connect a = Connected \<and> list_all (\<lambda>x. connect x = Refused) []" by simp
      then show ?thesis by blast
    next
      assume "connect x = Refused \<and> ?reached as"
      then obtain r rest where "as = r @ a # rest" "connect a = Connected" "list_all (\<lambda>x. connect x = Refused) (x # r)"
        by auto
      then show ?thesis by (metis append_Cons)
    qed
  qed
  show ?case
    unfolding split using IH by (cases "connect x") (auto simp: split_beta)
qed simp

lemma dial_target_tried:
  "list_all (\<lambda>a. allow \<or> is_public_target a) (fst (dial_target parse_ip lookup connect host port allow))"
proof (cases "resolve_target parse_ip lookup host port allow")
  case (Inr addrs)
  obtain rest where "addrs = fst (try_connect connect addrs) @ rest" using try_connect_tried by blast
  then have "list_all (\<lambda>a. allow \<or> is_public_target a) (fst (try_connect connect addrs))"
    using resolve_target_allowed [OF Inr] by (metis list_all_append)
  with Inr show ?thesis by (simp add: dial_target_def split_beta)
qed (simp add: dial_target_def)

lemma resolve_udp_target_allowed:
  "fst (resolve_udp_target parse_ip lookup now addr allow st) = Inr a \<Longrightarrow> allow \<or> is_public_target a"
  by (cases "(parse_ip, lookup, now, addr, allow, st)" rule: resolve_udp_target.cases)
    (auto simp: check_policy_def Let_def split: if_splits option.splits sum.splits list.splits
      dest!: resolve_target_allowed)

section \<open>Properties\<close>

text \<open>
  C34. An address counts as public exactly when it lies in none of the special-purpose blocks: for
  IPv4 the fourteen blocks of \<open>special_blocks4\<close>; for an IPv6 address that carries an IPv4 address (mapped,
  translated, compatible, NAT64 or 6to4) the carried address must be public; for every other IPv6
  address the blocks are those of \<open>special_blocks6\<close>.
\<close>

theorem is_public_target_iff:
  "is_public_target addr \<longleftrightarrow>
     (case sock_ip addr of
        IpV4 ip \<Rightarrow> list_all (\<lambda>b. \<not> in_block4 ip b) special_blocks4
      | IpV6 ip \<Rightarrow>
          (case carried_v4 ip of
             Some v4 \<Rightarrow> list_all (\<lambda>b. \<not> in_block4 v4 b) special_blocks4
           | None \<Rightarrow> list_all (\<lambda>b. \<not> in_block6 ip b) special_blocks6))"
  by (simp add: is_public_target_def public_v4_blocks public_v6_blocks split: ip_addr.split option.split)

text \<open>
  C13. With private targets disallowed no private address is ever contacted: every address a dial
  tries to connect to is public, whatever the resolver answers, and every address a UDP target is
  resolved to is public, also when it comes from the DNS cache.
\<close>

theorem egress_public:
  "list_all is_public_target (fst (dial_target parse_ip lookup connect host port False)) \<and>
   (case fst (resolve_udp_target parse_ip lookup now addr False st) of
      Inl e \<Rightarrow> True
    | Inr a \<Rightarrow> is_public_target a)"
  using dial_target_tried [of False parse_ip lookup connect host port]
    resolve_udp_target_allowed [of parse_ip lookup now addr False st]
  by (auto split: sum.split)

text \<open>
  A dial succeeds with an address exactly when the host is not empty and has at most 255 bytes,
  its name resolves to permitted addresses, and that address is the first one that does not
  refuse the connection and accepts it.
\<close>

theorem dial_first_reachable:
  "snd (dial_target parse_ip lookup connect host port allow) = Inr a \<longleftrightarrow>
     host \<noteq> [] \<and> length host \<le> 255 \<and> connect a = Connected \<and>
     (\<exists>refused rest. resolve_target parse_ip lookup host port allow = Inr (refused @ a # rest) \<and>
        list_all (\<lambda>x. connect x = Refused) refused)"
proof (cases "resolve_target parse_ip lookup host port allow")
  case (Inr addrs)
  then show ?thesis
    using try_connect_Some [of connect addrs a]
    by (auto simp: dial_target_def split_beta ok_or_Inr_iff)
qed (auto simp: dial_target_def)

end
