(* ===== verification/Mux_Client.thy ===== *)
theory Mux_Client
  imports Mux
begin

text \<open>
  The client's operations of \<open>src/proto/mux.rs\<close>: starting the multiplexer and its writer task, opening
  a TCP session, associating a UDP session, and the pump tasks of a session. Opening has two phases,
  because the caller waits for the reply between them while the reader task handles frames.
\<close>

definition SESSION_BUF :: nat where [const_defs]: "SESSION_BUF = 64 * 1024"

section \<open>Start and the writer task\<close>

definition rand_sid_base :: "u32 \<Rightarrow> u32" where
  "rand_sid_base r = max r 1"

definition mux_start :: "u32 \<Rightarrow> mux_inner" where
  "mux_start r = \<lparr>mx_cmd_open = True, mx_sessions = [], mx_udp = [], mx_pending_open = [],
     mx_pending_udp = [], mx_next_sid = rand_sid_base r, mx_closed = False\<rparr>"

text \<open>
  The writer task over the commands it receives: the chunks handed to the request body. \<open>n\<close> is the
  number of chunks the body accepts before it is gone. A frame that cannot be encoded is skipped.
\<close>

fun mux_writer :: "crypto_lib \<Rightarrow> frame_encoder \<Rightarrow> nat \<Rightarrow> out_frame list \<Rightarrow> bytes list" where
  "mux_writer L enc n [] = []"
| "mux_writer L enc n (f # fs) =
     (case encode L enc (of_type f) (of_flags f) (of_sid f) (of_payload f) of
        (Inl e, enc') \<Rightarrow> mux_writer L enc' n fs
      | (Inr wire, enc') \<Rightarrow> (case n of 0 \<Rightarrow> [] | Suc k \<Rightarrow> wire # mux_writer L enc' k fs))"

section \<open>Opening and associating\<close>

datatype mux_error = InvalidHost | ChannelClosed | NoReply | Rejected open_error

text \<open>Up to the request being queued. The outer option is the allocation loop.\<close>

definition open_tcp_begin ::
  "mux_inner \<Rightarrow> string \<Rightarrow> u16 \<Rightarrow> ((mux_error + u32) \<times> mux_inner \<times> mux_event list) option" where
  "open_tcp_begin m host port =
     (if host = [] \<or> length host > 255 then Some (Inl InvalidHost, m, [])
      else map_option (\<lambda>(sid, m1).
        let m2 = m1\<lparr>mx_sessions := AList.update sid True (mx_sessions m1),
                     mx_pending_open := AList.update sid () (mx_pending_open m1)\<rparr>
        in if mx_cmd_open m2 then (Inr sid, m2, [Command (out_frame_new Open 0 sid (encode_open host port))])
           else (Inl ChannelClosed,
                 m2\<lparr>mx_sessions := AList.delete sid (mx_sessions m2),
                     mx_pending_open := AList.delete sid (mx_pending_open m2)\<rparr>, [])) (alloc_sid m))"

text \<open>From the reply on; no reply is a timeout or the teardown of the channel.\<close>

fun open_tcp_finish :: "mux_inner \<Rightarrow> u32 \<Rightarrow> (open_error + unit) option \<Rightarrow> (mux_error + unit) \<times> mux_inner" where
  "open_tcp_finish m sid None =
     (Inl NoReply, m\<lparr>mx_sessions := AList.delete sid (mx_sessions m),
                      mx_pending_open := AList.delete sid (mx_pending_open m)\<rparr>)"
| "open_tcp_finish m sid (Some (Inl e)) =
     (Inl (Rejected e), m\<lparr>mx_sessions := AList.delete sid (mx_sessions m)\<rparr>)"
| "open_tcp_finish m sid (Some (Inr u)) = (Inr (), m)"

definition udp_associate_begin ::
  "mux_inner \<Rightarrow> ((mux_error + u32) \<times> mux_inner \<times> mux_event list) option" where
  "udp_associate_begin m =
     map_option (\<lambda>(sid, m1).
        let m2 = m1\<lparr>mx_udp := AList.update sid True (mx_udp m1),
                     mx_pending_udp := AList.update sid () (mx_pending_udp m1)\<rparr>
        in if mx_cmd_open m2 then (Inr sid, m2, [Command (out_frame_new UdpAssociate 0 sid [])])
           else (Inl ChannelClosed,
                 m2\<lparr>mx_udp := AList.delete sid (mx_udp m2),
                     mx_pending_udp := AList.delete sid (mx_pending_udp m2)\<rparr>, [])) (alloc_sid m)"

fun udp_associate_finish :: "mux_inner \<Rightarrow> u32 \<Rightarrow> (open_error + unit) option \<Rightarrow> (mux_error + unit) \<times> mux_inner" where
  "udp_associate_finish m sid None =
     (Inl NoReply, m\<lparr>mx_udp := AList.delete sid (mx_udp m),
                      mx_pending_udp := AList.delete sid (mx_pending_udp m)\<rparr>)"
| "udp_associate_finish m sid (Some (Inl e)) =
     (Inl (Rejected e), m\<lparr>mx_udp := AList.delete sid (mx_udp m)\<rparr>)"
| "udp_associate_finish m sid (Some (Inr u)) = (Inr (), m)"

section \<open>The pumps of a session\<close>

text \<open>
  From the user's stream to frames: the reads of the stream, where an empty read or the end of
  the list ends the loop, and the number \<open>n\<close> of commands the queue accepts before it is closed.
\<close>

fun user_to_frames :: "u32 \<Rightarrow> nat \<Rightarrow> bytes list \<Rightarrow> out_frame list" where
  "user_to_frames sid n [] = (if n = 0 then [] else [out_frame_new Close FLAG_FIN sid []])"
| "user_to_frames sid n (c # cs) =
     (if c = [] then user_to_frames sid n []
      else (case n of 0 \<Rightarrow> [] | Suc k \<Rightarrow> out_frame_new Data 0 sid c # user_to_frames sid k cs))"

datatype stream_op = Write bytes | Shutdown

text \<open>
  From frames to the user's stream, whose first \<open>n\<close> writes succeed: the payloads received so far, and whether the sending end of the queue, which the route holds, is gone. Until
  then the task waits for more.
\<close>

fun frames_to_user :: "bool \<Rightarrow> nat \<Rightarrow> bytes list \<Rightarrow> stream_op list" where
  "frames_to_user closed n [] = (if closed then [Shutdown] else [])"
| "frames_to_user closed n (d # ds) =
     (case n of 0 \<Rightarrow> [Shutdown] | Suc k \<Rightarrow> Write d # frames_to_user closed k ds)"

text \<open>From the user's datagrams to frames; at its end the task removes the route.\<close>

fun udp_to_frames :: "u32 \<Rightarrow> nat \<Rightarrow> (udp_addr \<times> bytes) list \<Rightarrow> out_frame list" where
  "udp_to_frames sid n [] = []"
| "udp_to_frames sid n ((dst, data) # ds) =
     (case n of 0 \<Rightarrow> []
      | Suc k \<Rightarrow> out_frame_new UdpData 0 sid (encode_with dst [] False @ data) # udp_to_frames sid k ds)"

definition udp_pump_end :: "mux_inner \<Rightarrow> u32 \<Rightarrow> mux_inner" where
  "udp_pump_end m sid = m\<lparr>mx_udp := AList.delete sid (mx_udp m)\<rparr>"

section \<open>Abstract view\<close>

text \<open>The answer to the request \<open>sid\<close> in a sequence of frames: the first one that settles it.\<close>

fun open_answer :: "u32 \<Rightarrow> frame list \<Rightarrow> (open_error + unit) option" where
  "open_answer sid [] = None"
| "open_answer sid (f # fs) =
     (if f_sid f = sid \<and> f_type f = OpenOk then Some (Inr ())
      else if f_sid f = sid \<and> (f_type f = OpenErr \<or> f_type f = Error)
      then Some (Inl (code_to_open_error (f_payload f)))
      else open_answer sid fs)"

definition reply_to :: "u32 \<Rightarrow> mux_event list \<Rightarrow> (open_error + unit) option" where
  "reply_to sid ev =
     (case List.map_filter (\<lambda>e. case e of Reply s r \<Rightarrow> if s = sid then Some r else None | _ \<Rightarrow> None) ev of
        [] \<Rightarrow> None | r # _ \<Rightarrow> Some r)"

definition out_msg :: "out_frame \<Rightarrow> msg" where
  "out_msg f = (of_type f, of_flags f, of_sid f, of_payload f)"

definition demo_open_ok :: frame where
  "demo_open_ok = \<lparr>f_type = OpenOk, f_flags = 0, f_sid = 4, f_counter = 1, f_aad = [], f_payload = []\<rparr>"

section \<open>Lemmas\<close>

lemma reply_to_simps [simp]:
  "reply_to sid [] = None"
  "reply_to sid (Reply s r # ev) = (if s = sid then Some r else reply_to sid ev)"
  "reply_to sid (Deliver s d # ev) = reply_to sid ev"
  "reply_to sid (DeliverUdp s u d # ev) = reply_to sid ev"
  "reply_to sid (Command c # ev) = reply_to sid ev"
  by (simp_all add: reply_to_def List.map_filter_def)

lemma reply_to_append:
  "reply_to sid (a @ b) = (case reply_to sid a of None \<Rightarrow> reply_to sid b | Some r \<Rightarrow> Some r)"
proof (induction a)
  case (Cons e a)
  then show ?case by (cases e) auto
qed simp

lemma dm_contains_delete: "dm_contains (AList.delete k m) j \<longleftrightarrow> j \<noteq> k \<and> dm_contains m j"
  by (auto simp: AList.delete_eq)

lemma dm_contains_update: "dm_contains (AList.update k v m) j \<longleftrightarrow> j = k \<or> dm_contains m j"
  by (simp add: dm_contains_def update_conv' del: dm_contains_iff)

lemma handle_client_pending:
  assumes "handle_client_frame m f = (stop, m', ev)"
    and "dm_contains (mx_pending_open m) sid" "\<not> dm_contains (mx_pending_udp m) sid"
  shows "\<not> stop" "reply_to sid ev = open_answer sid [f]"
    "dm_contains (mx_pending_open m') sid \<longleftrightarrow> open_answer sid [f] = None"
    "\<not> dm_contains (mx_pending_udp m') sid"
  using assms
  by (cases "f_type f"; auto simp: handle_client_frame_def resolve_pending_def drop_route_def Let_def
      dm_contains_delete simp del: dm_contains_iff split: if_splits option.splits prod.splits sum.splits)+

lemma handle_client_settled:
  assumes "handle_client_frame m f = (stop, m', ev)" "\<not> dm_contains (mx_pending_open m) sid"
  shows "\<not> dm_contains (mx_pending_open m') sid"
  using assms
  by (cases "f_type f") (auto simp: handle_client_frame_def resolve_pending_def drop_route_def Let_def
      dm_contains_delete simp del: dm_contains_iff split: if_splits option.splits prod.splits sum.splits)

lemma run_client_settled:
  "\<not> dm_contains (mx_pending_open m) sid \<Longrightarrow> \<not> dm_contains (mx_pending_open (fst (run_client_frames m fs))) sid"
proof (induction fs arbitrary: m)
  case (Cons f fs)
  obtain stop m1 ev where h: "handle_client_frame m f = (stop, m1, ev)" by (metis prod_cases3)
  show ?case
    using Cons.IH [of m1] handle_client_settled [OF h Cons.prems] by (simp add: h split_def Let_def del: dm_contains_iff)
qed simp

lemma run_client_pending:
  assumes "dm_contains (mx_pending_open m) sid" "\<not> dm_contains (mx_pending_udp m) sid"
  shows "reply_to sid (snd (run_client_frames m fs)) = open_answer sid fs \<and>
    (dm_contains (mx_pending_open (fst (run_client_frames m fs))) sid \<longleftrightarrow> open_answer sid fs = None)"
  using assms
proof (induction fs arbitrary: m)
  case Nil
  then show ?case by (simp del: dm_contains_iff)
next
  case (Cons f fs)
  obtain stop m1 ev where h: "handle_client_frame m f = (stop, m1, ev)" by (metis prod_cases3)
  note r = handle_client_pending [OF h Cons.prems]
  have step: "run_client_frames m (f # fs) = (fst (run_client_frames m1 fs), ev @ snd (run_client_frames m1 fs))"
    using r(1) by (simp add: h split_def Let_def)
  show ?case
  proof (cases "open_answer sid [f]")
    case None
    then have "open_answer sid (f # fs) = open_answer sid fs" by (auto split: if_splits)
    with None Cons.IH [of m1] r show ?thesis
      unfolding step by (simp add: reply_to_append del: dm_contains_iff open_answer.simps)
  next
    case (Some a)
    then have "open_answer sid (f # fs) = Some a" by (auto split: if_splits)
    with Some run_client_settled [of m1 sid fs] r show ?thesis
      unfolding step by (simp add: reply_to_append del: dm_contains_iff open_answer.simps)
  qed
qed

text \<open>No frame adds a route, and a frame with FIN removes the one of its session.\<close>

lemma handle_client_routes:
  assumes "handle_client_frame m f = (stop, m', ev)"
  shows "\<not> stop" "dm_contains (mx_sessions m') sid \<Longrightarrow> dm_contains (mx_sessions m) sid"
    "f_type f = Data \<Longrightarrow> f_flags f AND FLAG_FIN \<noteq> 0 \<Longrightarrow> \<not> dm_contains (mx_sessions m') (f_sid f)"
  using assms
  by (cases "f_type f"; auto simp: handle_client_frame_def resolve_pending_def drop_route_def Let_def
      dm_contains_delete simp del: dm_contains_iff split: if_splits option.splits prod.splits sum.splits)+

lemma run_client_step:
  assumes "handle_client_frame m f = (stop, m1, ev)"
  shows "run_client_frames m (f # fs) = (fst (run_client_frames m1 fs), ev @ snd (run_client_frames m1 fs))"
  using handle_client_routes(1) [OF assms] assms by (simp add: split_def Let_def)

lemma run_client_routes: "dm_contains (mx_sessions (fst (run_client_frames m fs))) sid \<Longrightarrow> dm_contains (mx_sessions m) sid"
proof (induction fs arbitrary: m)
  case (Cons f fs)
  obtain stop m1 ev where h: "handle_client_frame m f = (stop, m1, ev)" by (metis prod_cases3)
  show ?case using Cons handle_client_routes(2) [OF h] unfolding run_client_step [OF h] by (simp del: dm_contains_iff)
qed simp

lemma fin_drops_route:
  assumes "f \<in> set fs" "f_type f = Data" "f_flags f AND FLAG_FIN \<noteq> 0"
  shows "\<not> dm_contains (mx_sessions (fst (run_client_frames m fs))) (f_sid f)"
  using assms(1)
proof (induction fs arbitrary: m)
  case (Cons g fs)
  obtain stop m1 ev where h: "handle_client_frame m g = (stop, m1, ev)" by (metis prod_cases3)
  show ?case
  proof (cases "g = f")
    case True
    then show ?thesis
      using handle_client_routes(3) [OF h] assms(2,3) run_client_routes [of m1 fs "f_sid f"] unfolding run_client_step [OF h]
      by (auto simp del: dm_contains_iff)
  next
    case False
    with Cons show ?thesis unfolding run_client_step [OF h] by (simp del: dm_contains_iff)
  qed
qed simp

lemma frames_to_user_all:
  "length ds < n \<Longrightarrow> frames_to_user closed n (ds @ [d]) = map Write (ds @ [d]) @ (if closed then [Shutdown] else [])"
  by (induction ds arbitrary: n) (auto split: nat.split)

lemma alloc_sid_keeps:
  assumes "alloc_sid m = Some (v, n)"
  shows "\<exists>k. n = m\<lparr>mx_next_sid := k\<rparr>"
proof -
  have "\<exists>k. snd (v, n) = m\<lparr>mx_next_sid := k\<rparr>"
  proof (rule alloc_sid.raw_induct [OF _ assms, where P = "\<lambda>m r. \<exists>k. snd r = m\<lparr>mx_next_sid := k\<rparr>"])
    fix alloc m r
    assume IH: "\<And>m r. alloc m = Some r \<Longrightarrow> \<exists>k. snd r = m\<lparr>mx_next_sid := k\<rparr>"
      and r: "(let v = mx_next_sid m; m' = m\<lparr>mx_next_sid := v + 1\<rparr> in
        if v \<noteq> 0 \<and> \<not> dm_contains (mx_sessions m') v \<and> \<not> dm_contains (mx_udp m') v then Some (v, m')
        else alloc m') = Some r"
    from r show "\<exists>k. snd r = m\<lparr>mx_next_sid := k\<rparr>"
      by (auto simp: Let_def split: if_splits dest!: IH)
  qed
  then show ?thesis by simp
qed

lemma user_to_frames_all:
  "[] \<notin> set cs \<Longrightarrow> length cs < n \<Longrightarrow>
   user_to_frames sid n cs = map (out_frame_new Data 0 sid) cs @ [out_frame_new Close FLAG_FIN sid []]"
  by (induction cs arbitrary: n) (auto split: nat.split)

lemma mux_writer_wire:
  assumes "aead_total L" "enc_limit e \<le> MAX_PLAINTEXT_CAP"
    and "list_all (\<lambda>f. length (of_payload f) \<le> enc_limit e) fs" "length fs \<le> n"
  obtains fws where "mux_writer L e n fs = map snd fws" "map (msg_of \<circ> fst) fws = map out_msg fs"
    "\<forall>(f, w)\<in>set fws. wire_frame L (enc_cipher e) (enc_limit e) f w"
  using assms(2-)
proof (induction fs arbitrary: e n thesis)
  case Nil
  show ?case by (rule Nil.prems(1) [of "[]"]) auto
next
  case (Cons g fs)
  have "length (of_payload g) \<le> enc_limit e" using Cons.prems(3) by simp
  then obtain e' w where enc: "encode_into L e (of_type g) (of_flags g) (of_sid g) (of_payload g) [] = (Inr (), e', w)"
    using encode_into_total assms(1) Cons.prems(2) by metis
  obtain f where f: "wire_frame L (enc_cipher e) (enc_limit e) f w" "msg_of f = out_msg g"
    and e': "enc_cipher e' = enc_cipher e" "enc_limit e' = enc_limit e"
    using encode_into_ok [OF enc Cons.prems(2)] by (auto simp: out_msg_def)
  obtain k where k: "n = Suc k" "length fs \<le> k" using Cons.prems(4) by (cases n) auto
  have "enc_limit e' \<le> MAX_PLAINTEXT_CAP" "list_all (\<lambda>f. length (of_payload f) \<le> enc_limit e') fs"
    using Cons.prems(2,3) e' by auto
  then obtain fws where "mux_writer L e' k fs = map snd fws" "map (msg_of \<circ> fst) fws = map out_msg fs"
    "\<forall>(f, w)\<in>set fws. wire_frame L (enc_cipher e) (enc_limit e) f w"
    using Cons.IH [of e' k] k(2) unfolding e' by blast
  then show ?case
    using enc f k(1) by (intro Cons.prems(1) [of "(f, w) # fws"]) (auto simp: encode_def comp_def)
qed

section \<open>Properties\<close>

text \<open>
  C15. Opening a TCP session over the multiplexer. The request is queued under the allocated identifier;
  the call succeeds exactly when the first frame that answers that identifier is an OPEN-OK; when it
  fails, because of an error answer, a timeout or the end of the channel, neither a route nor a
  pending request is left behind.
\<close>

theorem open_tcp_outcome:
  assumes "open_tcp_begin m host port = Some (Inr sid, m1, ev)"
    and "\<not> dm_contains (mx_pending_udp m) sid"
    and "run_client_frames m1 fs = (m2, ev2)"
    and "open_tcp_finish m2 sid (reply_to sid ev2) = (r, m3)"
  shows "ev = [Command (out_frame_new Open 0 sid (encode_open host port))] \<and>
    (r = Inr () \<longleftrightarrow> open_answer sid fs = Some (Inr ())) \<and>
    (r \<noteq> Inr () \<longrightarrow> \<not> dm_contains (mx_sessions m3) sid \<and> \<not> dm_contains (mx_pending_open m3) sid)"
proof -
  obtain n where n: "alloc_sid m = Some (sid, n)" and m1: "m1 = n\<lparr>mx_sessions := AList.update sid True (mx_sessions n),
      mx_pending_open := AList.update sid () (mx_pending_open n)\<rparr>"
    and ev: "ev = [Command (out_frame_new Open 0 sid (encode_open host port))]"
    using assms(1) by (auto simp: open_tcp_begin_def Let_def split: if_splits)
  have "dm_contains (mx_pending_open m1) sid" "\<not> dm_contains (mx_pending_udp m1) sid"
    using alloc_sid_keeps [OF n] assms(2) by (auto simp: m1 dm_contains_update simp del: dm_contains_iff)
  from run_client_pending [OF this, of fs] assms(3)
  have p: "reply_to sid ev2 = open_answer sid fs" "dm_contains (mx_pending_open m2) sid \<longleftrightarrow> open_answer sid fs = None"
    by simp_all
  show ?thesis
  proof (cases "(m2, sid, open_answer sid fs)" rule: open_tcp_finish.cases)
    case (1 m sid)
    with assms(4) p ev show ?thesis by (auto simp: dm_contains_delete simp del: dm_contains_iff)
  next
    case (2 m sid e)
    with assms(4) p ev show ?thesis by (auto simp: dm_contains_delete simp del: dm_contains_iff)
  next
    case (3 m sid u)
    with assms(4) p ev show ?thesis by (auto simp del: dm_contains_iff)
  qed
qed

theorem open_tcp_outcome_witness:
  "\<exists>m1 ev m2 ev2. open_tcp_begin demo_mux ''a.example'' 80 = Some (Inr 4, m1, ev) \<and>
     run_client_frames m1 [demo_data 1 0 [9], demo_open_ok] = (m2, ev2) \<and>
     fst (open_tcp_finish m2 4 (reply_to 4 ev2)) = Inr ()"
proof -
  have a: "alloc_sid demo_mux = Some (4, demo_mux\<lparr>mx_next_sid := 5\<rparr>)"
    by (simp add: alloc_sid.simps demo_mux_def)
  obtain m1 ev where b: "open_tcp_begin demo_mux ''a.example'' 80 = Some (Inr 4, m1, ev)"
    by (simp add: open_tcp_begin_def a) (simp add: demo_mux_def)
  obtain m2 ev2 where r: "run_client_frames m1 [demo_data 1 0 [9], demo_open_ok] = (m2, ev2)"
    by (metis surj_pair)
  obtain res m3 where f: "open_tcp_finish m2 4 (reply_to 4 ev2) = (res, m3)" by (metis surj_pair)
  have "\<not> dm_contains (mx_pending_udp demo_mux) 4" by (simp add: demo_mux_def)
  from open_tcp_outcome [OF b this r f] have "res = Inr ()"
    by (simp add: demo_data_def demo_open_ok_def)
  with b r f show ?thesis by auto
qed

text \<open>
  C7. The tunnel keeps the byte stream. What a user writes to an open session, read in chunks of at
  most 16 KiB, is framed, encrypted and written to the request body; a reader with the
  session key and the same limit gets, however the body is cut into pieces on the way, the same chunks in
  the same order under the session's identifier, then the half-close, then the end of the stream.
\<close>

theorem tcp_stream_preserved:
  assumes "aead_ok L" "aead_total L" "MAX_PLAINTEXT \<le> enc_limit e" "enc_limit e \<le> MAX_PLAINTEXT_CAP"
    and "list_all (\<lambda>c. c \<noteq> [] \<and> length c \<le> MAX_PLAINTEXT) chunks" "length chunks < n"
    and "concat pieces = concat (mux_writer L e n (user_to_frames sid n chunks))" "[] \<notin> set pieces"
  shows "drain L (length chunks + 2) (frame_decoder_new (Some (enc_cipher e)) None (enc_limit e)) (map Inr pieces) =
           map (\<lambda>c. Inr (Some (Data, 0, sid, c))) chunks @ [Inr (Some (Close, FLAG_FIN, sid, [])), Inr None]"
proof -
  let ?fs = "map (out_frame_new Data 0 sid) chunks @ [out_frame_new Close FLAG_FIN sid []]"
  have u: "user_to_frames sid n chunks = ?fs"
    using assms(5,6) by (intro user_to_frames_all) (auto simp: list_all_iff)
  have small: "list_all (\<lambda>f. length (of_payload f) \<le> enc_limit e) ?fs" "length ?fs \<le> n"
    using assms(3,5,6) by (auto simp: list_all_iff out_frame_new_def)
  obtain fws where w: "mux_writer L e n ?fs = map snd fws" "map (msg_of \<circ> fst) fws = map out_msg ?fs"
    "\<forall>(f, w)\<in>set fws. wire_frame L (enc_cipher e) (enc_limit e) f w"
    by (rule mux_writer_wire [OF assms(2,4) small])
  have len: "length fws = length chunks + 1"
    using arg_cong [OF w(2), of length] by simp
  have "drain L (Suc (length fws)) (frame_decoder_new (Some (enc_cipher e)) None (enc_limit e)) (map Inr pieces) =
      map (Inr \<circ> Some \<circ> msg_of \<circ> fst) fws @ [Inr None]"
    by (rule drain_wire [OF assms(1) w(3)])
      (use assms(7,8) in \<open>simp_all add: reads_def frame_decoder_new_def u w(1)\<close>)
  moreover have "map (Inr \<circ> Some \<circ> msg_of \<circ> fst) fws = map (Inr \<circ> Some) (map out_msg ?fs)"
    unfolding w(2) [symmetric] by simp
  ultimately show ?thesis
    by (simp add: len out_msg_def out_frame_new_def comp_def)
qed

theorem tcp_stream_preserved_witness:
  "drain demo_lib 4 (frame_decoder_new (Some (enc_cipher demo_encoder)) None (enc_limit demo_encoder))
     (map (\<lambda>b. Inr [b]) (concat (mux_writer demo_lib demo_encoder 9 (user_to_frames 4 9 [[1, 2], [3]])))) =
   [Inr (Some (Data, 0, 4, [1, 2])), Inr (Some (Data, 0, 4, [3])), Inr (Some (Close, FLAG_FIN, 4, [])), Inr None]"
proof -
  let ?pieces = "map (\<lambda>b. [b]) (concat (mux_writer demo_lib demo_encoder 9 (user_to_frames 4 9 [[1, 2], [3]])))"
  have s: "concat (map (\<lambda>b. [b]) xs) = xs" "[] \<notin> set (map (\<lambda>b. [b]) xs)" for xs :: bytes
    by (induction xs) auto
  have "MAX_PLAINTEXT \<le> enc_limit demo_encoder" "enc_limit demo_encoder \<le> MAX_PLAINTEXT_CAP"
    "list_all (\<lambda>c. c \<noteq> [] \<and> length c \<le> MAX_PLAINTEXT) [[1, 2], [3 :: u8]]" "length [[1, 2], [3 :: u8]] < 9"
    by (simp_all add: demo_encoder_def frame_encoder_new_def const_defs)
  from tcp_stream_preserved [OF demo_lib_ok(1,2) this s, of 4]
  show ?thesis
    by (simp add: comp_def eval_nat_numeral del: drain.simps mux_writer.simps user_to_frames.simps)
qed

end
