(* ===== verification/Session_Quota.thy ===== *)
theory Session_Quota
  imports Server_State
begin

text \<open>
  The global session quota under concurrency. Every admission (\<open>Hooks::admit\<close> and
  \<open>Hooks::udp_associate\<close> of \<open>src/server/hub.rs\<close>, and \<open>handle_wt_stream\<close>) checks the
  connection, acquires the quota by a compare-exchange loop, and registers the session; every
  teardown removes the handle and then releases. The load, the compare-exchange, the registration, the removal and the
  release are one atomic action of a task each, and tasks interleave freely.
\<close>

datatype quota_pc = Checked u64 u32 | Loaded u64 u32 u64 | Acquired u64 u32 | Releasing

text \<open>One atomic action. \<open>tok\<close> is the child token of the connection.\<close>

fun quota_advance ::
  "millis \<Rightarrow> token \<Rightarrow> server_state \<Rightarrow> quota_pc \<Rightarrow> quota_pc option \<times> server_state" where
  "quota_advance now tok st (Checked cid sid) =
     (let cur = st_active_sessions st in
      if cur \<ge> of_nat (st_max_sessions st) then (None, st) else (Some (Loaded cid sid cur), st))"
| "quota_advance now tok st (Loaded cid sid cur) =
     (if st_active_sessions st = cur
      then (Some (Acquired cid sid), st\<lparr>st_active_sessions := cur + 1\<rparr>)
      else (Some (Checked cid sid), st))"
| "quota_advance now tok st (Acquired cid sid) =
     (case map_of (st_heap st) cid of
        None \<Rightarrow> (Some Releasing, st)
      | Some c \<Rightarrow>
          let (h, c') = try_register_with now c sid tok;
              st' = st\<lparr>st_heap := AList.update cid c' (st_heap st)\<rparr>
          in (if h = None then Some Releasing else None, st'))"
| "quota_advance now tok st Releasing = (None, release_session st)"

type_synonym quota_state = "server_state \<times> quota_pc multiset"

inductive quota_step :: "quota_state \<Rightarrow> quota_state \<Rightarrow> bool" where
  check: "map_of (st_heap st) cid = Some c \<Longrightarrow> \<not> dm_contains (cs_sessions c) sid \<Longrightarrow>
    session_count c < cs_max_per_conn c \<Longrightarrow> quota_step (st, P) (st, P + {#Checked cid sid#})"
| advance: "pc \<in># P \<Longrightarrow> quota_advance now tok st pc = (nxt, st') \<Longrightarrow>
    quota_step (st, P) (st', P - {#pc#} + (case nxt of None \<Rightarrow> {#} | Some pc' \<Rightarrow> {#pc'#}))"
| drop: "map_of (st_heap st) cid = Some c \<Longrightarrow> drop_session c sid = (removed, c', ts) \<Longrightarrow>
    quota_step (st, P) (st\<lparr>st_heap := AList.update cid c' (st_heap st)\<rparr>,
                        P + (if removed then {#Releasing#} else {#}))"
| touch: "map_of (st_heap st) cid = Some c \<Longrightarrow>
    quota_step (st, P) (st\<lparr>st_heap := AList.update cid (conn_touch now c sid) (st_heap st)\<rparr>, P)"

section \<open>Abstract view\<close>

fun holds_slot :: "quota_pc \<Rightarrow> bool" where
  "holds_slot (Acquired cid sid) = True"
| "holds_slot Releasing = True"
| "holds_slot _ = False"

definition slots :: "quota_pc multiset \<Rightarrow> nat" where
  "slots P = size (filter_mset holds_slot P)"

definition load_below :: "server_state \<Rightarrow> quota_pc \<Rightarrow> bool" where
  "load_below st pc \<longleftrightarrow> (case pc of Loaded cid sid cur \<Rightarrow> unat cur < st_max_sessions st | _ \<Rightarrow> True)"

definition quota_inv :: "quota_state \<Rightarrow> bool" where
  "quota_inv s \<longleftrightarrow>
     (case s of (st, P) \<Rightarrow>
        heap_ok st \<and> unat (st_active_sessions st) = registered st + slots P \<and>
        unat (st_active_sessions st) \<le> st_max_sessions st \<and> (\<forall>pc. pc \<in># P \<longrightarrow> load_below st pc))"

section \<open>Lemmas\<close>

lemma slots_simps [simp]:
  "slots {#} = 0" "slots (P + Q) = slots P + slots Q"
  "slots (add_mset pc P) = (if holds_slot pc then Suc (slots P) else slots P)"
  by (simp_all add: slots_def)

lemma slots_remove: "pc \<in># P \<Longrightarrow> slots (P - {#pc#}) + (if holds_slot pc then 1 else 0) = slots P"
  using size_filter_remove [of pc P holds_slot] size_filter_pos [of pc P holds_slot]
  by (auto simp: slots_def)

lemma try_register_count:
  assumes "try_register_with now c sid tok = (h, c')" "conn_ok c"
  shows "session_count c' = session_count c + (if h = None then 0 else 1)" "conn_ok c'"
  using assms
  by (auto simp: try_register_with_def Let_def session_count_def conn_ok_def length_dm_insert
      split: if_splits)

lemma conn_touch_count:
  assumes "conn_ok c"
  shows "session_count (conn_touch now c sid) = session_count c" "conn_ok (conn_touch now c sid)"
proof -
  have "map_of m k = Some v \<Longrightarrow> length (AList.update k v' m) = length m" for m :: "(u32, session_handle) dmap" and k v v'
    by (induction m) auto
  then show "session_count (conn_touch now c sid) = session_count c"
    by (auto simp: conn_touch_def session_count_def Let_def split: option.splits)
  show "conn_ok (conn_touch now c sid)"
    using assms by (auto simp: conn_touch_def conn_ok_def Let_def split: option.splits)
qed

lemma load_below_simps [simp]:
  "load_below st (Checked cid sid)" "load_below st (Acquired cid sid)" "load_below st Releasing"
  "load_below st (Loaded cid sid cur) \<longleftrightarrow> unat cur < st_max_sessions st"
  by (simp_all add: load_below_def)

lemma load_below_same: "st_max_sessions st' = st_max_sessions st \<Longrightarrow> load_below st' pc = load_below st pc"
  by (cases pc) simp_all

lemma in_next: "q \<in># P - {#pc#} + (case nxt of None \<Rightarrow> {#} | Some pc' \<Rightarrow> {#pc'#}) \<Longrightarrow> q \<in># P \<or> nxt = Some q"
  by (auto split: option.splits dest: in_diffD)

lemma slots_next:
  "pc \<in># P \<Longrightarrow>
   slots (P - {#pc#} + (case nxt of None \<Rightarrow> {#} | Some pc' \<Rightarrow> {#pc'#})) + (if holds_slot pc then 1 else 0) =
   slots P + (case nxt of None \<Rightarrow> 0 | Some pc' \<Rightarrow> if holds_slot pc' then 1 else 0)"
  using slots_remove [of pc P] by (auto split: option.splits)

lemma quota_heap_step:
  assumes "quota_inv (st, P)" "map_of (st_heap st) cid = Some c" "conn_ok c'"
    and "session_count c' + slots Q = session_count c + slots P"
    and "\<forall>pc. pc \<in># Q \<longrightarrow> pc \<in># P \<or> load_below st pc"
  shows "quota_inv (st\<lparr>st_heap := AList.update cid c' (st_heap st)\<rparr>, Q)"
proof -
  define st1 where "st1 = st\<lparr>st_heap := AList.update cid c' (st_heap st)\<rparr>"
  have f: "st_heap st1 = AList.update cid c' (st_heap st)" "st_max_sessions st1 = st_max_sessions st"
    "st_active_sessions st1 = st_active_sessions st"
    by (simp_all add: st1_def)
  have inv: "heap_ok st" "unat (st_active_sessions st) = registered st + slots P"
    "unat (st_active_sessions st) \<le> st_max_sessions st" "\<forall>pc. pc \<in># P \<longrightarrow> load_below st pc"
    using assms(1) unfolding quota_inv_def by auto
  have "registered st1 + session_count c = registered st + session_count c'"
    by (rule registered_update [OF assms(2) f(1)])
  then have "registered st1 + slots Q = registered st + slots P" using assms(4) by linarith
  moreover have "heap_ok st1"
    by (rule heap_ok_update [OF inv(1) assms(3) f(1,2)])
  moreover have "\<forall>pc. pc \<in># Q \<longrightarrow> load_below st1 pc"
    using assms(5) inv(4) load_below_same [OF f(2)] by blast
  ultimately have "quota_inv (st1, Q)"
    using inv(2,3) f(2,3) by (simp add: quota_inv_def)
  then show ?thesis by (simp add: st1_def)
qed

lemma quota_counter_step:
  assumes "quota_inv (st, P)" "unat n + slots P = unat (st_active_sessions st) + slots Q"
    and "unat n \<le> st_max_sessions st" "\<forall>pc. pc \<in># Q \<longrightarrow> pc \<in># P \<or> load_below st pc"
  shows "quota_inv (st\<lparr>st_active_sessions := n\<rparr>, Q)"
  using assms load_below_same [of "st\<lparr>st_active_sessions := n\<rparr>" st]
  by (auto simp: quota_inv_def heap_ok_def registered_def)

lemma quota_same_step:
  assumes "quota_inv (st, P)" "slots Q = slots P" "\<forall>pc. pc \<in># Q \<longrightarrow> pc \<in># P \<or> load_below st pc"
  shows "quota_inv (st, Q)"
  using assms by (auto simp: quota_inv_def)

lemma max_word:
  "quota_inv (st, P) \<Longrightarrow> unat (of_nat (st_max_sessions st) :: u64) = st_max_sessions st"
  by (simp add: quota_inv_def heap_ok_def unat_of_nat take_bit_nat_eq_self_iff)

lemma quota_advance_inv:
  assumes inv: "quota_inv (st, P)" and pc: "pc \<in># P" and adv: "quota_advance now tok st pc = (nxt, st')"
  shows "quota_inv (st', P - {#pc#} + (case nxt of None \<Rightarrow> {#} | Some pc' \<Rightarrow> {#pc'#}))"
    (is "quota_inv (st', ?Q)")
proof -
  note sl = slots_next [OF pc, of nxt]
  have q: "\<forall>q. q \<in># ?Q \<longrightarrow> q \<in># P \<or> load_below st q" if "\<And>q. nxt = Some q \<Longrightarrow> load_below st q"
  proof (intro allI impI)
    fix q
    assume "q \<in># ?Q"
    then show "q \<in># P \<or> load_below st q" using in_next [of q P pc nxt] that by auto
  qed
  show ?thesis
  proof (cases pc)
    case (Checked cid sid)
    then have "st' = st" "\<And>q. nxt = Some q \<Longrightarrow> load_below st q \<and> \<not> holds_slot q"
      using adv max_word [OF inv] by (auto simp: Let_def word_le_nat_alt split: if_splits)
    moreover from this(2) have "slots ?Q = slots P"
      using sl Checked by (cases nxt) simp_all
    ultimately show ?thesis
      using q by (simp add: quota_same_step [OF inv])
  next
    case (Loaded cid sid cur)
    have cur: "unat cur < st_max_sessions st"
      using inv pc Loaded by (auto simp: quota_inv_def)
    show ?thesis
    proof (cases "st_active_sessions st = cur")
      case True
      have "cur < of_nat (st_max_sessions st)"
        using cur max_word [OF inv] by (simp add: word_less_nat_alt)
      then have "unat (cur + 1) = Suc (unat cur)" by (rule unat_inc)
      moreover have "st' = st\<lparr>st_active_sessions := cur + 1\<rparr>" "nxt = Some (Acquired cid sid)"
        using adv Loaded True by auto
      ultimately show ?thesis
        using Loaded True cur sl q by (simp add: quota_counter_step [OF inv])
    next
      case False
      then have "st' = st" "nxt = Some (Checked cid sid)" using adv Loaded by auto
      then show ?thesis
        using Loaded sl q by (simp add: quota_same_step [OF inv])
    qed
  next
    case (Acquired cid sid)
    show ?thesis
    proof (cases "map_of (st_heap st) cid")
      case None
      then have "st' = st" "nxt = Some Releasing" using adv Acquired by auto
      then show ?thesis
        using Acquired sl q by (simp add: quota_same_step [OF inv])
    next
      case (Some c)
      obtain h c' where r: "try_register_with now c sid tok = (h, c')" by fastforce
      have "conn_ok c" using inv Some heap_conn_ok by (auto simp: quota_inv_def)
      note rc = try_register_count [OF r this]
      have st': "st' = st\<lparr>st_heap := AList.update cid c' (st_heap st)\<rparr>"
        and nxt: "nxt = (if h = None then Some Releasing else None)"
        using adv Acquired Some r by auto
      have "session_count c' + slots ?Q = session_count c + slots P"
        using rc(1) sl nxt Acquired by (auto split: if_splits)
      moreover have "\<forall>q. q \<in># ?Q \<longrightarrow> q \<in># P \<or> load_below st q"
        by (rule q) (simp add: nxt split: if_splits)
      ultimately show ?thesis
        unfolding st' using rc(2) by (intro quota_heap_step [OF inv Some])
    qed
  next
    case Releasing
    have "slots P \<noteq> 0" using slots_remove [OF pc] Releasing by simp
    then have nz: "st_active_sessions st \<noteq> 0" using inv by (auto simp: quota_inv_def)
    then have "0 < unat (st_active_sessions st)" by (simp add: unat_gt_0)
    moreover have "unat (st_active_sessions st) \<le> st_max_sessions st"
      using inv by (simp add: quota_inv_def)
    moreover have "st' = st\<lparr>st_active_sessions := st_active_sessions st - 1\<rparr>" "nxt = None"
      using adv Releasing by (auto simp: release_session_def)
    ultimately show ?thesis
      using Releasing sl q unat_dec [OF nz] by (simp add: quota_counter_step [OF inv])
  qed
qed

text \<open>A new connection has no sessions.\<close>

lemma quota_connect:
  assumes "quota_inv (st, P)" "cid \<notin> fst ` set (st_heap st)" "cs_sessions c = []" "conn_ok c"
    and f: "st_heap st1 = AList.update cid c (st_heap st)" "st_max_sessions st1 = st_max_sessions st"
      "st_active_sessions st1 = st_active_sessions st"
  shows "quota_inv (st1, P)"
proof -
  have inv: "heap_ok st" "unat (st_active_sessions st) = registered st + slots P"
    "unat (st_active_sessions st) \<le> st_max_sessions st" "\<forall>pc. pc \<in># P \<longrightarrow> load_below st pc"
    using assms(1) unfolding quota_inv_def by auto
  have "registered st1 = registered st"
    using assms(3) sum_dm_insert [OF assms(2), of session_count c] f(1)
    by (simp add: registered_def session_count_def)
  moreover have "heap_ok st1" by (rule heap_ok_update [OF inv(1) assms(4) f(1,2)])
  moreover have "\<forall>pc. pc \<in># P \<longrightarrow> load_below st1 pc"
    using inv(4) load_below_same [OF f(2)] by blast
  ultimately show ?thesis using inv(2,3) f(2,3) by (simp add: quota_inv_def)
qed

lemma quota_step_inv:
  assumes "quota_inv s" "quota_step s t"
  shows "quota_inv t"
  using assms(2)
proof cases
  case (check st cid c sid P)
  then have "quota_inv (st, P)" using assms(1) by simp
  then show ?thesis unfolding check(2) by (rule quota_same_step) auto
next
  case (advance pc P now tok st nxt st')
  then show ?thesis using quota_advance_inv assms(1) by simp
next
  case (drop st cid c sid removed c' ts P)
  have inv: "quota_inv (st, P)" using assms(1) drop(1) by simp
  then have c: "conn_ok c" using heap_conn_ok [OF _ drop(3)] by (simp add: quota_inv_def)
  show ?thesis
    unfolding drop(2) drop_session_eq(1,2) [OF drop(4)]
    using session_count_without [OF c, of sid] c
    by (intro quota_heap_step [OF inv drop(3)]) (auto split: if_splits)
next
  case (touch st cid c P now sid)
  have inv: "quota_inv (st, P)" using assms(1) touch(1) by simp
  then have c: "conn_ok c" using heap_conn_ok [OF _ touch(3)] by (simp add: quota_inv_def)
  show ?thesis
    unfolding touch(2) using conn_touch_count [OF c]
    by (intro quota_heap_step [OF inv touch(3)]) auto
qed

text \<open>A run that admits session 9 on a connection with two sessions.\<close>

lemma quota_demo_run:
  "quota_step\<^sup>*\<^sup>* (demo_server, {#}) (demo_server\<lparr>st_active_sessions := 3\<rparr>, {#Acquired 1 9#})"
proof -
  have "quota_step\<^sup>*\<^sup>* (demo_server, {#}) (demo_server, {#Checked 1 9#})"
    using quota_step.check [of demo_server 1 demo_conn 9 "{#}"]
    by (intro r_into_rtranclp) (simp add: demo_server_def demo_conn_def session_count_def)
  also have "quota_step\<^sup>*\<^sup>* (demo_server, {#Checked 1 9#}) (demo_server, {#Loaded 1 9 2#})"
    using quota_step.advance [of "Checked 1 9" "{#Checked 1 9#}" 0 0 demo_server "Some (Loaded 1 9 2)"]
    by (intro r_into_rtranclp) (simp add: demo_server_def)
  also have "quota_step\<^sup>*\<^sup>* (demo_server, {#Loaded 1 9 2#})
      (demo_server\<lparr>st_active_sessions := 3\<rparr>, {#Acquired 1 9#})"
    using quota_step.advance [of "Loaded 1 9 2" "{#Loaded 1 9 2#}" 0 0 demo_server "Some (Acquired 1 9)"]
    by (intro r_into_rtranclp) (simp add: demo_server_def)
  finally show ?thesis .
qed

section \<open>The limit per connection\<close>

text \<open>
  The test against \<open>max_per_conn\<close> and the registration are two actions: two admissions that
  interleave both pass the test, and the connection ends with more sessions than its limit.
\<close>

definition capped_server :: server_state where
  "capped_server = demo_server\<lparr>st_heap := [(1, demo_conn\<lparr>cs_max_per_conn := 3\<rparr>)]\<rparr>"

lemma run_one:
  assumes "quota_step s t" "quota_step\<^sup>*\<^sup>* t u"
  shows "quota_step\<^sup>*\<^sup>* s u"
  using assms by (rule converse_rtranclp_into_rtranclp)

lemma per_conn_limit_overshoot:
  "\<exists>st c. quota_step\<^sup>*\<^sup>* (capped_server, {#}) (st, {#}) \<and> map_of (st_heap st) 1 = Some c \<and>
          session_count c = 4 \<and> cs_max_per_conn c = 3"
proof -
  let ?c = "demo_conn\<lparr>cs_max_per_conn := 3\<rparr>"
  let ?reg = "\<lambda>sid c. snd (try_register_with 0 c sid 0)"
  let ?srv = "\<lambda>n c. capped_server\<lparr>st_active_sessions := n, st_heap := [(1, c)]\<rparr>"
  let ?c1 = "?reg 9 ?c" and ?c2 = "?reg 10 (?reg 9 ?c)"
  have s0: "capped_server = ?srv 2 ?c" by (simp add: capped_server_def demo_server_def)
  have "quota_step (?srv 2 ?c, {#}) (?srv 2 ?c, {#Checked 1 9#})"
    using quota_step.check [of "?srv 2 ?c" 1 ?c 9 "{#}"] by (simp add: demo_conn_def session_count_def)
  moreover have "quota_step (?srv 2 ?c, {#Checked 1 9#}) (?srv 2 ?c, {#Checked 1 9, Checked 1 10#})"
    using quota_step.check [of "?srv 2 ?c" 1 ?c 10 "{#Checked 1 9#}"]
    by (simp add: demo_conn_def session_count_def add_mset_commute)
  moreover have "quota_step (?srv 2 ?c, {#Checked 1 9, Checked 1 10#}) (?srv 2 ?c, {#Loaded 1 9 2, Checked 1 10#})"
    using quota_step.advance [of "Checked 1 9" "{#Checked 1 9, Checked 1 10#}" 0 0 "?srv 2 ?c" "Some (Loaded 1 9 2)" "?srv 2 ?c"]
    by (simp add: capped_server_def demo_server_def)
  moreover have "quota_step (?srv 2 ?c, {#Loaded 1 9 2, Checked 1 10#}) (?srv 3 ?c, {#Acquired 1 9, Checked 1 10#})"
    using quota_step.advance [of "Loaded 1 9 2" "{#Loaded 1 9 2, Checked 1 10#}" 0 0 "?srv 2 ?c" "Some (Acquired 1 9)" "?srv 3 ?c"]
    by simp
  moreover have "quota_step (?srv 3 ?c, {#Acquired 1 9, Checked 1 10#}) (?srv 3 ?c1, {#Checked 1 10#})"
    using quota_step.advance [of "Acquired 1 9" "{#Acquired 1 9, Checked 1 10#}" 0 0 "?srv 3 ?c" None "?srv 3 ?c1"]
    by (simp add: try_register_with_def demo_conn_def Let_def)
  moreover have "quota_step (?srv 3 ?c1, {#Checked 1 10#}) (?srv 3 ?c1, {#Loaded 1 10 3#})"
    using quota_step.advance [of "Checked 1 10" "{#Checked 1 10#}" 0 0 "?srv 3 ?c1" "Some (Loaded 1 10 3)" "?srv 3 ?c1"]
    by (simp add: capped_server_def demo_server_def)
  moreover have "quota_step (?srv 3 ?c1, {#Loaded 1 10 3#}) (?srv 4 ?c1, {#Acquired 1 10#})"
    using quota_step.advance [of "Loaded 1 10 3" "{#Loaded 1 10 3#}" 0 0 "?srv 3 ?c1" "Some (Acquired 1 10)" "?srv 4 ?c1"]
    by simp
  moreover have "quota_step (?srv 4 ?c1, {#Acquired 1 10#}) (?srv 4 ?c2, {#})"
    using quota_step.advance [of "Acquired 1 10" "{#Acquired 1 10#}" 0 0 "?srv 4 ?c1" None "?srv 4 ?c2"]
    by (simp add: try_register_with_def demo_conn_def Let_def)
  ultimately have "quota_step\<^sup>*\<^sup>* (?srv 2 ?c, {#}) (?srv 4 ?c2, {#})"
    by (metis (no_types, lifting) run_one rtranclp.rtrancl_refl)
  then have "quota_step\<^sup>*\<^sup>* (capped_server, {#}) (?srv 4 ?c2, {#})" by (subst s0)
  then show ?thesis
    by (intro exI [of _ "?srv 4 ?c2"] exI [of _ ?c2])
      (simp add: try_register_with_def demo_conn_def session_count_def Let_def)
qed

end
