(* ===== verification/Hub.thy ===== *)
theory Hub
  imports Egress Mux_Client Session_Quota
begin

text \<open>
  Model of the session engine of \<open>src/server/hub.rs\<close>: admission, the hooks of the fallback
  multiplexer, the relay of UDP datagrams, dedicated WebTransport streams, and the pump tasks of a
  TCP session. An operation on the connection \<open>cid\<close> works on the server's state. What the
  surroundings answer during a call is a record \<open>hub_env\<close>: the clocks, the resolver and the sockets,
  and the fresh cancellation tokens.
\<close>

definition TCP_ROUTE_CAP :: nat where [const_defs]: "TCP_ROUTE_CAP = 64"

record hub_env =
  he_now :: millis
  he_instant :: nat
  he_parse_ip :: "string \<Rightarrow> ip_addr option"
  he_lookup :: resolver
  he_connect :: "socket_addr \<Rightarrow> attempt"
  he_child :: token
  he_relay :: token
  he_bind4 :: "nat option"
  he_bind6 :: "nat option"

definition conn_put :: "server_state \<Rightarrow> u64 \<Rightarrow> conn_state \<Rightarrow> server_state" where
  "conn_put st cid c = st\<lparr>st_heap := AList.update cid c (st_heap st)\<rparr>"

definition st_touch :: "millis \<Rightarrow> server_state \<Rightarrow> u64 \<Rightarrow> u32 \<Rightarrow> server_state" where
  "st_touch now st cid sid =
     (case map_of (st_heap st) cid of None \<Rightarrow> st | Some c \<Rightarrow> conn_put st cid (conn_touch now c sid))"

section \<open>Admission\<close>

text \<open>
  The common end of every admission: acquire the quota, register the session, and give the quota
  back when another task registered the identifier in between.
\<close>

definition reserve :: "millis \<Rightarrow> token \<Rightarrow> server_state \<Rightarrow> u64 \<Rightarrow> u32 \<Rightarrow> (open_error + token) \<times> server_state" where
  "reserve now token st cid sid =
     (let (acquired, st1) = try_acquire_session st in
      if \<not> acquired then (Inl Limit, st1)
      else (case map_of (st_heap st1) cid of
          None \<Rightarrow> (Inl Denied, release_session st1)
        | Some c \<Rightarrow>
            (case try_register_with now c sid token of
               (None, c') \<Rightarrow> (Inl Denied, release_session (conn_put st1 cid c'))
             | (Some h, c') \<Rightarrow> (Inr token, conn_put st1 cid c'))))"

definition admit :: "millis \<Rightarrow> token \<Rightarrow> server_state \<Rightarrow> u64 \<Rightarrow> u32 \<Rightarrow> (open_error + token) \<times> server_state" where
  "admit now token st cid sid =
     (case map_of (st_heap st) cid of
        None \<Rightarrow> (Inl Denied, st)
      | Some c \<Rightarrow>
          if dm_contains (cs_sessions c) sid then (Inl Denied, st)
          else if session_count c \<ge> cs_max_per_conn c then (Inl Limit, st)
          else reserve now token st cid sid)"

section \<open>The hooks\<close>

definition spawn_tcp_route :: "server_state \<Rightarrow> u64 \<Rightarrow> u32 \<Rightarrow> server_state" where
  "spawn_tcp_route st cid sid =
     (case map_of (st_heap st) cid of
        None \<Rightarrow> st
      | Some c \<Rightarrow> conn_put st cid
          (c\<lparr>cs_tcp_routes := AList.update sid \<lparr>tr_queue = [], tr_closed = False\<rparr> (cs_tcp_routes c)\<rparr>))"

text \<open>The dial, which the task waits for, and what follows it.\<close>

definition env_dial :: "hub_env \<Rightarrow> server_state \<Rightarrow> string \<Rightarrow> u16 \<Rightarrow> open_error + socket_addr" where
  "env_dial E st host port =
     snd (dial_target (he_parse_ip E) (he_lookup E) (he_connect E) host port (st_allow_private_targets st))"

definition open_tcp_dialled ::
  "server_state \<Rightarrow> u64 \<Rightarrow> u32 \<Rightarrow> open_error + socket_addr \<Rightarrow> (open_error + unit) \<times> server_state" where
  "open_tcp_dialled st cid sid r =
     (case r of
        Inl e \<Rightarrow> (Inl e, fst (drop_and_release st cid sid))
      | Inr sock \<Rightarrow> (Inr (), spawn_tcp_route st cid sid))"

definition hub_open_tcp ::
  "hub_env \<Rightarrow> server_state \<Rightarrow> u64 \<Rightarrow> u32 \<Rightarrow> string \<Rightarrow> u16 \<Rightarrow> (open_error + unit) \<times> server_state" where
  "hub_open_tcp E st cid sid host port =
     (case admit (he_now E) (he_child E) st cid sid of
        (Inl e, st1) \<Rightarrow> (Inl e, st1)
      | (Inr token, st1) \<Rightarrow> open_tcp_dialled st1 cid sid (env_dial E st host port))"

text \<open>Sending waits for room in the queue and fails when the pump is gone.\<close>

definition hub_feed_tcp :: "hub_env \<Rightarrow> server_state \<Rightarrow> u64 \<Rightarrow> u32 \<Rightarrow> bytes \<Rightarrow> bool \<Rightarrow> bool \<Rightarrow> server_state" where
  "hub_feed_tcp E st cid sid data fin rst =
     (if rst then fst (drop_and_release st cid sid)
      else
        let st1 = st_touch (he_now E) st cid sid in
        case map_of (st_heap st1) cid of
          None \<Rightarrow> st1
        | Some c \<Rightarrow>
            (case map_of (cs_tcp_routes c) sid of
               None \<Rightarrow> st1
             | Some tx \<Rightarrow>
                 if tr_closed tx then fst (drop_and_release st1 cid sid)
                 else conn_put st1 cid
                   (c\<lparr>cs_tcp_routes := AList.update sid (tx\<lparr>tr_queue := tr_queue tx @ [(data, fin)]\<rparr>) (cs_tcp_routes c)\<rparr>)))"

definition hub_close_tcp :: "server_state \<Rightarrow> u64 \<Rightarrow> u32 \<Rightarrow> bool \<Rightarrow> server_state" where
  "hub_close_tcp st cid sid rst = fst (drop_and_release st cid sid)"

definition hub_udp_associate :: "hub_env \<Rightarrow> server_state \<Rightarrow> u64 \<Rightarrow> u32 \<Rightarrow> (open_error + unit) \<times> server_state" where
  "hub_udp_associate E st cid sid =
     (case map_of (st_heap st) cid of
        None \<Rightarrow> (Inl Denied, st)
      | Some c \<Rightarrow>
          if dm_contains (cs_sessions c) sid \<or> dm_contains (cs_udp_routes c) sid then (Inl Denied, st)
          else if session_count c \<ge> cs_max_per_conn c then (Inl Limit, st)
          else (case reserve (he_now E) (he_child E) st cid sid of
              (Inl e, st1) \<Rightarrow> (Inl e, st1)
            | (Inr token, st1) \<Rightarrow>
                (Inr (), case map_of (st_heap st1) cid of
                   None \<Rightarrow> st1
                 | Some c1 \<Rightarrow> conn_put st1 cid
                     (c1\<lparr>cs_udp_routes := AList.update sid (udp_relay_new (he_relay E)) (cs_udp_routes c1)\<rparr>))))"

text \<open>
  The task \<open>udp_associate\<close> spawns: once the session's or the relay's token is cancelled it drops
  the session.
\<close>

definition udp_watch :: "(token \<Rightarrow> bool) \<Rightarrow> server_state \<Rightarrow> u64 \<Rightarrow> u32 \<Rightarrow> token \<Rightarrow> token \<Rightarrow> server_state" where
  "udp_watch is_cancelled st cid sid token relay =
     (if is_cancelled token \<or> is_cancelled relay then fst (drop_and_release st cid sid) else st)"

text \<open>The relay socket of the family of an address, bound on first use.\<close>

definition get_or_bind :: "hub_env \<Rightarrow> socket_addr \<Rightarrow> udp_relay \<Rightarrow> (open_error + nat) \<times> udp_relay" where
  "get_or_bind E addr relay =
     (case addr of
        SockV4 a \<Rightarrow>
          (case ur_v4 relay of
             Some s \<Rightarrow> (Inr s, relay)
           | None \<Rightarrow> (case he_bind4 E of None \<Rightarrow> (Inl Denied, relay) | Some s \<Rightarrow> (Inr s, relay\<lparr>ur_v4 := Some s\<rparr>)))
      | SockV6 a \<Rightarrow>
          (case ur_v6 relay of
             Some s \<Rightarrow> (Inr s, relay)
           | None \<Rightarrow> (case he_bind6 E of None \<Rightarrow> (Inl Denied, relay) | Some s \<Rightarrow> (Inr s, relay\<lparr>ur_v6 := Some s\<rparr>))))"

text \<open>The datagram handed to a socket, if any: the socket, the destination and the data.\<close>

definition hub_udp_feed ::
  "hub_env \<Rightarrow> server_state \<Rightarrow> u64 \<Rightarrow> u32 \<Rightarrow> udp_addr \<Rightarrow> bytes \<Rightarrow>
   (nat \<times> socket_addr \<times> bytes) option \<times> server_state" where
  "hub_udp_feed E st cid sid dst data =
     (case map_of (st_heap st) cid of
        None \<Rightarrow> (None, st)
      | Some c \<Rightarrow>
          (case map_of (cs_udp_routes c) sid of
             None \<Rightarrow> (None, st)
           | Some relay \<Rightarrow>
               let c1 = conn_touch (he_now E) c sid; st1 = conn_put st cid c1 in
               (case resolve_udp_target (he_parse_ip E) (he_lookup E) (he_instant E) dst
                       (st_allow_private_targets st1) st1 of
                  (Inl e, st2) \<Rightarrow> (None, st2)
                | (Inr addr, st2) \<Rightarrow>
                    (case get_or_bind E addr relay of
                       (Inl e, r) \<Rightarrow> (None, st2)
                     | (Inr sock, r) \<Rightarrow>
                         (Some (sock, addr, data),
                          conn_put st2 cid (c1\<lparr>cs_udp_routes := AList.update sid r (cs_udp_routes c1)\<rparr>))))))"

text \<open>
  The hooks of a connection as the multiplexer uses them. Their state is the server's state and what
  the surroundings will answer, call by call.
\<close>

type_synonym hub_world = "server_state \<times> (nat \<Rightarrow> hub_env)"

definition later :: "(nat \<Rightarrow> hub_env) \<Rightarrow> nat \<Rightarrow> hub_env" where
  "later Es n = Es (Suc n)"

definition hub_hooks :: "u64 \<Rightarrow> hub_world hooks" where
  "hub_hooks cid =
     \<lparr>hk_open_tcp = (\<lambda>(st, Es) sid host port.
        let (r, st') = hub_open_tcp (Es 0) st cid sid host port in (r, st', later Es)),
      hk_feed_tcp = (\<lambda>(st, Es) sid data fin rst. (hub_feed_tcp (Es 0) st cid sid data fin rst, later Es)),
      hk_close_tcp = (\<lambda>(st, Es) sid rst. (hub_close_tcp st cid sid rst, Es)),
      hk_udp_associate = (\<lambda>(st, Es) sid.
        let (r, st') = hub_udp_associate (Es 0) st cid sid in (r, st', later Es)),
      hk_udp_feed = (\<lambda>(st, Es) sid dst data. (snd (hub_udp_feed (Es 0) st cid sid dst data), later Es)),
      hk_touch = (\<lambda>(st, Es) sid. (st_touch (he_now (Es 0)) st cid sid, later Es))\<rparr>"

section \<open>UDP replies\<close>

fun sock_udp_addr :: "socket_addr \<Rightarrow> udp_addr" where
  "sock_udp_addr (SockV4 a) = V4 a"
| "sock_udp_addr (SockV6 a) = V6 a"

definition udp_reply_payload :: "socket_addr \<Rightarrow> bytes \<Rightarrow> bytes" where
  "udp_reply_payload src data = encode_with (sock_udp_addr src) [] False @ data"

text \<open>
  The task that receives on a relay socket: one turn of its loop. The result says whether the loop
  goes on.
\<close>

datatype udp_event = UdpCancelled | UdpReceived socket_addr bytes | UdpFailed

fun udp_recv_step ::
  "crypto_lib \<Rightarrow> nat option \<Rightarrow> (bytes \<Rightarrow> bool) \<Rightarrow> millis \<Rightarrow> server_state \<Rightarrow> u64 \<Rightarrow> u32 \<Rightarrow> frame_sink \<Rightarrow>
   udp_event \<Rightarrow> bool \<times> server_state \<times> frame_sink \<times> bytes list" where
  "udp_recv_step L max_dg send_dg now st cid sid sink UdpCancelled = (False, st, sink, [])"
| "udp_recv_step L max_dg send_dg now st cid sid sink (UdpReceived src data) =
     (let (ok, sink', dgs) = try_send_lossy L max_dg send_dg sink UdpData 0 sid (udp_reply_payload src data)
      in (True, st_touch now st cid sid, sink', dgs))"
| "udp_recv_step L max_dg send_dg now st cid sid sink UdpFailed = (False, st, sink, [])"

section \<open>Pumps of a TCP session on the multiplexer\<close>

text \<open>From the client to the target, over the messages of the session's queue; \<open>n\<close> writes succeed.\<close>

datatype route_event = RouteCancelled | RouteMsg bytes bool | RouteClosed

fun route_to_target :: "nat \<Rightarrow> route_event list \<Rightarrow> stream_op list" where
  "route_to_target n [] = []"
| "route_to_target n (RouteCancelled # es) = []"
| "route_to_target n (RouteClosed # es) = []"
| "route_to_target n (RouteMsg data fin # es) =
     (case n of 0 \<Rightarrow> []
      | Suc k \<Rightarrow> Write data # (if fin then [Shutdown] else route_to_target k es))"

text \<open>
  From the target to the client: the frames the sink accepts, whether the task has ended, and the
  state. A turn carries the clock and whether the sink still accepts frames.
\<close>

datatype target_event = TargetCancelled | TargetEof | TargetData bytes | TargetErr

fun target_to_client ::
  "server_state \<Rightarrow> u64 \<Rightarrow> u32 \<Rightarrow> (millis \<times> bool \<times> target_event) list \<Rightarrow>
   out_frame list \<times> bool \<times> server_state" where
  "target_to_client st cid sid [] = ([], False, st)"
| "target_to_client st cid sid ((now, ok, TargetCancelled) # es) =
     ([], True, fst (drop_and_release st cid sid))"
| "target_to_client st cid sid ((now, ok, TargetEof) # es) =
     (if ok then [out_frame_new Data FLAG_FIN sid []] else [], True, fst (drop_and_release st cid sid))"
| "target_to_client st cid sid ((now, ok, TargetData data) # es) =
     (let st1 = st_touch now st cid sid in
      if ok
      then let (fs, ended, st2) = target_to_client st1 cid sid es in
           (out_frame_new Data 0 sid data # fs, ended, st2)
      else ([], True, fst (drop_and_release st1 cid sid)))"
| "target_to_client st cid sid ((now, ok, TargetErr) # es) =
     (if ok then [out_frame_new Close FLAG_RST sid []] else [], True, fst (drop_and_release st cid sid))"

section \<open>Dedicated WebTransport streams\<close>

text \<open>
  From the first frame of a stream to the start of its pumps: the reply written, whether the pumps
  start, and the state. No first frame is a timeout, the end of the stream or a bad frame;
  \<open>written\<close> says whether the OPEN-OK reply could be written.
\<close>

definition wt_open_error :: "u32 \<Rightarrow> open_error \<Rightarrow> out_frame" where
  "wt_open_error sid e = out_frame_new OpenErr 0 sid [to_code e]"

definition wt_opened ::
  "hub_env \<Rightarrow> bool \<Rightarrow> server_state \<Rightarrow> u64 \<Rightarrow> frame \<Rightarrow> out_frame list \<times> bool \<times> server_state" where
  "wt_opened E written st cid f =
     (let sid = f_sid f; dropped = fst (drop_and_release st cid sid) in
      case decode_open (f_payload f) of
        Inl _ \<Rightarrow> ([wt_open_error sid BadTarget], False, dropped)
      | Inr (host, port) \<Rightarrow>
          (case env_dial E st host port of
             Inl e \<Rightarrow> ([wt_open_error sid e], False, dropped)
           | Inr sock \<Rightarrow>
               if written then ([out_frame_new OpenOk 0 sid []], True, st) else ([], False, dropped)))"

definition handle_wt_stream ::
  "hub_env \<Rightarrow> bool \<Rightarrow> server_state \<Rightarrow> u64 \<Rightarrow> frame option \<Rightarrow> out_frame list \<times> bool \<times> server_state" where
  "handle_wt_stream E written st cid first =
     (case (first, map_of (st_heap st) cid) of
        (Some f, Some c) \<Rightarrow>
          let sid = f_sid f in
          if f_type f \<noteq> Open then ([], False, st)
          else if dm_contains (cs_sessions c) sid then ([], False, st)
          else if session_count c \<ge> cs_max_per_conn c then ([wt_open_error sid Limit], False, st)
          else (case reserve (he_now E) (he_child E) st cid sid of
              (Inl e, st1) \<Rightarrow> ([wt_open_error sid e], False, st1)
            | (Inr token, st1) \<Rightarrow> wt_opened E written st1 cid f)
      | _ \<Rightarrow> ([], False, st))"

text \<open>From the target to the client over the stream: as on the multiplexer, then the stream is shut down.\<close>

datatype wt_op = Send out_frame | ShutdownStream

definition wt_target_to_client ::
  "server_state \<Rightarrow> u64 \<Rightarrow> u32 \<Rightarrow> (millis \<times> bool \<times> target_event) list \<Rightarrow> wt_op list \<times> bool \<times> server_state" where
  "wt_target_to_client st cid sid es =
     (let (fs, ended, st') = target_to_client st cid sid es in
      (map Send fs @ (if ended then [ShutdownStream] else []), ended, st'))"

text \<open>
  From the client to the target: what is done to the target socket, how the task ended, and the
  state. A half-close leaves the session to the other pump.
\<close>

datatype stream_event = StreamCancelled | StreamFrame frame | StreamEof | StreamBad

datatype pump_end = Running | HalfClosed | Aborted

fun wt_client_to_target ::
  "server_state \<Rightarrow> u64 \<Rightarrow> u32 \<Rightarrow> (millis \<times> bool \<times> stream_event) list \<Rightarrow> stream_op list \<times> pump_end \<times> server_state" where
  "wt_client_to_target st cid sid [] = ([], Running, st)"
| "wt_client_to_target st cid sid ((now, ok, StreamCancelled) # es) =
     ([], Aborted, fst (drop_and_release st cid sid))"
| "wt_client_to_target st cid sid ((now, ok, StreamFrame f) # es) =
     (if f_type f = Data then
        let st1 = st_touch now st cid sid in
        if \<not> ok then ([], Aborted, fst (drop_and_release st1 cid sid))
        else if f_flags f AND FLAG_FIN \<noteq> 0 then ([Write (f_payload f), Shutdown], HalfClosed, st1)
        else let (ops, e, st2) = wt_client_to_target st1 cid sid es in (Write (f_payload f) # ops, e, st2)
      else if f_type f = Close then
        if f_flags f AND FLAG_FIN \<noteq> 0 then ([Shutdown], HalfClosed, st)
        else ([], Aborted, fst (drop_and_release st cid sid))
      else wt_client_to_target st cid sid es)"
| "wt_client_to_target st cid sid ((now, ok, StreamEof) # es) = ([Shutdown], HalfClosed, st)"
| "wt_client_to_target st cid sid ((now, ok, StreamBad) # es) =
     ([], Aborted, fst (drop_and_release st cid sid))"

section \<open>Abstract view\<close>

text \<open>A target that answers with the given reads and then closes, on a sink that accepts everything.\<close>

definition response :: "millis \<Rightarrow> bytes list \<Rightarrow> (millis \<times> bool \<times> target_event) list" where
  "response now ds = map (\<lambda>d. (now, True, TargetData d)) ds @ [(now, True, TargetEof)]"

section \<open>A concrete environment\<close>

definition demo_env :: hub_env where
  "demo_env = \<lparr>he_now = 9500, he_instant = 0, he_parse_ip = (\<lambda>_. None), he_lookup = (\<lambda>h p. None),
     he_connect = (\<lambda>_. Refused), he_child = 200, he_relay = 201, he_bind4 = Some 3, he_bind6 = None\<rparr>"

definition demo_close :: frame where
  "demo_close = \<lparr>f_type = Close, f_flags = FLAG_FIN, f_sid = 7, f_counter = 1, f_aad = [], f_payload = []\<rparr>"

section \<open>Lemmas: the quota\<close>

lemma quota_ok_cong:
  assumes "quota_ok st" "st_heap st' = st_heap st" "st_active_sessions st' = st_active_sessions st"
    and "st_max_sessions st' = st_max_sessions st"
  shows "quota_ok st'"
  using assms by (simp add: quota_ok_def heap_ok_def registered_def)

lemma conn_put_fields [simp]:
  "st_heap (conn_put st cid c) = AList.update cid c (st_heap st)"
  "st_active_sessions (conn_put st cid c) = st_active_sessions st"
  "st_max_sessions (conn_put st cid c) = st_max_sessions st" "st_conns (conn_put st cid c) = st_conns st"
  "st_allow_private_targets (conn_put st cid c) = st_allow_private_targets st"
  by (simp_all add: conn_put_def)

lemma conn_put_quota:
  assumes "quota_ok st" "map_of (st_heap st) cid = Some c" "conn_ok c'" "session_count c' = session_count c"
  shows "quota_ok (conn_put st cid c')"
proof -
  have hp: "heap_ok st" using assms(1) by (simp add: quota_ok_def)
  have "registered (conn_put st cid c') + session_count c = registered st + session_count c'"
    by (rule registered_update [OF assms(2)]) simp
  moreover have "heap_ok (conn_put st cid c')"
    by (rule heap_ok_update [OF hp assms(3), where cid = cid]) simp_all
  ultimately show ?thesis using assms(1,4) by (simp add: quota_ok_def)
qed

lemma quota_conn_ok: "quota_ok st \<Longrightarrow> map_of (st_heap st) cid = Some c \<Longrightarrow> conn_ok c"
  by (auto simp: quota_ok_def intro: heap_conn_ok)

lemma st_touch_quota: "quota_ok st \<Longrightarrow> quota_ok (st_touch now st cid sid)"
  using conn_touch_count quota_conn_ok
  by (auto simp: st_touch_def split: option.split intro!: conn_put_quota)

lemma drop_quota: "quota_ok st \<Longrightarrow> quota_ok (fst (drop_and_release st cid sid))"
  by (metis drop_and_release_quota prod.collapse)

lemma routes_quota:
  assumes "quota_ok st" "map_of (st_heap st) cid = Some c"
  shows "quota_ok (conn_put st cid (c\<lparr>cs_tcp_routes := AList.update sid r (cs_tcp_routes c)\<rparr>))"
    "quota_ok (conn_put st cid (c\<lparr>cs_udp_routes := AList.update sid u (cs_udp_routes c)\<rparr>))"
  using quota_conn_ok [OF assms]
  by (auto intro!: conn_put_quota [OF assms] simp: conn_ok_def session_count_def)

definition reserved :: "millis \<Rightarrow> token \<Rightarrow> server_state \<Rightarrow> u64 \<Rightarrow> conn_state \<Rightarrow> u32 \<Rightarrow> server_state" where
  "reserved now token st cid c sid =
     (conn_put st cid (c\<lparr>cs_last_active := now,
        cs_sessions := AList.update sid (handle_from_token now token) (cs_sessions c)\<rparr>))
     \<lparr>st_active_sessions := st_active_sessions st + 1\<rparr>"

lemma reserve_eq:
  assumes "map_of (st_heap st) cid = Some c"
  shows "reserve now token st cid sid =
    (if st_active_sessions st \<ge> of_nat (st_max_sessions st) then (Inl Limit, st)
     else if dm_contains (cs_sessions c) sid then (Inl Denied, conn_put st cid (c\<lparr>cs_last_active := now\<rparr>))
     else (Inr token, reserved now token st cid c sid))"
  using assms
  by (cases st) (simp add: reserve_def try_acquire_session_def Let_def release_session_def reserved_def conn_put_def
      try_register_with_def)

lemma reserved_quota:
  assumes "quota_ok st" "map_of (st_heap st) cid = Some c" "\<not> dm_contains (cs_sessions c) sid"
    and "\<not> st_active_sessions st \<ge> of_nat (st_max_sessions st)"
  shows "quota_ok (reserved now token st cid c sid)"
proof -
  let ?c = "c\<lparr>cs_last_active := now, cs_sessions := AList.update sid (handle_from_token now token) (cs_sessions c)\<rparr>"
  let ?st = "reserved now token st cid c sid"
  have hp: "heap_ok st" and ok: "conn_ok ?c"
    using assms(1) quota_conn_ok [OF assms(1,2)] by (simp_all add: quota_ok_def conn_ok_def)
  have mx: "unat (of_nat (st_max_sessions st) :: u64) = st_max_sessions st"
    using assms(1) by (simp add: quota_ok_def heap_ok_def unat_of_nat take_bit_nat_eq_self_iff)
  then have below: "unat (st_active_sessions st) < st_max_sessions st"
    using assms(4) by (simp add: word_le_nat_alt)
  have act: "unat (st_active_sessions ?st) = Suc (unat (st_active_sessions st))"
    using unat_inc [of "st_active_sessions st" "of_nat (st_max_sessions st)"] assms(4)
    by (simp add: reserved_def)
  have "session_count ?c = Suc (session_count c)"
    using assms(3) by (simp add: session_count_def length_dm_insert)
  moreover have "registered ?st + session_count c = registered st + session_count ?c"
    by (rule registered_update [OF assms(2)]) (simp add: reserved_def)
  moreover have "heap_ok ?st"
    by (rule heap_ok_update [OF hp ok, where cid = cid]) (simp_all add: reserved_def)
  moreover have "st_max_sessions ?st = st_max_sessions st" by (simp add: reserved_def)
  ultimately show ?thesis
    using assms(1) below act unfolding quota_ok_def by linarith
qed

lemma reserve_quota: "quota_ok st \<Longrightarrow> map_of (st_heap st) cid = Some c \<Longrightarrow> quota_ok (snd (reserve now token st cid sid))"
  using reserved_quota [of st cid c sid now token] quota_conn_ok [of st cid c]
  by (auto simp: reserve_eq conn_ok_def session_count_def intro!: conn_put_quota)

lemma admit_quota: "quota_ok st \<Longrightarrow> quota_ok (snd (admit now token st cid sid))"
  by (auto simp: admit_def reserve_quota split: option.split)

lemma dialled_quota: "quota_ok st \<Longrightarrow> quota_ok (snd (open_tcp_dialled st cid sid r))"
  using routes_quota
  by (auto simp: open_tcp_dialled_def drop_quota spawn_tcp_route_def split: sum.split option.split)

lemma hub_open_tcp_quota: "quota_ok st \<Longrightarrow> quota_ok (snd (hub_open_tcp E st cid sid host port))"
  using admit_quota [of st "he_now E" "he_child E" cid sid]
  by (auto simp: hub_open_tcp_def dialled_quota split: prod.split sum.split)

lemma hub_feed_tcp_quota: "quota_ok st \<Longrightarrow> quota_ok (hub_feed_tcp E st cid sid data fin rst)"
  by (auto simp: hub_feed_tcp_def Let_def drop_quota st_touch_quota routes_quota split: option.split)

lemma hub_udp_associate_quota: "quota_ok st \<Longrightarrow> quota_ok (snd (hub_udp_associate E st cid sid))"
  using reserve_quota [of st cid _ "he_now E" "he_child E" sid] routes_quota(2)
  by (fastforce simp: hub_udp_associate_def split: option.split prod.split sum.split)

lemma resolve_udp_quota: "quota_ok st \<Longrightarrow> quota_ok (snd (resolve_udp_target parse_ip lookup now dst allow st))"
  by (rule quota_ok_cong, assumption)
    (cases "(parse_ip, lookup, now, dst, allow, st)" rule: resolve_udp_target.cases;
      auto simp: udp_dns_store_def Let_def split: option.splits sum.splits list.splits)+

lemma resolve_udp_heap:
  "resolve_udp_target parse_ip lookup now dst allow st = (r, st') \<Longrightarrow> st_heap st' = st_heap st"
  by (cases "(parse_ip, lookup, now, dst, allow, st)" rule: resolve_udp_target.cases)
    (auto simp: udp_dns_store_def Let_def split: option.splits sum.splits list.splits if_splits)

lemma hub_udp_feed_quota:
  assumes "quota_ok st"
  shows "quota_ok (snd (hub_udp_feed E st cid sid dst data))"
proof (cases "map_of (st_heap st) cid")
  case (Some c)
  define c1 st1 where "c1 = conn_touch (he_now E) c sid" and "st1 = conn_put st cid c1"
  have st1: "quota_ok st1" "map_of (st_heap st1) cid = Some c1"
    using conn_put_quota [OF assms Some] conn_touch_count [OF quota_conn_ok [OF assms Some]]
    by (simp_all add: c1_def st1_def update_conv')
  obtain r st2 where r: "resolve_udp_target (he_parse_ip E) (he_lookup E) (he_instant E) dst
      (st_allow_private_targets st) st1 = (r, st2)" by fastforce
  have st2: "quota_ok st2" "map_of (st_heap st2) cid = Some c1"
    using resolve_udp_quota [OF st1(1)] resolve_udp_heap [OF r] r st1(2) by (metis snd_conv, simp)
  show ?thesis
    using assms Some r st2 routes_quota(2) [OF st2]
    by (auto simp: hub_udp_feed_def Let_def c1_def [symmetric] st1_def [symmetric]
        split: option.split sum.split prod.split)
qed (use assms in \<open>simp add: hub_udp_feed_def\<close>)

interpretation hub: server_hooks "hub_hooks cid" "\<lambda>(st, Es). quota_ok st" for cid
  by unfold_locales
    (auto simp: hub_hooks_def split_def Let_def hub_open_tcp_quota hub_feed_tcp_quota hub_close_tcp_def drop_quota
      hub_udp_associate_quota hub_udp_feed_quota st_touch_quota)

lemma drop_registered:
  assumes "quota_ok st" "map_of (st_heap st) cid = Some c" "dm_contains (cs_sessions c) sid"
  shows "registered (fst (drop_and_release st cid sid)) + 1 = registered st"
proof -
  obtain st' ts where d: "drop_and_release st cid sid = (st', ts)" by fastforce
  have "registered st' + session_count c = registered st + session_count (conn_without {sid} c)"
    by (rule registered_update [OF assms(2) drop_and_release_heap(1) [OF d assms(2)]])
  moreover have "session_count (conn_without {sid} c) + 1 = session_count c"
    using session_count_without [OF quota_conn_ok [OF assms(1,2)], of sid] assms(3) by simp
  ultimately show ?thesis by (simp add: d)
qed

lemma reserved_registered:
  assumes "map_of (st_heap st) cid = Some c" "\<not> dm_contains (cs_sessions c) sid"
  shows "registered (reserved now token st cid c sid) = registered st + 1"
    "\<exists>c'. map_of (st_heap (reserved now token st cid c sid)) cid = Some c' \<and> dm_contains (cs_sessions c') sid"
proof -
  let ?c = "c\<lparr>cs_last_active := now, cs_sessions := AList.update sid (handle_from_token now token) (cs_sessions c)\<rparr>"
  have "session_count ?c = Suc (session_count c)"
    using assms(2) by (simp add: session_count_def length_dm_insert)
  moreover have "registered (reserved now token st cid c sid) + session_count c = registered st + session_count ?c"
    by (rule registered_update [OF assms(1)]) (simp add: reserved_def)
  ultimately show "registered (reserved now token st cid c sid) = registered st + 1" by simp
  show "\<exists>c'. map_of (st_heap (reserved now token st cid c sid)) cid = Some c' \<and> dm_contains (cs_sessions c') sid"
    by (simp add: reserved_def update_conv' dm_contains_update del: dm_contains_iff)
qed

lemma registered_put:
  assumes "map_of (st_heap st) cid = Some c" "session_count c' = session_count c"
  shows "registered (conn_put st cid c') = registered st"
  using registered_update [OF assms(1), of "conn_put st cid c'" c'] assms(2) by simp

lemma reserve_registered:
  assumes "map_of (st_heap st) cid = Some c" "reserve now token st cid sid = (r, st')"
  shows "registered st' = registered st + (case r of Inl e \<Rightarrow> 0 | Inr t \<Rightarrow> 1)"
    "r = Inr t \<Longrightarrow> \<exists>c'. map_of (st_heap st') cid = Some c' \<and> dm_contains (cs_sessions c') sid"
  using assms(2) registered_put [OF assms(1)] reserved_registered [OF assms(1), of sid now token]
  by (auto simp: reserve_eq [OF assms(1)] session_count_def simp del: dm_contains_iff split: if_splits)

lemma admit_registered:
  assumes "map_of (st_heap st) cid = Some c" "admit now token st cid sid = (r, st')"
  shows "registered st' = registered st + (case r of Inl e \<Rightarrow> 0 | Inr t \<Rightarrow> 1)"
    "r = Inr t \<Longrightarrow> \<exists>c'. map_of (st_heap st') cid = Some c' \<and> dm_contains (cs_sessions c') sid"
  using assms reserve_registered [OF assms(1), of now token sid r st']
  by (auto simp: admit_def simp del: dm_contains_iff split: if_splits)

lemma hub_open_tcp_registered:
  assumes "quota_ok st" "map_of (st_heap st) cid = Some c" "hub_open_tcp E st cid sid host port = (r, st')"
  shows "registered st' = registered st + (if r = Inr () then 1 else 0)"
proof -
  obtain a st1 where a: "admit (he_now E) (he_child E) st cid sid = (a, st1)" by fastforce
  note reg = admit_registered [OF assms(2) a]
  have q: "quota_ok st1" using admit_quota [OF assms(1)] a by (metis snd_conv)
  show ?thesis
  proof (cases a)
    case (Inl e)
    with assms(3) a reg(1) show ?thesis by (auto simp: hub_open_tcp_def)
  next
    case (Inr t)
    then obtain c1 where c1: "map_of (st_heap st1) cid = Some c1" "dm_contains (cs_sessions c1) sid"
      using reg(2) by blast
    have "registered (spawn_tcp_route st1 cid sid) = registered st1"
      using registered_put [OF c1(1)] c1(1) by (simp add: spawn_tcp_route_def session_count_def)
    with assms(3) a Inr reg(1) drop_registered [OF q c1] show ?thesis
      by (auto simp: hub_open_tcp_def open_tcp_dialled_def split: sum.splits)
  qed
qed

lemma hub_udp_associate_registered:
  assumes "map_of (st_heap st) cid = Some c" "hub_udp_associate E st cid sid = (r, st')"
  shows "registered st' = registered st + (if r = Inr () then 1 else 0)"
proof -
  obtain a st1 where a: "reserve (he_now E) (he_child E) st cid sid = (a, st1)" by fastforce
  have "registered (conn_put st1 cid (c1\<lparr>cs_udp_routes := u\<rparr>)) = registered st1"
    if "map_of (st_heap st1) cid = Some c1" for c1 u
    using registered_put [OF that] by (simp add: session_count_def)
  with assms a reserve_registered(1) [OF assms(1) a] show ?thesis
    by (auto simp: hub_udp_associate_def split: if_splits sum.splits option.splits)
qed

lemma handle_wt_stream_registered:
  assumes "quota_ok st" "map_of (st_heap st) cid = Some c"
    and "handle_wt_stream E written st cid first = (replies, started, st')"
  shows "registered st' = registered st + (if started then 1 else 0) \<and> quota_ok st'"
proof (cases first)
  case None
  with assms show "registered st' = registered st + (if started then 1 else 0) \<and> quota_ok st'"
    by (simp add: handle_wt_stream_def)
next
  case (Some f)
  let ?sid = "f_sid f"
  obtain a st1 where a: "reserve (he_now E) (he_child E) st cid ?sid = (a, st1)" by fastforce
  note reg = reserve_registered [OF assms(2) a]
  have q: "quota_ok st1" using reserve_quota [OF assms(1,2)] a by (metis snd_conv)
  have opened: "registered st2 = registered st + (if go then 1 else 0) \<and> quota_ok st2"
    if "wt_opened E written st1 cid f = (rs, go, st2)" "a = Inr t" for rs go st2 t
  proof -
    obtain c1 where c1: "map_of (st_heap st1) cid = Some c1" "dm_contains (cs_sessions c1) ?sid"
      using reg(2) \<open>a = Inr t\<close> by blast
    show ?thesis
      using that drop_registered [OF q c1] reg(1) q drop_quota [OF q]
      by (auto simp: wt_opened_def Let_def split: sum.splits if_splits)
  qed
  show "registered st' = registered st + (if started then 1 else 0) \<and> quota_ok st'"
    using assms Some a reg(1) q opened [of replies started st']
    by (auto simp: handle_wt_stream_def Let_def split: if_splits sum.splits)
qed

section \<open>Properties\<close>

text \<open>
  The session quota across the fallback path. However the frames of a channel are served, by the
  loop or by its worker tasks in any order, and whatever the resolver, the dial and the sockets answer,
  the global counter stays equal to the number of registered sessions and below the maximum.
\<close>

theorem hub_loop_quota:
  assumes "(server_mux_step (hub_hooks cid))\<^sup>*\<^sup>* (fs, {#}, (st, Es), []) (fs', W, (st', Es'), out)"
    and "quota_ok st"
  shows "unat (st_active_sessions st') = registered st' \<and> registered st' \<le> st_max_sessions st'"
  using hub.loop.reachable_inv [OF _ assms(1)] assms(2) by (auto simp: quota_ok_def)

text \<open>
  C16. Admission is exact. Opening a TCP session on the multiplexer, associating a UDP session and opening
  a dedicated stream each add exactly one registered session when they succeed and none when they
  fail, at whatever point they fail.
\<close>

theorem admission_exact:
  assumes "quota_ok st" "map_of (st_heap st) cid = Some c"
  shows "(case hub_open_tcp E st cid sid host port of
            (r, st') \<Rightarrow> registered st' = registered st + (if r = Inr () then 1 else 0)) \<and>
         (case hub_udp_associate E st cid sid of
            (r, st') \<Rightarrow> registered st' = registered st + (if r = Inr () then 1 else 0)) \<and>
         (case handle_wt_stream E written st cid first of
            (replies, started, st') \<Rightarrow> registered st' = registered st + (if started then 1 else 0))"
  using hub_open_tcp_registered [OF assms] hub_udp_associate_registered [OF assms(2)]
    handle_wt_stream_registered [OF assms]
  by (auto split: prod.split)

theorem admission_exact_witness:
  "(case hub_open_tcp demo_env demo_server 1 9 ''a.example'' 80 of
      (r, st') \<Rightarrow> registered st' = registered demo_server + (if r = Inr () then 1 else 0))"
  using admission_exact [of demo_server 1 demo_conn demo_env 9 "''a.example''" 80 True None] demo_quota_ok
  by (simp add: demo_server_def)

lemma demo_assoc_run:
  obtains st' Es' out where "(server_mux_step (hub_hooks 1))\<^sup>*\<^sup>* ([demo_assoc], {#}, (demo_server, \<lambda>_. demo_env), [])
       ([], {#}, (st', Es'), out)"
proof -
  let ?w = "(demo_server, \<lambda>_ :: nat. demo_env)"
  obtain sent st' Es' where h: "handle_server_frame (hub_hooks 1) ?w demo_assoc = (sent, st', Es')"
    by (metis prod_cases3)
  have "server_mux_step (hub_hooks 1) ([demo_assoc], {#}, ?w, []) ([], {#demo_assoc#}, ?w, [])"
    using server_mux_step.spawn [of demo_assoc "{#}" "hub_hooks 1" "[]" ?w "[]"]
    by (simp add: concurrent_frame_def demo_assoc_def const_defs)
  moreover have "server_mux_step (hub_hooks 1) ([], {#demo_assoc#}, ?w, []) ([], {#}, (st', Es'), sent)"
    using server_mux_step.worker [OF _ h, of "{#demo_assoc#}" "[]" "[]"] by simp
  ultimately have "(server_mux_step (hub_hooks 1))\<^sup>*\<^sup>* ([demo_assoc], {#}, ?w, []) ([], {#}, (st', Es'), sent)"
    by (meson converse_rtranclp_into_rtranclp r_into_rtranclp)
  then show thesis by (rule that)
qed

theorem hub_loop_quota_witness:
  "\<exists>st' Es' out. (server_mux_step (hub_hooks 1))\<^sup>*\<^sup>* ([demo_assoc], {#}, (demo_server, \<lambda>_. demo_env), [])
       ([], {#}, (st', Es'), out) \<and> unat (st_active_sessions st') = registered st'"
proof -
  obtain st' Es' out where run: "(server_mux_step (hub_hooks 1))\<^sup>*\<^sup>* ([demo_assoc], {#}, (demo_server, \<lambda>_. demo_env), [])
       ([], {#}, (st', Es'), out)" using demo_assoc_run .
  from hub_loop_quota [OF run demo_quota_ok] run show ?thesis by blast
qed

text \<open>
  Closing by the client. A CLOSE frame with FIN and without RST is a half-close: the session and its
  quota stay, and the pump towards the target gets the end-of-stream mark behind everything queued
  before. Every other CLOSE frame drops the session with its route.
\<close>

theorem client_close:
  assumes "map_of (st_heap st) cid = Some c" "map_of (cs_sessions c) sid = Some h"
    and "map_of (cs_tcp_routes c) sid = Some tx" "\<not> tr_closed tx"
    and "f_type f = Close" "f_sid f = sid" "handle_server_frame (hub_hooks cid) (st, Es) f = (sent, st', Es')"
  shows "sent = [] \<and> (\<exists>c'. map_of (st_heap st') cid = Some c' \<and>
    (if f_flags f AND FLAG_FIN \<noteq> 0 \<and> f_flags f AND FLAG_RST = 0
     then map_of (cs_sessions c') sid = Some (handle_touch (he_now (Es 0)) h) \<and>
          map_of (cs_tcp_routes c') sid = Some (tx\<lparr>tr_queue := tr_queue tx @ [([], True)]\<rparr>) \<and>
          st_active_sessions st' = st_active_sessions st
     else map_of (cs_sessions c') sid = None \<and> map_of (cs_tcp_routes c') sid = None \<and>
          st_active_sessions st' = st_active_sessions st - 1))"
proof (cases "f_flags f AND FLAG_FIN \<noteq> 0 \<and> f_flags f AND FLAG_RST = 0")
  case True
  then have "st' = hub_feed_tcp (Es 0) st cid sid [] True False" "sent = []"
    using assms(5-) by (auto simp: handle_server_frame_def hub_hooks_def Let_def)
  then show ?thesis
    using True assms(1-4)
    by (simp add: hub_feed_tcp_def st_touch_def conn_touch_def Let_def update_conv')
next
  case False
  then have d: "st' = fst (drop_and_release st cid sid)" "sent = []"
    using assms(5-) by (auto simp: handle_server_frame_def hub_hooks_def Let_def hub_close_tcp_def)
  have "sid \<in> fst ` set (cs_sessions c)" using assms(2) by (force dest: map_of_SomeD)
  moreover have "map_of (cs_sessions (conn_without {sid} c)) sid = None" "map_of (cs_tcp_routes (conn_without {sid} c)) sid = None"
    by (auto simp: conn_without_def map_of_eq_None_iff)
  ultimately show ?thesis
    using False d drop_and_release_heap(1,2) [OF _ assms(1), of sid st' "snd (drop_and_release st cid sid)"]
    by (simp add: update_conv' prod_eq_iff)
qed

theorem client_close_witness:
  "\<exists>c'. map_of (st_heap (fst (snd (handle_server_frame (hub_hooks 1) (demo_server, \<lambda>_. demo_env) demo_close)))) 1 = Some c' \<and>
     map_of (cs_sessions c') 7 = Some (handle_touch 9500 \<lparr>sh_cancel = 107, sh_last_active = 0\<rparr>)"
proof -
  obtain sent st' Es' where h: "handle_server_frame (hub_hooks 1) (demo_server, \<lambda>_. demo_env) demo_close = (sent, st', Es')"
    by (metis prod_cases3)
  have "\<exists>c'. map_of (st_heap st') 1 = Some c' \<and>
      map_of (cs_sessions c') 7 = Some (handle_touch 9500 \<lparr>sh_cancel = 107, sh_last_active = 0\<rparr>)"
    using client_close [of demo_server 1 demo_conn 7 "\<lparr>sh_cancel = 107, sh_last_active = 0\<rparr>"
        "\<lparr>tr_queue = [], tr_closed = False\<rparr>" demo_close, OF _ _ _ _ _ _ h]
    by (auto simp: demo_server_def demo_conn_def demo_close_def const_defs demo_env_def)
  then show ?thesis unfolding h by simp
qed

section \<open>The response of the target\<close>

lemma response_Cons [simp]:
  "response now [] = [(now, True, TargetEof)]"
  "response now (d # ds) = (now, True, TargetData d) # response now ds"
  by (simp_all add: response_def)

lemma target_to_client_frames:
  "fst (target_to_client st cid sid (response now ds)) =
     map (out_frame_new Data 0 sid) ds @ [out_frame_new Data FLAG_FIN sid []]"
  by (induction ds arbitrary: st) (simp_all add: split_def Let_def)

lemma st_touch_conn: "map_of (st_heap st) cid = Some c \<Longrightarrow> \<exists>c'. map_of (st_heap (st_touch now st cid sid)) cid = Some c'"
  by (simp add: st_touch_def update_conv')

lemma target_to_client_ends:
  assumes "quota_ok st" "map_of (st_heap st) cid = Some c"
  shows "\<exists>st1 c1. snd (target_to_client st cid sid (response now ds)) = (True, fst (drop_and_release st1 cid sid)) \<and>
     quota_ok st1 \<and> map_of (st_heap st1) cid = Some c1"
  using assms
proof (induction ds arbitrary: st c)
  case (Cons d ds)
  obtain c' where "map_of (st_heap (st_touch now st cid sid)) cid = Some c'"
    using st_touch_conn [OF Cons.prems(2)] by blast
  from Cons.IH [OF st_touch_quota [OF Cons.prems(1)] this] show ?case by (simp add: split_def Let_def)
qed auto

lemma drop_gone:
  assumes "map_of (st_heap st) cid = Some c"
  shows "\<exists>c'. map_of (st_heap (fst (drop_and_release st cid sid))) cid = Some c' \<and> map_of (cs_sessions c') sid = None"
proof -
  have "map_of (cs_sessions (conn_without {sid} c)) sid = None"
    by (auto simp: conn_without_def map_of_eq_None_iff)
  moreover obtain st' ts where d: "drop_and_release st cid sid = (st', ts)" by fastforce
  ultimately show ?thesis
    using drop_and_release_heap(1) [OF d assms] by (simp add: update_conv')
qed

lemma session_data_own: "session_data sid fs = session_data sid (filter (\<lambda>f. f_sid f = sid) fs)"
  by (induction fs) auto

lemma session_data_response:
  "map msg_of fs = map out_msg (map (out_frame_new Data 0 sid) ds @ [out_frame_new Data FLAG_FIN sid []]) \<Longrightarrow>
   session_data sid fs = ds @ [[]]"
proof (induction ds arbitrary: fs)
  case Nil
  then show ?case by (auto simp: msg_of_def out_msg_def out_frame_new_def const_defs)
next
  case (Cons d ds)
  then obtain f fs' where f: "fs = f # fs'" "msg_of f = out_msg (out_frame_new Data 0 sid d)"
    "map msg_of fs' = map out_msg (map (out_frame_new Data 0 sid) ds @ [out_frame_new Data FLAG_FIN sid []])"
    by (cases fs) auto
  from f(2) have "f_sid f = sid" "f_type f = Data" "f_flags f = 0" "f_payload f = d"
    by (simp_all add: msg_of_def out_msg_def out_frame_new_def)
  then show ?case using Cons.IH [OF f(3)] f(1) by simp
qed

text \<open>
  C8. The response reaches the client completely. When a target sends data and then closes, and the frames of the session that reach the client have the contents the server sent, with frames of other
  sessions anywhere between them, the user's stream at the client gets exactly the reads of the target socket in order, an empty write, and then the end of the stream, because the route of the session is
  gone; the server's task ends, the session is removed and the quota stays exact.
\<close>

theorem response_preserved:
  assumes "quota_ok st" "map_of (st_heap st) cid = Some c" "map_of (mx_sessions m) sid = Some True"
    and "target_to_client st cid sid (response now ds) = (sent, ended, st')"
    and "map msg_of (filter (\<lambda>f. f_sid f = sid) fs) = map out_msg sent"
    and "run_client_frames m fs = (m', ev)" "length ds < n"
  shows "frames_to_user (\<not> dm_contains (mx_sessions m') sid) n (delivered sid ev) = map Write (ds @ [[]]) @ [Shutdown] \<and> ended \<and> quota_ok st' \<and>
         (\<exists>c'. map_of (st_heap st') cid = Some c' \<and> map_of (cs_sessions c') sid = None)"
proof -
  have sent: "sent = map (out_frame_new Data 0 sid) ds @ [out_frame_new Data FLAG_FIN sid []]"
    using target_to_client_frames [of st cid sid now ds] assms(4) by simp
  have "session_data sid fs = ds @ [[]]"
    unfolding session_data_own [of sid fs] using assms(5) sent by (intro session_data_response) simp
  then have d: "delivered sid ev = ds @ [[]]"
    using run_reader_demux [OF assms(3), of fs] assms(6) by (simp add: run_client_reader_def)
  have "last (map msg_of (filter (\<lambda>f. f_sid f = sid) fs)) = (Data, FLAG_FIN, sid, [])" "filter (\<lambda>f. f_sid f = sid) fs \<noteq> []"
    using assms(5) sent by (auto simp: out_msg_def out_frame_new_def)
  then obtain f where f: "f \<in> set fs" "msg_of f = (Data, FLAG_FIN, sid, [])"
    by (metis (no_types, lifting) filter_is_subset last_in_set last_map subsetD)
  then have "\<not> dm_contains (mx_sessions m') sid"
    using fin_drops_route [OF f(1), of m] assms(6) by (auto simp: msg_of_def const_defs simp del: dm_contains_iff)
  with d frames_to_user_all [OF assms(7)]
  have "frames_to_user (\<not> dm_contains (mx_sessions m') sid) n (delivered sid ev) = map Write (ds @ [[]]) @ [Shutdown]"
    by (simp del: dm_contains_iff)
  moreover obtain st1 c1 where "(ended, st') = (True, fst (drop_and_release st1 cid sid))"
    "quota_ok st1" "map_of (st_heap st1) cid = Some c1"
    using target_to_client_ends [OF assms(1,2), of sid now ds] assms(4) by auto
  ultimately show ?thesis using drop_quota drop_gone by auto
qed

theorem response_preserved_witness:
  "\<exists>m' ev. run_client_frames demo_mux [demo_data 1 0 [5, 6], demo_data 2 0 [9], demo_data 1 FLAG_FIN []] = (m', ev) \<and>
     frames_to_user (\<not> dm_contains (mx_sessions m') 1) 4 (delivered 1 ev) = [Write [5, 6], Write [], Shutdown]"
proof -
  let ?fs = "[demo_data 1 0 [5, 6], demo_data 2 0 [9], demo_data 1 FLAG_FIN []]"
  obtain sent ended st' where t: "target_to_client demo_server 1 1 (response 9500 [[5, 6]]) = (sent, ended, st')"
    by (metis prod_cases3)
  obtain m' ev where r: "run_client_frames demo_mux ?fs = (m', ev)" by fastforce
  have "sent = [out_frame_new Data 0 1 [5, 6], out_frame_new Data FLAG_FIN 1 []]"
    using target_to_client_frames [of demo_server 1 1 9500 "[[5, 6]]"] t by simp
  then have "map msg_of (filter (\<lambda>f. f_sid f = 1) ?fs) = map out_msg sent"
    by (simp add: msg_of_def out_msg_def out_frame_new_def demo_data_def)
  from response_preserved [OF demo_quota_ok _ _ t this r, of demo_conn 4] r
  show ?thesis by (simp add: demo_server_def demo_mux_def del: dm_contains_iff)
qed

section \<open>Sessions that are never released\<close>

text \<open>
  When the channel ends while a worker waits for its dial, the worker is aborted after \<open>admit\<close>
  and before anything drops the session. Once the connection is unlisted the reaper leaves the session
  alone, so its slot of the global quota is never given back.
\<close>

lemma aborted_open_keeps_slot:
  assumes "quota_ok st" "map_of (st_heap st) cid = Some c" "admit now token st cid sid = (Inr t, st1)"
    and "distinct (st_conns st2)" "cid \<notin> set (st_conns st2)" "st_heap st2 = st_heap st1"
    and "reap_idle now' st2 = (st3, ts)"
  shows "\<exists>c'. map_of (st_heap st3) cid = Some c' \<and> dm_contains (cs_sessions c') sid"
proof -
  obtain st4 ts4 dead where r: "reap_conns now' st2 (st_conns st2) = (st4, ts4, dead)" by (metis prod_cases3)
  then have "st_heap st3 = st_heap st4" using assms(7) by (auto simp: reap_idle_def)
  moreover have "map_of (st_heap st4) cid = map_of (st_heap st2) cid"
    using reap_conns_effect [OF r assms(4)] assms(5) by simp
  ultimately show ?thesis using admit_registered(2) [OF assms(2,3)] assms(6) by simp
qed

end
