(* ===== verification/Config.thy ===== *)
theory Config
  imports Crypto Text
begin

text \<open>
  Model of \<open>src/config.rs\<close>: the command line as clap hands it over (the record \<open>cli\<close>), its
  validation into the client's and the server's configuration, and the configuration file, whose lines
  become command-line arguments. The file system is two arguments: which paths are files, and what
  a file contains. The warnings the code logs are left out.
\<close>

section \<open>Configurations\<close>

record cli =
  cli_client :: bool
  cli_server :: bool
  cli_auth :: "string list"
  cli_log :: string
  cli_time :: string
  cli_server_url :: "string option"
  cli_url :: "string option"
  cli_bind :: string
  cli_http_bind :: "string option"
  cli_inbound_auth :: "string option"
  cli_conns :: nat
  cli_skip_verify :: bool
  cli_sni :: "string option"
  cli_pin :: "string option"
  cli_recv_window_mb :: u64
  cli_max_frame_kb :: u64
  cli_listen :: "string option"
  cli_cert :: "string option"
  cli_key :: "string option"
  cli_self_signed :: bool
  cli_fallback_listen :: "string option"
  cli_http_listen :: "string option"
  cli_acme_dir :: "string option"
  cli_path :: string
  cli_max_sessions :: nat
  cli_rate_mbps :: u64
  cli_idle_secs :: u64
  cli_udp_dns_ttl :: u64
  cli_allow_private_targets :: bool
  cli_max_unauth :: u64
  cli_health :: "string option"
  cli_config :: "string option"
  cli_shutdown_grace :: u64
  cli_healthcheck :: "string option"

record client_cfg =
  cc_wt_url :: "string option"
  cc_fb_url :: "string option"
  cc_socks_bind :: string
  cc_http_bind :: "string option"
  cc_inbound_auth :: "(string \<times> string) option"
  cc_conns :: nat
  cc_uid :: string
  cc_password :: string
  cc_skip_verify :: bool
  cc_sni :: "string option"
  cc_pin :: "bytes option"
  cc_recv_window :: u32
  cc_health :: "string option"
  cc_max_plaintext :: nat

datatype cert_source = Files string string | SelfSigned

record server_cfg =
  sc_listen :: "string option"
  sc_cert :: cert_source
  sc_fallback_listen :: "string option"
  sc_http_listen :: "string option"
  sc_acme_dir :: "string option"
  sc_path :: string
  sc_users :: "(string \<times> string) list"
  sc_max_sessions :: nat
  sc_rate_mbps :: u64
  sc_idle_secs :: u64
  sc_allow_private_targets :: bool
  sc_max_unauth :: u64
  sc_recv_window :: u32
  sc_shutdown_grace :: u64
  sc_health :: "string option"
  sc_max_plaintext :: nat
  sc_udp_dns_ttl :: u64

text \<open>One constructor per message; the number is the line of a configuration file.\<close>

datatype config_error =
  AuthFormat | BadUid | EmptyPassword | InboundFormat | InboundUser | InboundPass | OneMode | AuthRequired
| NeedUrl | BadConns | PinLength | PinHex | PinSkipVerify | SniLength | SniDots | SniChars | SniWss
| SniNeedsPin | NeedListen | CertNotFound | KeyNotFound | NeedCert | BadRecvWindow | BadMaxFrame
| ConfigNeedsPath | ConfigTwice | ConfigNotFound | ConfigRead | KeySyntax nat | UnknownOption nat
| ModeNeedsValue nat | ModeValue nat | SwitchValue nat | OptionNeedsValue nat

definition ensure :: "'e \<Rightarrow> bool \<Rightarrow> 'e + unit" where
  "ensure e b = (if b then Inr () else Inl e)"

section \<open>Values\<close>

definition uid_char :: "char \<Rightarrow> bool" where
  "uid_char c \<longleftrightarrow> is_ascii_alphanumeric c \<or> c = CHR ''_'' \<or> c = CHR ''-''"

definition parse_auth :: "string \<Rightarrow> config_error + string \<times> string" where
  "parse_auth raw =
     and_then (ok_or AuthFormat (split_once CHR '':'' raw)) (\<lambda>(u, p).
     let uid = trim u in
     and_then (ensure BadUid (uid \<noteq> [] \<and> length uid \<le> 32 \<and> list_all uid_char uid)) (\<lambda>_.
     and_then (ensure EmptyPassword (p \<noteq> [])) (\<lambda>_. Inr (uid, p))))"

definition parse_inbound_auth :: "string \<Rightarrow> config_error + string \<times> string" where
  "parse_inbound_auth raw =
     and_then (ok_or InboundFormat (split_once CHR '':'' raw)) (\<lambda>(u, p).
     and_then (ensure InboundUser (u \<noteq> [] \<and> length u \<le> 255)) (\<lambda>_.
     and_then (ensure InboundPass (p \<noteq> [] \<and> length p \<le> 255)) (\<lambda>_. Inr (u, p))))"

definition normalize_path :: "string \<Rightarrow> string" where
  "normalize_path p0 =
     (let p = trim p0 in
      if p = [] \<or> p = ''/'' then ''/api/ppp''
      else if starts_with ''/'' p then p else ''/'' @ p)"

definition recv_window_bytes :: "u64 \<Rightarrow> config_error + u32" where
  "recv_window_bytes mb =
     and_then (ensure BadRecvWindow (1 \<le> mb \<and> mb \<le> 64)) (\<lambda>_. Inr (ucast mb * 1024 * 1024))"

definition max_frame_bytes :: "u64 \<Rightarrow> config_error + nat" where
  "max_frame_bytes kb =
     and_then (ensure BadMaxFrame (16 \<le> kb \<and> kb \<le> of_nat (MAX_PLAINTEXT_CAP div 1024)))
       (\<lambda>_. Inr (unat kb * 1024))"

fun fingerprint_bytes :: "string \<Rightarrow> config_error + bytes" where
  "fingerprint_bytes [] = Inr []"
| "fingerprint_bytes [a] = Inl PinHex"
| "fingerprint_bytes (a # b # r) =
     and_then (ok_or PinHex (to_digit16 a)) (\<lambda>hi.
     and_then (ok_or PinHex (to_digit16 b)) (\<lambda>lo.
     and_then (fingerprint_bytes r) (\<lambda>bs. Inr (of_nat (16 * hi + lo) # bs))))"

definition parse_fingerprint :: "string \<Rightarrow> config_error + bytes" where
  "parse_fingerprint raw =
     (let cleaned = filter (\<lambda>c. c \<noteq> CHR '':'') raw in
      and_then (ensure PinLength (length cleaned = 64)) (\<lambda>_. fingerprint_bytes cleaned))"

section \<open>Validation of the command line\<close>

definition validate :: "cli \<Rightarrow> config_error + unit" where
  "validate c = (if cli_client c = cli_server c then Inl OneMode else ensure AuthRequired (cli_auth c \<noteq> []))"

definition validate_pin :: "cli \<Rightarrow> config_error + bytes option" where
  "validate_pin c =
     (case cli_pin c of
        None \<Rightarrow> Inr None
      | Some raw \<Rightarrow>
          and_then (parse_fingerprint raw) (\<lambda>fp.
          and_then (ensure PinSkipVerify (\<not> cli_skip_verify c)) (\<lambda>_. Inr (Some fp))))"

definition sni_char :: "char \<Rightarrow> bool" where
  "sni_char c \<longleftrightarrow> is_ascii_alphanumeric c \<or> c = CHR ''.'' \<or> c = CHR ''-'' \<or> c = CHR ''_''"

definition validate_sni :: "cli \<Rightarrow> bytes option \<Rightarrow> config_error + unit" where
  "validate_sni c pin =
     (case cli_sni c of
        None \<Rightarrow> Inr ()
      | Some sni \<Rightarrow>
          and_then (ensure SniLength (length sni \<le> 253 \<and> sni \<noteq> [])) (\<lambda>_.
          and_then (ensure SniDots (\<not> starts_with ''.'' sni \<and> \<not> ends_with ''.'' sni \<and> \<not> contains_str ''..'' sni)) (\<lambda>_.
          and_then (ensure SniChars (list_all sni_char sni)) (\<lambda>_.
          and_then
            (case cli_url c of
               Some fb \<Rightarrow> ensure SniWss (\<not> starts_with ''wss://'' fb \<and> \<not> starts_with ''ws://'' fb)
             | None \<Rightarrow> Inr ()) (\<lambda>_.
          ensure SniNeedsPin (pin \<noteq> None \<or> cli_skip_verify c))))))"

definition client_config :: "cli \<Rightarrow> config_error + client_cfg" where
  "client_config c =
     and_then (ok_or AuthRequired (case cli_auth c of [] \<Rightarrow> None | a # _ \<Rightarrow> Some a)) (\<lambda>first.
     and_then (parse_auth first) (\<lambda>(uid, password).
     and_then (ensure NeedUrl (cli_server_url c \<noteq> None \<or> cli_url c \<noteq> None)) (\<lambda>_.
     and_then (ensure BadConns (1 \<le> cli_conns c \<and> cli_conns c \<le> 8)) (\<lambda>_.
     and_then (validate_pin c) (\<lambda>pin.
     and_then (validate_sni c pin) (\<lambda>_.
     and_then (case cli_inbound_auth c of Some raw \<Rightarrow> and_then (parse_inbound_auth raw) (\<lambda>p. Inr (Some p)) | None \<Rightarrow> Inr None)
       (\<lambda>inbound.
     and_then (recv_window_bytes (cli_recv_window_mb c)) (\<lambda>rw.
     and_then (max_frame_bytes (cli_max_frame_kb c)) (\<lambda>mp.
     Inr \<lparr>cc_wt_url = cli_server_url c, cc_fb_url = cli_url c, cc_socks_bind = cli_bind c,
          cc_http_bind = cli_http_bind c, cc_inbound_auth = inbound, cc_conns = cli_conns c, cc_uid = uid,
          cc_password = password, cc_skip_verify = cli_skip_verify c, cc_sni = cli_sni c, cc_pin = pin,
          cc_recv_window = rw, cc_health = cli_health c, cc_max_plaintext = mp\<rparr>)))))))))"

fun parse_users :: "string list \<Rightarrow> config_error + (string \<times> string) list" where
  "parse_users [] = Inr []"
| "parse_users (a # as) = and_then (parse_auth a) (\<lambda>u. and_then (parse_users as) (\<lambda>us. Inr (u # us)))"

definition server_cert :: "(string \<Rightarrow> bool) \<Rightarrow> cli \<Rightarrow> config_error + cert_source" where
  "server_cert is_file c =
     (if cli_self_signed c then Inr SelfSigned
      else (case (cli_cert c, cli_key c) of
          (Some ce, Some k) \<Rightarrow>
            and_then (ensure CertNotFound (is_file ce)) (\<lambda>_.
            and_then (ensure KeyNotFound (is_file k)) (\<lambda>_. Inr (Files ce k)))
        | _ \<Rightarrow> Inl NeedCert))"

definition server_config :: "(string \<Rightarrow> bool) \<Rightarrow> cli \<Rightarrow> config_error + server_cfg" where
  "server_config is_file c =
     and_then (ensure NeedListen (cli_listen c \<noteq> None \<or> cli_fallback_listen c \<noteq> None)) (\<lambda>_.
     and_then (server_cert is_file c) (\<lambda>cert.
     and_then (parse_users (cli_auth c)) (\<lambda>users.
     and_then (recv_window_bytes (cli_recv_window_mb c)) (\<lambda>rw.
     and_then (max_frame_bytes (cli_max_frame_kb c)) (\<lambda>mp.
     Inr \<lparr>sc_listen = cli_listen c, sc_cert = cert, sc_fallback_listen = cli_fallback_listen c,
          sc_http_listen = cli_http_listen c, sc_acme_dir = cli_acme_dir c, sc_path = normalize_path (cli_path c),
          sc_users = users, sc_max_sessions = max (cli_max_sessions c) 1, sc_rate_mbps = cli_rate_mbps c,
          sc_idle_secs = max (cli_idle_secs c) 5, sc_allow_private_targets = cli_allow_private_targets c,
          sc_max_unauth = max (cli_max_unauth c) 1, sc_recv_window = rw, sc_shutdown_grace = cli_shutdown_grace c,
          sc_health = cli_health c, sc_max_plaintext = mp, sc_udp_dns_ttl = cli_udp_dns_ttl c\<rparr>)))))"

section \<open>The configuration file\<close>

text \<open>The long options of the command line with their actions, and the pseudo option \<open>mode\<close>.\<close>

definition bool_options :: "string list" where
  "bool_options = [''skip-verify'', ''self-signed'', ''allow-private-targets'']"

definition append_options :: "string list" where
  "append_options = [''auth'']"

definition long_options :: "string list" where
  "long_options = bool_options @ append_options @
     [''log'', ''time'', ''server'', ''url'', ''bind'', ''http-bind'', ''inbound-auth'', ''conns'', ''sni'', ''pin'',
      ''recv-window'', ''max-frame-kb'', ''listen'', ''cert'', ''key'', ''fallback-listen'', ''http-listen'',
      ''acme-dir'', ''path'', ''max-sessions'', ''rate'', ''idle'', ''udp-dns-ttl'', ''max-unauth'', ''health'',
      ''config'', ''shutdown-grace'', ''mode'']"

fun extract_config_from :: "string option \<Rightarrow> string list \<Rightarrow> config_error + string option \<times> string list" where
  "extract_config_from config [] = Inr (config, [])"
| "extract_config_from config (a # as) =
     (if a = ''--config'' then
        (case as of
           [] \<Rightarrow> Inl ConfigNeedsPath
         | v # rest \<Rightarrow> if config \<noteq> None then Inl ConfigTwice else extract_config_from (Some v) rest)
      else (case strip_prefix ''--config='' a of
          Some v \<Rightarrow> if config \<noteq> None then Inl ConfigTwice else extract_config_from (Some v) as
        | None \<Rightarrow> and_then (extract_config_from config as) (\<lambda>(c, r). Inr (c, a # r))))"

text \<open>The first argument, the program name, is kept as it is.\<close>

fun extract_config_arg :: "string list \<Rightarrow> config_error + string option \<times> string list" where
  "extract_config_arg [] = Inr (None, [])"
| "extract_config_arg (prog # as) = and_then (extract_config_from None as) (\<lambda>(c, r). Inr (c, prog # r))"

definition is_quote :: "char \<Rightarrow> bool" where
  "is_quote c \<longleftrightarrow> of_char c = (39 :: nat) \<or> of_char c = (34 :: nat)"

fun parse_value :: "string \<Rightarrow> string option" where
  "parse_value [] = None"
| "parse_value (q # r) =
     (case (if is_quote q then find_char q r else None) of
        Some n \<Rightarrow> Some (take n r)
      | None \<Rightarrow>
          if length (q # r) \<ge> 2 \<and> last (q # r) = q \<and> is_quote q then Some (butlast r)
          else Some (q # r))"

fun remove_earlier_option :: "string \<Rightarrow> string list \<Rightarrow> string list" where
  "remove_earlier_option key [] = []"
| "remove_earlier_option key (a # as) =
     (if a = ''--'' @ key then
        (case as of
           [] \<Rightarrow> []
         | v # rest \<Rightarrow> if starts_with ''-'' v then remove_earlier_option key as else remove_earlier_option key rest)
      else if starts_with (''--'' @ key @ ''='') a then remove_earlier_option key as
      else a # remove_earlier_option key as)"

text \<open>The key and the value of the line \<open>n\<close>, nothing for an empty line or a comment.\<close>

definition parse_line :: "nat \<Rightarrow> string \<Rightarrow> config_error + (string \<times> string option) option" where
  "parse_line n raw =
     (let line = trim raw in
      if line = [] \<or> starts_with ''#'' line then Inr None
      else
        and_then
          (case split_once CHR ''='' line of
             Some (k, v) \<Rightarrow>
               let k' = trim k in
               and_then (ensure (KeySyntax n) (k' \<noteq> [] \<and> \<not> contains_str '' '' k')) (\<lambda>_. Inr (k', parse_value (trim v)))
           | None \<Rightarrow> Inr (line, None)) (\<lambda>(key, value).
        and_then (ensure (UnknownOption n) (key \<in> set long_options)) (\<lambda>_. Inr (Some (key, value)))))"

text \<open>The arguments an option becomes.\<close>

definition option_args :: "nat \<Rightarrow> string \<Rightarrow> string option \<Rightarrow> config_error + string list" where
  "option_args n key value =
     (if key = ''mode'' then
        (case value of
           None \<Rightarrow> Inl (ModeNeedsValue n)
         | Some v \<Rightarrow> if v = ''server'' then Inr [''-s''] else if v = ''client'' then Inr [''-c''] else Inl (ModeValue n))
      else if key \<in> set bool_options then
        (case value of None \<Rightarrow> Inr [''--'' @ key]
         | Some v \<Rightarrow> if v = ''true'' then Inr [''--'' @ key] else Inl (SwitchValue n))
      else (case value of None \<Rightarrow> Inl (OptionNeedsValue n) | Some v \<Rightarrow> Inr [''--'' @ key, v]))"

fun parse_lines :: "nat \<Rightarrow> string list \<Rightarrow> string list \<times> bool \<Rightarrow> config_error + string list \<times> bool" where
  "parse_lines n [] acc = Inr acc"
| "parse_lines n (raw # ls) (out, has_creds) =
     and_then (parse_line n raw) (\<lambda>entry.
       case entry of
         None \<Rightarrow> parse_lines (Suc n) ls (out, has_creds)
       | Some (key, value) \<Rightarrow>
           let out1 = (if key \<in> set append_options then out else remove_earlier_option key out) in
           and_then (option_args n key value) (\<lambda>args.
             parse_lines (Suc n) ls (out1 @ args, has_creds \<or> key = ''auth'')))"

definition byte_order_mark :: string where
  "byte_order_mark = map char_of [0xEF :: nat, 0xBB, 0xBF]"

definition parse_config_text :: "string \<Rightarrow> config_error + string list \<times> bool" where
  "parse_config_text t =
     (let t' = (case strip_prefix byte_order_mark t of Some r \<Rightarrow> r | None \<Rightarrow> t) in
      parse_lines 1 (lines t') ([], False))"

definition parse_config_file :: "(string \<Rightarrow> string option) \<Rightarrow> string \<Rightarrow> config_error + string list \<times> bool" where
  "parse_config_file read_file path = and_then (ok_or ConfigRead (read_file path)) parse_config_text"

definition file_args ::
  "(string \<Rightarrow> bool) \<Rightarrow> (string \<Rightarrow> string option) \<Rightarrow> string option \<Rightarrow> config_error + string list" where
  "file_args is_file read_file config_path =
     (case config_path of
        None \<Rightarrow>
          if \<not> is_file ''newppp.conf'' then Inr []
          else and_then (parse_config_file read_file ''newppp.conf'') (\<lambda>(argv, creds). Inr argv)
      | Some path \<Rightarrow>
          and_then (ensure ConfigNotFound (is_file path)) (\<lambda>_.
          and_then (parse_config_file read_file path) (\<lambda>(argv, creds). Inr argv)))"

text \<open>The single-value options given on the command line, in order of appearance.\<close>

function override_keys :: "string list \<Rightarrow> string list" where
  "override_keys [] = []"
| "override_keys (tok # as) =
     (case strip_prefix ''--'' tok of
        None \<Rightarrow> override_keys as
      | Some rest \<Rightarrow>
          let (key, inline) = (case split_once CHR ''='' rest of Some (k, _) \<Rightarrow> (k, True) | None \<Rightarrow> (rest, False)) in
          if key \<in> set long_options \<and> key \<notin> set append_options then
            key # (if inline \<or> key \<in> set bool_options \<or> rest = [] then override_keys as
                   else (case as of
                      v # vs \<Rightarrow> if starts_with ''-'' v then override_keys as else override_keys vs
                    | [] \<Rightarrow> []))
          else override_keys as)"
  by pat_completeness auto

termination override_keys
  by (relation "measure length") auto

definition strip_cli_overridden :: "string list \<Rightarrow> string list \<Rightarrow> string list" where
  "strip_cli_overridden file cli =
     (let stripped = fold remove_earlier_option (remdups (override_keys cli)) file in
      if list_ex (\<lambda>a. a = ''-c'' \<or> a = ''-s'') cli then filter (\<lambda>a. a \<noteq> ''-c'' \<and> a \<noteq> ''-s'') stripped else stripped)"

section \<open>Abstract view\<close>

type_synonym entry = "string \<times> string option"

text \<open>The options a file sets, line by line, for a file that is accepted.\<close>

fun file_entries :: "nat \<Rightarrow> string list \<Rightarrow> entry list" where
  "file_entries n [] = []"
| "file_entries n (raw # ls) =
     (case parse_line n raw of
        Inr (Some e) \<Rightarrow> e # file_entries (Suc n) ls
      | _ \<Rightarrow> file_entries (Suc n) ls)"

definition entry_args :: "entry \<Rightarrow> string list" where
  "entry_args e = (case option_args 0 (fst e) (snd e) of Inr args \<Rightarrow> args | Inl _ \<Rightarrow> [])"

abbreviation render :: "entry list \<Rightarrow> string list" where
  "render es \<equiv> concat (map entry_args es)"

text \<open>Options that may be repeated; every other option is kept at its last line only.\<close>

definition repeatable :: "string \<Rightarrow> bool" where
  "repeatable key \<longleftrightarrow> key \<in> set append_options \<or> key = ''mode''"

fun last_wins :: "entry list \<Rightarrow> entry list" where
  "last_wins [] = []"
| "last_wins (e # es) = (if repeatable (fst e) \<or> fst e \<notin> fst ` set es then e # last_wins es else last_wins es)"

definition file_options :: "string \<Rightarrow> entry list" where
  "file_options t = file_entries 1 (lines (case strip_prefix byte_order_mark t of Some r \<Rightarrow> r | None \<Rightarrow> t))"

definition dash_value :: "entry \<Rightarrow> bool" where
  "dash_value e \<longleftrightarrow> (case snd e of Some v \<Rightarrow> starts_with ''-'' v | None \<Rightarrow> False)"

definition cli_has_mode :: "string list \<Rightarrow> bool" where
  "cli_has_mode cli \<longleftrightarrow> list_ex (\<lambda>a. a = ''-c'' \<or> a = ''-s'') cli"

text \<open>An entry that is accepted, and whose value does not look like an option.\<close>

definition plain_entry :: "entry \<Rightarrow> bool" where
  "plain_entry e \<longleftrightarrow>
     fst e \<in> set long_options \<and> (\<exists>args. option_args 0 (fst e) (snd e) = Inr args) \<and>
     \<not> dash_value e"

text \<open>What an accepted configuration guarantees.\<close>

definition user_ok :: "string \<times> string \<Rightarrow> bool" where
  "user_ok u \<longleftrightarrow> fst u \<noteq> [] \<and> length (fst u) \<le> 32 \<and> list_all uid_char (fst u) \<and> snd u \<noteq> []"

definition window_ok :: "u32 \<Rightarrow> bool" where
  "window_ok w \<longleftrightarrow> (\<exists>mb. 1 \<le> mb \<and> mb \<le> 64 \<and> unat w = mb * 2 ^ 20)"

definition server_cfg_ok :: "server_cfg \<Rightarrow> bool" where
  "server_cfg_ok s \<longleftrightarrow>
     list_all user_ok (sc_users s) \<and> 1 \<le> sc_max_sessions s \<and> 1 \<le> sc_max_unauth s \<and> 5 \<le> sc_idle_secs s \<and>
     starts_with ''/'' (sc_path s) \<and> (sc_listen s \<noteq> None \<or> sc_fallback_listen s \<noteq> None) \<and>
     MAX_PLAINTEXT \<le> sc_max_plaintext s \<and> sc_max_plaintext s \<le> MAX_PLAINTEXT_CAP \<and> window_ok (sc_recv_window s)"

definition client_cfg_ok :: "client_cfg \<Rightarrow> bool" where
  "client_cfg_ok k \<longleftrightarrow>
     user_ok (cc_uid k, cc_password k) \<and> 1 \<le> cc_conns k \<and> cc_conns k \<le> 8 \<and>
     (cc_wt_url k \<noteq> None \<or> cc_fb_url k \<noteq> None) \<and>
     (case cc_pin k of Some fp \<Rightarrow> length fp = 32 \<and> \<not> cc_skip_verify k | None \<Rightarrow> True) \<and>
     (cc_sni k = None \<or> cc_pin k \<noteq> None \<or> cc_skip_verify k) \<and>
     MAX_PLAINTEXT \<le> cc_max_plaintext k \<and> cc_max_plaintext k \<le> MAX_PLAINTEXT_CAP \<and> window_ok (cc_recv_window k)"

definition demo_text :: string where
  "demo_text = ''path = /a'' @ [newline] @ ''path = /b''"

section \<open>Lemmas: options\<close>

lemma long_options_no_eq: "k \<in> set long_options \<Longrightarrow> CHR ''='' \<notin> set k"
proof -
  have "list_all (\<lambda>k. CHR ''='' \<notin> set k) long_options" by code_simp
  then show "k \<in> set long_options \<Longrightarrow> CHR ''='' \<notin> set k" by (auto simp: list_all_iff)
qed

lemma option_args_line: "option_args n k v = Inr args \<longleftrightarrow> option_args 0 k v = Inr args"
  by (auto simp: option_args_def split: if_splits option.splits)

lemma entry_args_cases:
  assumes "plain_entry (k, v)"
  obtains (mode) "k = ''mode''" "entry_args (k, v) = [''-s''] \<or> entry_args (k, v) = [''-c'']"
  | (switch) "k \<noteq> ''mode''" "entry_args (k, v) = [''--'' @ k]"
  | (valued) w where "k \<noteq> ''mode''" "entry_args (k, v) = [''--'' @ k, w]" "\<not> starts_with ''-'' w"
  using assms
  by (auto simp: plain_entry_def dash_value_def entry_args_def option_args_def split: if_splits option.splits)

lemma other_option:
  assumes "k \<in> set long_options" "k \<noteq> key"
  shows "''--'' @ k \<noteq> ''--'' @ key" "\<not> starts_with (''--'' @ key @ ''='') (''--'' @ k)"
proof -
  show "\<not> starts_with (''--'' @ key @ ''='') (''--'' @ k)"
    using long_options_no_eq [OF assms(1)] by (auto simp: starts_with_iff)
qed (use assms in simp)

lemma no_dash:
  assumes "\<not> starts_with ''-'' w"
  shows "w \<noteq> ''--'' @ key" "\<not> starts_with (''--'' @ key @ ''='') w"
  using assms by (auto simp: starts_with_iff)

lemma render_dash: "plain_entry e \<Longrightarrow> \<exists>a as. entry_args e = a # as \<and> starts_with ''-'' a"
  by (cases e) (auto elim!: entry_args_cases simp: starts_with_def)

lemma remove_render:
  assumes "list_all plain_entry es" "key \<noteq> ''mode''"
  shows "remove_earlier_option key (render es) = render (filter (\<lambda>e. fst e \<noteq> key) es)"
  using assms(1)
proof (induction es)
  case (Cons e es)
  obtain k v where e: "e = (k, v)" by (cases e)
  have plain: "plain_entry (k, v)" and IH: "remove_earlier_option key (render es) = render (filter (\<lambda>e. fst e \<noteq> key) es)"
    using Cons e by simp_all
  have k: "k \<in> set long_options" using plain by (simp add: plain_entry_def)
  have tail: "render es = [] \<or> (\<exists>a as. render es = a # as \<and> starts_with ''-'' a)"
  proof (cases es)
    case (Cons f fs)
    then have "plain_entry f" using Cons.prems by simp
    from render_dash [OF this] Cons show ?thesis by auto
  qed simp
  from plain show ?case
  proof (cases rule: entry_args_cases)
    case mode
    then show ?thesis using IH assms(2) by (auto simp: e starts_with_def)
  next
    case switch
    show ?thesis
    proof (cases "k = key")
      case True
      from tail show ?thesis
      proof
        assume "render es = []"
        moreover from this IH have "render (filter (\<lambda>e. fst e \<noteq> key) es) = []"
          by auto
        ultimately show ?thesis using True switch by (simp add: e del: concat_eq_Nil_conv)
      next
        assume "\<exists>a as. render es = a # as \<and> starts_with ''-'' a"
        then show ?thesis using True switch IH by (auto simp: e)
      qed
    next
      case False
      then show ?thesis using switch IH other_option [OF k False] by (simp add: e)
    qed
  next
    case (valued w)
    show ?thesis
    proof (cases "k = key")
      case True
      then show ?thesis using valued IH by (simp add: e)
    next
      case False
      then show ?thesis using valued IH other_option [OF k False] no_dash [OF valued(3)] by (simp add: e)
    qed
  qed
qed simp

lemma remove_mode: "list_all plain_entry es \<Longrightarrow> remove_earlier_option ''mode'' (render es) = render es"
proof (induction es)
  case (Cons e es)
  obtain k v where e: "e = (k, v)" by (cases e)
  have plain: "plain_entry (k, v)" and IH: "remove_earlier_option ''mode'' (render es) = render es"
    using Cons e by simp_all
  have k: "k \<in> set long_options" using plain by (simp add: plain_entry_def)
  from plain show ?case
  proof (cases rule: entry_args_cases)
    case mode
    then show ?thesis using IH by (auto simp: e starts_with_def)
  next
    case switch
    then show ?thesis using IH other_option [OF k switch(1)] by (simp add: e)
  next
    case (valued w)
    then show ?thesis using IH other_option [OF k valued(1)] no_dash [OF valued(3), of "''mode''"] by (simp add: e)
  qed
qed simp

text \<open>The entries kept after a further line that sets \<open>key\<close>.\<close>

definition overridden :: "string \<Rightarrow> entry list \<Rightarrow> entry list" where
  "overridden key es = (if repeatable key then es else filter (\<lambda>e. fst e \<noteq> key) es)"

lemma overridden_render:
  assumes "list_all plain_entry es"
  shows "(if key \<in> set append_options then render es else remove_earlier_option key (render es)) =
         render (overridden key es)"
  using remove_render [OF assms, of key] remove_mode [OF assms]
  by (auto simp: overridden_def repeatable_def)

lemma last_wins_snoc: "last_wins (es @ [e]) = overridden (fst e) (last_wins es) @ [e]"
proof (induction es)
  case Nil
  show ?case by (simp add: overridden_def)
next
  case (Cons f es)
  show ?case
    using Cons by (auto simp: overridden_def)
qed

lemma last_wins_subset: "set (last_wins es) \<subseteq> set es"
  by (induction es) auto

lemma parse_lines_refines:
  assumes "parse_lines n ls (render (last_wins old), creds) = Inr (argv, creds')"
    and "list_all plain_entry (old @ file_entries n ls)"
  shows "argv = render (last_wins (old @ file_entries n ls)) \<and>
         creds' = (creds \<or> ''auth'' \<in> fst ` set (file_entries n ls))"
  using assms
proof (induction ls arbitrary: n old creds)
  case (Cons raw ls)
  show ?case
  proof (cases "parse_line n raw")
    case (Inl e)
    then show ?thesis using Cons.prems by simp
  next
    case (Inr entry)
    show ?thesis
    proof (cases entry)
      case None
      then show ?thesis using Cons.IH [of "Suc n" old creds] Cons.prems Inr by simp
    next
      case (Some e)
      obtain k v where e: "e = (k, v)" by (cases e)
      obtain args where a: "option_args n k v = Inr args"
        and rest: "parse_lines (Suc n) ls
          ((if k \<in> set append_options then render (last_wins old) else remove_earlier_option k (render (last_wins old))) @ args,
           creds \<or> k = ''auth'') = Inr (argv, creds')"
        using Cons.prems(1) Inr Some e by (auto simp: Let_def)
      have "list_all plain_entry (last_wins old)"
        using Cons.prems(2) last_wins_subset [of old] by (auto simp: list_all_iff)
      moreover have "args = entry_args e" using a option_args_line [of n k v args] by (simp add: entry_args_def e)
      ultimately have "parse_lines (Suc n) ls (render (last_wins (old @ [e])), creds \<or> k = ''auth'') = Inr (argv, creds')"
        using rest overridden_render [of "last_wins old" k] by (simp add: last_wins_snoc e)
      from Cons.IH [OF this] Cons.prems(2) Inr Some e show ?thesis by auto
    qed
  qed
qed simp

lemma parse_line_known: "parse_line n raw = Inr (Some (k, v)) \<Longrightarrow> k \<in> set long_options"
  by (auto simp: parse_line_def Let_def ensure_def split: if_splits)

lemma parse_lines_accepts:
  "parse_lines n ls (out, creds) = Inr r \<Longrightarrow>
   list_all (\<lambda>e. fst e \<in> set long_options \<and> (\<exists>args. option_args 0 (fst e) (snd e) = Inr args)) (file_entries n ls)"
proof (induction ls arbitrary: n out creds)
  case (Cons raw ls)
  show ?case
  proof (cases "parse_line n raw")
    case (Inr entry)
    show ?thesis
    proof (cases entry)
      case None
      then show ?thesis using Cons Inr by simp
    next
      case (Some e)
      obtain k v where e: "e = (k, v)" by (cases e)
      obtain args out' creds' where a: "option_args n k v = Inr args" "parse_lines (Suc n) ls (out', creds') = Inr r"
        using Cons.prems Inr Some e by (auto simp: Let_def)
      have "k \<in> set long_options" "option_args 0 k v = Inr args"
        using parse_line_known [of n raw k v] Inr Some e a(1) option_args_line by auto
      then show ?thesis using Cons.IH [OF a(2)] Inr Some e by simp
    qed
  qed (use Cons in simp)
qed simp

lemma fold_remove_render:
  "list_all plain_entry es \<Longrightarrow>
   fold remove_earlier_option keys (render es) =
   render (filter (\<lambda>e. fst e = ''mode'' \<or> fst e \<notin> set keys) es)"
proof (induction keys arbitrary: es)
  case (Cons key keys)
  show ?case
  proof (cases "key = ''mode''")
    case True
    then have "filter (\<lambda>e. fst e = ''mode'' \<or> fst e \<notin> set (key # keys)) es =
        filter (\<lambda>e. fst e = ''mode'' \<or> fst e \<notin> set keys) es" by (intro filter_cong) auto
    then show ?thesis using Cons True by (simp add: remove_mode)
  next
    case False
    let ?es = "filter (\<lambda>e. fst e \<noteq> key) es"
    have "list_all plain_entry ?es" using Cons.prems by (auto simp: list_all_iff)
    from Cons.IH [OF this] remove_render [OF Cons.prems False]
    have "fold remove_earlier_option (key # keys) (render es) =
        render (filter (\<lambda>e. fst e = ''mode'' \<or> fst e \<notin> set keys) ?es)" by simp
    moreover have "filter (\<lambda>e. fst e = ''mode'' \<or> fst e \<notin> set keys) ?es =
        filter (\<lambda>e. fst e = ''mode'' \<or> fst e \<notin> set (key # keys)) es"
      using False by (auto simp: filter_filter intro!: filter_cong)
    ultimately show ?thesis by simp
  qed
qed simp

lemma filter_mode_render:
  "list_all plain_entry es \<Longrightarrow>
   filter (\<lambda>a. a \<noteq> ''-c'' \<and> a \<noteq> ''-s'') (render es) = render (filter (\<lambda>e. fst e \<noteq> ''mode'') es)"
proof (induction es)
  case (Cons e es)
  obtain k v where e: "e = (k, v)" by (cases e)
  with Cons have "plain_entry (k, v)" by simp
  then show ?case
    using Cons e by (cases rule: entry_args_cases) (auto simp: starts_with_def)
qed simp

section \<open>Lemmas: values\<close>

lemma ensure_Inr [simp]: "ensure e b = Inr u \<longleftrightarrow> b"
  by (simp add: ensure_def)

lemma recv_window_ok:
  assumes "recv_window_bytes mb = Inr w"
  shows "window_ok w"
proof -
  have mb: "1 \<le> unat mb" "unat mb \<le> 64" and w: "w = ucast mb * 1024 * 1024"
    using assms by (auto simp: recv_window_bytes_def word_le_nat_alt)
  have "w = of_nat (unat mb * 2 ^ 20)" by (simp add: w)
  moreover have "unat (of_nat (unat mb * 2 ^ 20) :: u32) = unat mb * 2 ^ 20"
    unfolding unat_of_nat by (rule mod_less) (use mb in simp)
  ultimately have "unat w = unat mb * 2 ^ 20" by metis
  with mb show ?thesis unfolding window_ok_def by blast
qed

lemma max_frame_value:
  assumes "max_frame_bytes kb = Inr n"
  shows "MAX_PLAINTEXT \<le> n" "n \<le> MAX_PLAINTEXT_CAP"
  using assms by (auto simp: max_frame_bytes_def word_le_nat_alt const_defs)

lemma parse_auth_ok: "parse_auth raw = Inr u \<Longrightarrow> user_ok u"
  by (auto simp: parse_auth_def user_ok_def Let_def)

lemma parse_users_ok: "parse_users as = Inr us \<Longrightarrow> list_all user_ok us \<and> length us = length as"
  by (induction as arbitrary: us) (auto dest: parse_auth_ok)

lemma normalize_path_slash: "starts_with ''/'' (normalize_path p)"
  by (simp add: normalize_path_def Let_def starts_with_def)

lemma fingerprint_length: "fingerprint_bytes s = Inr bs \<Longrightarrow> length s = 2 * length bs"
  by (induction s arbitrary: bs rule: fingerprint_bytes.induct) auto

lemma validate_pin_ok: "validate_pin c = Inr (Some fp) \<Longrightarrow> length fp = 32 \<and> \<not> cli_skip_verify c"
  by (auto simp: validate_pin_def parse_fingerprint_def Let_def dest!: fingerprint_length split: option.splits)

lemma validate_sni_ok:
  "validate_sni c pin = Inr u \<Longrightarrow> cli_sni c = None \<or> pin \<noteq> None \<or> cli_skip_verify c"
  by (auto simp: validate_sni_def split: option.splits)

lemma server_config_ok: "server_config is_file c = Inr s \<Longrightarrow> server_cfg_ok s"
  using parse_users_ok [of "cli_auth c"] normalize_path_slash [of "cli_path c"]
    recv_window_ok [of "cli_recv_window_mb c"] max_frame_value [of "cli_max_frame_kb c"]
  by (auto simp: server_config_def server_cfg_ok_def)

lemma client_config_ok: "client_config c = Inr k \<Longrightarrow> client_cfg_ok k"
  using parse_auth_ok [of "hd (cli_auth c)"] validate_pin_ok [of c]
    recv_window_ok [of "cli_recv_window_mb c"] max_frame_value [of "cli_max_frame_kb c"]
  by (cases "cli_auth c") (auto simp: client_config_def client_cfg_ok_def dest!: validate_sni_ok split: option.split)

section \<open>Properties\<close>

text \<open>
  C36. An accepted configuration is well formed. On the server every user identifier is one to 32 letters,
  digits, dashes or underscores with a non-empty password, the limits are at least one session, one
  unauthenticated connection and five idle seconds, the API path begins with a slash and a
  listener is configured; on the client there are one to eight connections, a URL, a 32-byte pin that
  excludes skipping verification, and a masquerading name only with a pin or without verification.
  On both the receive window is a whole number of one to 64 MiB and the frame limit between the
  protocol's baseline and its cap.
\<close>

theorem accepted_config_valid:
  "(case server_config is_file c of Inl e \<Rightarrow> True | Inr s \<Rightarrow> server_cfg_ok s) \<and>
   (case client_config c of Inl e \<Rightarrow> True | Inr k \<Rightarrow> client_cfg_ok k)"
  using server_config_ok client_config_ok by (auto split: sum.split)

text \<open>
  The configuration file. For an accepted file whose values do not begin with a dash, the arguments
  it becomes are exactly those of its options in order, where an option that takes one value is kept
  at its last line only, while \<open>auth\<close> accumulates and so does \<open>mode\<close>; and the file is reported to
  hold credentials exactly when it sets \<open>auth\<close>.
\<close>

theorem config_last_wins:
  assumes "parse_config_text t = Inr (argv, creds)" "list_all (\<lambda>e. \<not> dash_value e) (file_options t)"
  shows "argv = concat (map entry_args (last_wins (file_options t))) \<and>
         (creds \<longleftrightarrow> ''auth'' \<in> fst ` set (file_options t))"
proof -
  let ?ls = "lines (case strip_prefix byte_order_mark t of Some r \<Rightarrow> r | None \<Rightarrow> t)"
  have p: "parse_lines 1 ?ls (render (last_wins []), False) = Inr (argv, creds)"
    using assms(1) by (simp add: parse_config_text_def)
  have "list_all plain_entry ([] @ file_entries 1 ?ls)"
    using parse_lines_accepts [OF p] assms(2) by (auto simp: plain_entry_def list_all_iff file_options_def)
  from parse_lines_refines [OF p this] show ?thesis by (simp add: file_options_def)
qed

text \<open>
  The command line takes precedence. From the arguments of a file, exactly the options that the command
  line also gives are removed, each with its value, and the file's mode when the command line has
  one; everything else stays in order, and credentials are never removed.
\<close>

theorem cli_overrides_file:
  assumes "list_all plain_entry es"
  shows "strip_cli_overridden (concat (map entry_args es)) cli =
    concat (map entry_args
      (filter (\<lambda>e. if fst e = ''mode'' then \<not> cli_has_mode cli else fst e \<notin> set (override_keys cli)) es))"
proof -
  let ?kept = "filter (\<lambda>e. fst e = ''mode'' \<or> fst e \<notin> set (override_keys cli)) es"
  have f: "fold remove_earlier_option (remdups (override_keys cli)) (render es) = render ?kept"
    using fold_remove_render [OF assms, of "remdups (override_keys cli)"] by simp
  have k: "list_all plain_entry ?kept" using assms by (auto simp: list_all_iff)
  show ?thesis
  proof (cases "cli_has_mode cli")
    case True
    have "filter (\<lambda>e. fst e \<noteq> ''mode'') ?kept =
        filter (\<lambda>e. if fst e = ''mode'' then \<not> cli_has_mode cli else fst e \<notin> set (override_keys cli)) es"
      using True by (auto simp: filter_filter intro!: filter_cong)
    then show ?thesis
      using True f filter_mode_render [OF k] by (simp add: strip_cli_overridden_def cli_has_mode_def)
  next
    case False
    have "?kept = filter (\<lambda>e. if fst e = ''mode'' then \<not> cli_has_mode cli else fst e \<notin> set (override_keys cli)) es"
      using False by (intro filter_cong) auto
    then show ?thesis using False f by (simp add: strip_cli_overridden_def cli_has_mode_def)
  qed
qed

theorem config_last_wins_witness:
  "parse_config_text demo_text = Inr ([''--path'', ''/b''], False) \<and>
   [''--path'', ''/b''] = concat (map entry_args (last_wins (file_options demo_text)))"
proof -
  have p: "parse_config_text demo_text = Inr ([''--path'', ''/b''], False)" by code_simp
  have "list_all (\<lambda>e. \<not> dash_value e) (file_options demo_text)" by code_simp
  from config_last_wins [OF p this] p show ?thesis by simp
qed

theorem cli_overrides_file_witness:
  "strip_cli_overridden (concat (map entry_args [(''mode'', Some ''server''), (''idle'', Some ''9''), (''auth'', Some ''a:b'')]))
     [''-c'', ''--idle=30''] = concat (map entry_args [(''auth'', Some ''a:b'')])"
proof -
  let ?es = "[(''mode'', Some ''server''), (''idle'', Some ''9''), (''auth'', Some ''a:b'')]"
  have "option_args 0 ''mode'' (Some ''server'') = Inr [''-s'']" "option_args 0 ''idle'' (Some ''9'') = Inr [''--idle'', ''9'']"
    "option_args 0 ''auth'' (Some ''a:b'') = Inr [''--auth'', ''a:b'']"
    by code_simp+
  moreover have "list_all (\<lambda>e. fst e \<in> set long_options \<and> \<not> dash_value e) ?es" by code_simp
  ultimately have "list_all plain_entry ?es" by (simp add: plain_entry_def)
  moreover have "filter (\<lambda>e. if fst e = ''mode'' then \<not> cli_has_mode [''-c'', ''--idle=30'']
      else fst e \<notin> set (override_keys [''-c'', ''--idle=30''])) ?es = [(''auth'', Some ''a:b'')]"
    by code_simp
  ultimately show ?thesis using cli_overrides_file [of ?es "[''-c'', ''--idle=30'']"] by simp
qed

section \<open>Deviations from the comments\<close>

text \<open>A file with two \<open>mode\<close> lines selects both modes, although later lines are meant to override.\<close>

lemma mode_not_overridden:
  "parse_config_text (''mode = server'' @ [newline] @ ''mode = client'') = Inr ([''-s'', ''-c''], False)"
  by code_simp

text \<open>A value that begins with a dash survives the removal of its option and becomes a stray argument.\<close>

lemma dash_value_left: "remove_earlier_option ''path'' [''--path'', ''-a''] = [''-a'']"
  by code_simp

text \<open>Setting \<open>inbound-auth\<close> puts a password into the file, yet the file does not count as holding one.\<close>

lemma inbound_auth_no_creds:
  "parse_config_text ''inbound-auth = a:b'' = Inr ([''--inbound-auth'', ''a:b''], False)"
  by code_simp

end
