(* ===== verification/Server_Auth.thy ===== *)
theory Server_Auth
  imports Hub Config
begin

text \<open>
  The server's entry (\<open>src/src/server/mod.rs\<close>): the state built from a configuration, the check of the
  bearer header and of the in-band AUTH frame, the reaper loop and the graceful shutdown. The clock
  reading that the time window uses is an argument.
\<close>

section \<open>Building the state\<close>

text \<open>Collecting into a \<open>HashMap\<close>: a later pair replaces an earlier one with the same key.\<close>

definition user_keys :: "crypto_lib \<Rightarrow> (string \<times> string) list \<Rightarrow> (string, bytes) dmap" where
  "user_keys L users = fold (\<lambda>(u, p). AList.update u (derive_static_key L p u)) users []"

definition build_state :: "crypto_lib \<Rightarrow> server_cfg \<Rightarrow> server_state \<times> unauth_gate" where
  "build_state L cfg =
     (\<lparr>st_static_keys = user_keys L (sc_users cfg), st_heap = [], st_conns = [], st_conn_seq = 1,
       st_active_sessions = 0, st_max_sessions = sc_max_sessions cfg, st_rates = [],
       st_idle = 1000 * unat (sc_idle_secs cfg), st_allow_private_targets = sc_allow_private_targets cfg,
       st_seen_nonces = [], st_max_plaintext = sc_max_plaintext cfg, st_udp_dns = [],
       st_udp_dns_ttl = 1000 * unat (sc_udp_dns_ttl cfg)\<rparr>,
      gate_new (sc_max_unauth cfg) (clamp (sc_max_unauth cfg div 8) 2 64))"

section \<open>Authentication\<close>

definition bearer_user ::
  "crypto_lib \<Rightarrow> u64 \<Rightarrow> server_state \<Rightarrow> string option \<Rightarrow> (string \<times> bytes) option \<times> server_state" where
  "bearer_user L now st header =
     (case header of None \<Rightarrow> (None, st) | Some h \<Rightarrow>
      (case (case strip_prefix ''Bearer '' h of Some t \<Rightarrow> Some t | None \<Rightarrow> strip_prefix ''bearer '' h) of
         None \<Rightarrow> (None, st) | Some token \<Rightarrow>
      (case bearer_uid token of None \<Rightarrow> (None, st) | Some uid \<Rightarrow>
      (case map_of (st_static_keys st) uid of None \<Rightarrow> (None, st) | Some key \<Rightarrow>
      (case verify_bearer_parts L now token key uid AUTH_WINDOW of None \<Rightarrow> (None, st) | Some (ts, nonce) \<Rightarrow>
       let (fresh, st') = check_and_remember_nonce now st uid nonce ts in
       if \<not> fresh then (None, st') else (Some (uid, key), st'))))))"

definition bearer_ok :: "crypto_lib \<Rightarrow> u64 \<Rightarrow> server_state \<Rightarrow> string option \<Rightarrow> bool \<times> server_state" where
  "bearer_ok L now st header = (let (r, st') = bearer_user L now st header in (r \<noteq> None, st'))"

datatype auth_outcome =
  AuthAccepted string bytes auth_payload
| VersionMismatch u8 u8
| AuthRejected

text \<open>The loop over the users' keys; \<open>continue\<close> is the recursive call.\<close>

fun auth_with_keys ::
  "crypto_lib \<Rightarrow> u64 \<Rightarrow> server_state \<Rightarrow> frame \<Rightarrow> (string \<times> bytes) list \<Rightarrow> auth_outcome \<times> server_state" where
  "auth_with_keys L now st f [] = (AuthRejected, st)"
| "auth_with_keys L now st f ((uid, skey) # ks) =
     (case open_ct L (frame_cipher_new skey) (f_counter f) (f_aad f) (f_payload f) of
        Inl _ \<Rightarrow> auth_with_keys L now st f ks
      | Inr pt \<Rightarrow>
     (case auth_decode pt of
        Inl _ \<Rightarrow> auth_with_keys L now st f ks
      | Inr ap \<Rightarrow>
        if ap_uid ap \<noteq> uid then auth_with_keys L now st f ks
        else if \<not> proto_version_compatible ap then (VersionMismatch (ap_proto_version ap) PROTO_VERSION, st)
        else if \<not> auth_verify L now ap skey AUTH_WINDOW then auth_with_keys L now st f ks
        else
          let (fresh, st') = check_and_remember_nonce now st uid (ap_nonce ap) (ap_ts ap) in
          if \<not> fresh then (AuthRejected, st') else (AuthAccepted uid skey ap, st')))"

definition auth_from_frame :: "crypto_lib \<Rightarrow> u64 \<Rightarrow> server_state \<Rightarrow> frame \<Rightarrow> auth_outcome \<times> server_state" where
  "auth_from_frame L now st f = auth_with_keys L now st f (st_static_keys st)"

section \<open>Reaper and shutdown\<close>

text \<open>One tick of \<open>reaper_loop\<close>: the tokens the reaper cancelled count as cancelled for the sweep.\<close>

definition reaper_tick :: "millis \<Rightarrow> (token \<Rightarrow> bool) \<Rightarrow> server_state \<Rightarrow> server_state \<times> (token \<Rightarrow> bool)" where
  "reaper_tick now cancelled st =
     (let (st1, ts) = reap_idle now st; cancelled' = (\<lambda>t. cancelled t \<or> t \<in> set ts)
      in (sweep_conns cancelled' st1, cancelled'))"

definition conn_tokens :: "server_state \<Rightarrow> token list" where
  "conn_tokens st =
     List.map_filter (\<lambda>cid. map_option cs_cancel (map_of (st_heap st) cid)) (st_conns st)"

text \<open>
  \<open>graceful_shutdown\<close>: every live connection is cancelled, then the loop samples the session counter
  every 50 ms until it is zero or the grace period is over, then the connections are swept and the
  listeners aborted. \<open>samples\<close> are the states the loop observes while the tasks unwind, one per
  iteration with the time it is observed at; the result is the state when the wait ends.
\<close>

fun drain_wait :: "millis \<Rightarrow> server_state \<Rightarrow> (millis \<times> server_state) list \<Rightarrow> server_state" where
  "drain_wait deadline st [] = st"
| "drain_wait deadline st ((t, s) # ss) =
     (if st_active_sessions s \<noteq> 0 \<and> t < deadline then drain_wait deadline s ss else s)"

definition cancel_live :: "(token \<Rightarrow> bool) \<Rightarrow> server_state \<Rightarrow> token \<Rightarrow> bool" where
  "cancel_live cancelled st =
     (let tokens = filter (\<lambda>t. \<not> cancelled t) (conn_tokens st) in (\<lambda>t. cancelled t \<or> t \<in> set tokens))"

definition graceful_shutdown ::
  "(token \<Rightarrow> bool) \<Rightarrow> server_state \<Rightarrow> millis \<Rightarrow> (millis \<times> server_state) list \<Rightarrow> server_state \<times> (token \<Rightarrow> bool)" where
  "graceful_shutdown cancelled st deadline samples =
     (let cancelled' = cancel_live cancelled st;
          st' = drain_wait deadline st samples
      in (sweep_conns cancelled' st', cancelled'))"

section \<open>Abstract view\<close>

text \<open>An authentication attempt: an in-band frame or a bearer header; the user it is accepted for.\<close>

datatype auth_attempt = By_Frame frame | By_Bearer "string option"

fun attempt_user :: "crypto_lib \<Rightarrow> u64 \<Rightarrow> server_state \<Rightarrow> auth_attempt \<Rightarrow> string option \<times> server_state" where
  "attempt_user L now st (By_Frame f) =
     (case auth_from_frame L now st f of
        (AuthAccepted uid _ _, st') \<Rightarrow> (Some uid, st')
      | (VersionMismatch _ _, st') \<Rightarrow> (None, st')
      | (AuthRejected, st') \<Rightarrow> (None, st'))"
| "attempt_user L now st (By_Bearer h) = (let (r, st') = bearer_user L now st h in (map_option fst r, st'))"

fun after_attempts :: "crypto_lib \<Rightarrow> server_state \<Rightarrow> (u64 \<times> auth_attempt) list \<Rightarrow> server_state" where
  "after_attempts L st [] = st"
| "after_attempts L st ((now, a) # as) = after_attempts L (snd (attempt_user L now st a)) as"

text \<open>The time stamp and the nonce an attempt carries for a user with the key \<open>skey\<close>.\<close>

definition frame_stamp :: "crypto_lib \<Rightarrow> bytes \<Rightarrow> frame \<Rightarrow> (u64 \<times> bytes) option" where
  "frame_stamp L skey f =
     (case open_ct L (frame_cipher_new skey) (f_counter f) (f_aad f) (f_payload f) of
        Inl _ \<Rightarrow> None
      | Inr pt \<Rightarrow> (case auth_decode pt of Inl _ \<Rightarrow> None | Inr ap \<Rightarrow> Some (ap_ts ap, ap_nonce ap)))"

definition bearer_stamp :: "string option \<Rightarrow> (u64 \<times> bytes) option" where
  "bearer_stamp h =
     (case h of None \<Rightarrow> None | Some h \<Rightarrow>
      (case (case strip_prefix ''Bearer '' h of Some t \<Rightarrow> Some t | None \<Rightarrow> strip_prefix ''bearer '' h) of
         None \<Rightarrow> None
       | Some token \<Rightarrow>
           (case split_on CHR ''.'' token of
              _ # p1 # p2 # _ \<Rightarrow>
                (case (parse_uint 64 p1, unhex_exact SALT_LEN p2) of
                   (Some ts, Some nonce) \<Rightarrow> Some (of_nat ts, nonce)
                 | _ \<Rightarrow> None)
            | _ \<Rightarrow> None)))"

fun attempt_stamp :: "crypto_lib \<Rightarrow> (string, bytes) dmap \<Rightarrow> string \<Rightarrow> auth_attempt \<Rightarrow> (u64 \<times> bytes) option" where
  "attempt_stamp L keys uid (By_Frame f) =
     (case map_of keys uid of None \<Rightarrow> None | Some skey \<Rightarrow> frame_stamp L skey f)"
| "attempt_stamp L keys uid (By_Bearer h) = bearer_stamp h"

definition same_but_nonces :: "server_state \<Rightarrow> server_state \<Rightarrow> bool" where
  "same_but_nonces st st' \<longleftrightarrow> st' = st\<lparr>st_seen_nonces := st_seen_nonces st'\<rparr>"

section \<open>Lemmas\<close>

lemma user_keys_dm_ok [simp]: "dm_ok (user_keys L users)"
proof -
  have "dm_ok acc \<Longrightarrow> dm_ok (fold (\<lambda>(u, p). AList.update u (derive_static_key L p u)) users acc)" for acc
    by (induction users arbitrary: acc) (auto split: prod.split)
  then show ?thesis by (simp add: user_keys_def)
qed

lemma build_state_quota: "sc_max_sessions cfg < 2 ^ 64 \<Longrightarrow> quota_ok (fst (build_state L cfg))"
  by (simp add: build_state_def quota_ok_def heap_ok_def registered_def dm_all_def)

lemma same_but_nonces_refl [simp]: "same_but_nonces st st"
  by (simp add: same_but_nonces_def)

lemma check_same [simp]: "same_but_nonces st (snd (check_and_remember_nonce now st uid nonce ts))"
  by (simp add: same_but_nonces_def check_and_remember_nonce_def Let_def)

text \<open>What a successful round of the loop has checked, for the key it stopped at.\<close>

lemma auth_with_keys_accepted:
  assumes "auth_with_keys L now st f ks = (AuthAccepted uid skey ap, st')"
  shows "(uid, skey) \<in> set ks \<and>
    (\<exists>pt. open_ct L (frame_cipher_new skey) (f_counter f) (f_aad f) (f_payload f) = Inr pt \<and> auth_decode pt = Inr ap) \<and>
    ap_uid ap = uid \<and> proto_version_compatible ap \<and> auth_verify L now ap skey AUTH_WINDOW \<and>
    check_and_remember_nonce now st uid (ap_nonce ap) (ap_ts ap) = (True, st')"
  using assms by (induction ks) (auto split: sum.splits if_splits prod.splits)

lemma auth_with_keys_mismatch:
  assumes "auth_with_keys L now st f ks = (VersionMismatch v w, st')"
  shows "st' = st \<and> w = PROTO_VERSION \<and> v \<noteq> w \<and>
    (\<exists>(uid, skey) \<in> set ks. \<exists>pt ap. open_ct L (frame_cipher_new skey) (f_counter f) (f_aad f) (f_payload f) = Inr pt \<and>
       auth_decode pt = Inr ap \<and> ap_uid ap = uid \<and> ap_proto_version ap = v)"
  using assms
  by (induction ks) (fastforce simp: proto_version_compatible_def split: sum.splits if_splits prod.splits)+

lemma auth_with_keys_state:
  "snd (auth_with_keys L now st f ks) = st \<or>
   (\<exists>u n t. snd (auth_with_keys L now st f ks) = snd (check_and_remember_nonce now st u n t))"
proof (induction ks)
  case (Cons k ks)
  obtain uid skey where k: "k = (uid, skey)" by fastforce
  show ?case using Cons by (auto simp: k split: sum.splits prod.splits) (metis snd_conv)+
qed simp

lemma bearer_user_state:
  "snd (bearer_user L now st h) = st \<or>
   (\<exists>u n t. snd (bearer_user L now st h) = snd (check_and_remember_nonce now st u n t))"
  by (auto simp: bearer_user_def split: option.splits prod.splits) (metis snd_conv)+

lemma attempt_state:
  "snd (attempt_user L now st a) = st \<or>
   (\<exists>u n t. snd (attempt_user L now st a) = snd (check_and_remember_nonce now st u n t))"
proof (cases a)
  case (By_Frame f)
  have "snd (attempt_user L now st a) = snd (auth_from_frame L now st f)"
    by (simp add: By_Frame split: prod.split auth_outcome.split)
  then show ?thesis using auth_with_keys_state [of L now st f "st_static_keys st"] by (simp add: auth_from_frame_def)
next
  case (By_Bearer h)
  then show ?thesis using bearer_user_state [of L now st h] by (simp add: split_def Let_def)
qed

lemma attempt_same: "same_but_nonces st (snd (attempt_user L now st a))"
  using attempt_state [of L now st a] by auto

lemma attempt_keys [simp]: "st_static_keys (snd (attempt_user L now st a)) = st_static_keys st"
  using attempt_same [of st L now a] by (metis same_but_nonces_def server_state.select_convs(1) server_state.surjective server_state.update_convs(10))

lemma after_attempts_keys [simp]: "st_static_keys (after_attempts L st as) = st_static_keys st"
  by (induction L st as rule: after_attempts.induct) auto

lemma bearer_stamp_of:
  assumes "verify_bearer_parts L now token key uid w = Some (ts, nonce)"
    and "(case strip_prefix ''Bearer '' h of Some t \<Rightarrow> Some t | None \<Rightarrow> strip_prefix ''bearer '' h) = Some token"
  shows "bearer_stamp (Some h) = Some (ts, nonce) \<and> \<not> outside_window now ts w"
  using assms by (auto simp: bearer_stamp_def verify_bearer_parts_def Let_def split: list.splits option.splits if_splits)

lemma attempt_accepted:
  assumes "attempt_user L now st a = (Some uid, st')" "dm_ok (st_static_keys st)"
  obtains ts nonce where "attempt_stamp L (st_static_keys st) uid a = Some (ts, nonce)"
    "\<not> outside_window now ts AUTH_WINDOW" "check_and_remember_nonce now st uid nonce ts = (True, st')"
proof (cases a)
  case (By_Frame f)
  then obtain skey ap where a: "auth_with_keys L now st f (st_static_keys st) = (AuthAccepted uid skey ap, st')"
    using assms(1) by (auto simp: auth_from_frame_def split: prod.splits auth_outcome.splits)
  note acc = auth_with_keys_accepted [OF a]
  then have "map_of (st_static_keys st) uid = Some skey" using assms(2) by simp
  then show ?thesis
    using acc that [of "ap_ts ap" "ap_nonce ap"] by (auto simp: By_Frame frame_stamp_def auth_verify_def split: if_splits)
next
  case (By_Bearer h)
  then show ?thesis
    using assms(1) that bearer_stamp_of
    by (fastforce simp: bearer_user_def split: option.splits prod.splits if_splits)
qed

text \<open>A remembered nonce stays in the cache as long as the clock is within two windows of its stamp.\<close>

lemma attempt_keeps_nonce:
  assumes "dm_ok (st_seen_nonces st)" "map_of (st_seen_nonces st) k = Some ts" "ts \<noteq> 0"
    and "unat now < unat ts + 2 * unat AUTH_WINDOW"
  shows "map_of (st_seen_nonces (snd (attempt_user L now st a))) k = Some ts \<and>
         dm_ok (st_seen_nonces (snd (attempt_user L now st a)))"
  using attempt_state [of L now st a] nonce_kept [OF assms] assms(1,2) by metis

lemma after_attempts_keep_nonce:
  assumes "dm_ok (st_seen_nonces st)" "map_of (st_seen_nonces st) k = Some ts" "ts \<noteq> 0"
    and "list_all (\<lambda>(now, a). unat now < unat ts + 2 * unat AUTH_WINDOW) as"
  shows "map_of (st_seen_nonces (after_attempts L st as)) k = Some ts"
  using assms
proof (induction L st as rule: after_attempts.induct)
  case (2 L st now a as)
  then show ?case using attempt_keeps_nonce [of st k ts now L a] by (simp del: map_of_eq_Some_iff)
qed simp

lemma auth_decode_mac: "auth_decode b = Inr ap \<Longrightarrow> length (ap_mac ap) = MAC_LEN"
  by (auto simp: auth_decode_def slice_def Let_def MAC_LEN_def split: if_splits option.splits)

lemma auth_verified:
  assumes "hmac_ok L" "length (ap_mac ap) = MAC_LEN" "auth_verify L now ap key window"
  shows "unat now \<le> unat (ap_ts ap) + unat window \<and> unat (ap_ts ap) \<le> unat now + unat window \<and>
     ap_mac ap = auth_mac L key (ap_uid ap) (ap_ts ap) (ap_nonce ap)"
proof -
  have "length (auth_mac L key (ap_uid ap) (ap_ts ap) (ap_nonce ap)) = MAC_LEN"
    using assms(1) by (simp add: hmac_ok_def auth_mac_def)
  then show ?thesis
    using assms(2,3) by (auto simp: auth_verify_def outside_window_iff ct_diff_zero_iff split: if_splits)
qed

text \<open>Completeness of the loop: a genuine frame that no earlier key opens is accepted when its nonce is.\<close>

lemma open_of_seal: "aead_ok L \<Longrightarrow> seal L fc counter aad p = Inr c \<Longrightarrow> open_ct L fc counter aad c = Inr p"
  by (auto simp: seal_def seal_slice_open(1))

lemma seal_total: "aead_total L \<Longrightarrow> length p \<le> MAX_PLAINTEXT_CAP \<Longrightarrow> \<exists>c. seal L fc counter aad p = Inr c"
  by (metis seal_slice_total seal_def and_then.simps(2) case_prod_conv)

lemma auth_verify_genuine:
  assumes "ap_mac ap = auth_mac L key (ap_uid ap) (ap_ts ap) (ap_nonce ap)" "\<not> outside_window now (ap_ts ap) window"
  shows "auth_verify L now ap key window"
  using assms by (simp add: auth_verify_def ct_diff_zero_iff)

lemma auth_with_keys_skip:
  assumes "list_all (\<lambda>(u, k). \<exists>e. open_ct L (frame_cipher_new k) (f_counter f) (f_aad f) (f_payload f) = Inl e) ks"
  shows "auth_with_keys L now st f (ks @ ks') = auth_with_keys L now st f ks'"
  using assms by (induction ks) auto

text \<open>The wait of the shutdown stops at the first sample that allows it.\<close>

lemma drain_wait_first:
  assumes "\<exists>(t, s) \<in> set samples. st_active_sessions s = 0 \<or> deadline \<le> t"
  shows "\<exists>early t s late. samples = early @ (t, s) # late \<and> drain_wait deadline st samples = s \<and>
    (st_active_sessions s = 0 \<or> deadline \<le> t) \<and> list_all (\<lambda>(t, s). st_active_sessions s \<noteq> 0 \<and> t < deadline) early"
  using assms
proof (induction samples arbitrary: st)
  case (Cons p samples)
  obtain t s where p: "p = (t, s)" by fastforce
  show ?case
  proof (cases "st_active_sessions s \<noteq> 0 \<and> t < deadline")
    case True
    then have "\<exists>(t, s) \<in> set samples. st_active_sessions s = 0 \<or> deadline \<le> t" using Cons.prems p by auto
    from Cons.IH [OF this, of s] obtain early t' s' late where "samples = early @ (t', s') # late"
      "drain_wait deadline s samples = s'" "st_active_sessions s' = 0 \<or> deadline \<le> t'"
      "list_all (\<lambda>(t, s). st_active_sessions s \<noteq> 0 \<and> t < deadline) early" by blast
    then show ?thesis using True p by (intro exI [of _ "(t, s) # early"] exI [of _ t'] exI [of _ s'] exI [of _ late]) simp
  next
    case False
    then show ?thesis using p by (intro exI [of _ "[]"] exI [of _ t] exI [of _ s] exI [of _ samples]) auto
  qed
qed simp

section \<open>Properties\<close>

text \<open>
  C2. The in-band authentication. A frame is accepted for a user only when the key registered for that
  user opens it to a well-formed payload that names the user, has the server's protocol version, a
  time stamp within the window and the right authentication code, and when its nonce was not seen
  before; the nonce is remembered then. A version mismatch is reported only for a payload sealed with
  a registered key and leaves the replay cache untouched, and in every case the state changes in
  nothing but the replay cache.
\<close>

theorem auth_from_frame_sound:
  assumes "hmac_ok L" "dm_ok (st_static_keys st)"
  shows "same_but_nonces st (snd (auth_from_frame L now st f)) \<and>
    (case fst (auth_from_frame L now st f) of
       AuthAccepted uid key ap \<Rightarrow>
         map_of (st_static_keys st) uid = Some key \<and>
         (\<exists>pt. open_ct L (frame_cipher_new key) (f_counter f) (f_aad f) (f_payload f) = Inr pt \<and> auth_decode pt = Inr ap) \<and>
         ap_uid ap = uid \<and> ap_proto_version ap = PROTO_VERSION \<and>
         unat now \<le> unat (ap_ts ap) + 60 \<and> unat (ap_ts ap) \<le> unat now + 60 \<and>
         ap_mac ap = auth_mac L key uid (ap_ts ap) (ap_nonce ap) \<and>
         \<not> dm_contains (st_seen_nonces st) (nonce_key uid (ap_ts ap) (ap_nonce ap)) \<and>
         dm_contains (st_seen_nonces (snd (auth_from_frame L now st f))) (nonce_key uid (ap_ts ap) (ap_nonce ap))
     | VersionMismatch v w \<Rightarrow>
         snd (auth_from_frame L now st f) = st \<and> w = PROTO_VERSION \<and> v \<noteq> w \<and>
         (\<exists>uid key pt ap. map_of (st_static_keys st) uid = Some key \<and>
            open_ct L (frame_cipher_new key) (f_counter f) (f_aad f) (f_payload f) = Inr pt \<and>
            auth_decode pt = Inr ap \<and> ap_uid ap = uid \<and> ap_proto_version ap = v)
     | AuthRejected \<Rightarrow> True)" (is "_ \<and> ?G")
proof (intro conjI)
  show "same_but_nonces st (snd (auth_from_frame L now st f))"
    using auth_with_keys_state [of L now st f "st_static_keys st"] by (auto simp: auth_from_frame_def)
  obtain r st' where e: "auth_from_frame L now st f = (r, st')" by fastforce
  show ?G
  proof (cases r)
    case (AuthAccepted uid key ap)
    note acc = auth_with_keys_accepted [OF e [unfolded auth_from_frame_def AuthAccepted]]
    then have k: "map_of (st_static_keys st) uid = Some key" using assms(2) by simp
    have "length (ap_mac ap) = MAC_LEN" using acc auth_decode_mac by blast
    from auth_verified [OF assms(1) this, of now key AUTH_WINDOW] have "unat now \<le> unat (ap_ts ap) + 60 \<and> unat (ap_ts ap) \<le> unat now + 60 \<and>
        ap_mac ap = auth_mac L key uid (ap_ts ap) (ap_nonce ap)"
      using acc by (auto simp: AUTH_WINDOW_def)
    moreover have "dm_contains (st_seen_nonces st') (nonce_key uid (ap_ts ap) (ap_nonce ap))"
      using nonce_remembered [of now st uid "ap_nonce ap" "ap_ts ap"] acc by (simp add: dm_contains_def del: dm_contains_iff)
    moreover have "\<not> dm_contains (st_seen_nonces st) (nonce_key uid (ap_ts ap) (ap_nonce ap))"
      using acc nonce_accept_iff [of now st uid "ap_nonce ap" "ap_ts ap"] by (simp del: dm_contains_iff)
    ultimately show ?thesis
      using acc k by (simp add: e AuthAccepted proto_version_compatible_def del: dm_contains_iff map_of_eq_Some_iff)
  next
    case (VersionMismatch v w)
    from auth_with_keys_mismatch [OF e [unfolded auth_from_frame_def VersionMismatch]] show ?thesis
      using assms(2) by (fastforce simp: e VersionMismatch)
  qed (simp add: e)
qed

text \<open>
  C9. Credentials are accepted once. Whatever other attempts happen in between, a frame or bearer header
  that was accepted for a user is never accepted for that user again, as long as the server's clock
  does not run backwards and the first reading is past the first minute of the epoch.
\<close>

theorem accepted_once:
  assumes "dm_ok (st_seen_nonces st)" "dm_ok (st_static_keys st)" "60 < unat now0"
    and "attempt_user L now0 st a = (Some uid, st1)"
    and "sorted (map unat (now0 # map fst as @ [now]))"
  shows "fst (attempt_user L now (after_attempts L st1 as) a) \<noteq> Some uid"
proof
  assume again: "fst (attempt_user L now (after_attempts L st1 as) a) = Some uid"
  have keys: "st_static_keys st1 = st_static_keys st" using attempt_keys [of L now0 st a] assms(4) by simp
  obtain ts nonce where fst1: "attempt_stamp L (st_static_keys st) uid a = Some (ts, nonce)"
    "\<not> outside_window now0 ts AUTH_WINDOW" "check_and_remember_nonce now0 st uid nonce ts = (True, st1)"
    using attempt_accepted [OF assms(4,2)] .
  obtain st2 where "attempt_user L now (after_attempts L st1 as) a = (Some uid, st2)"
    using again by (metis prod.collapse)
  then obtain ts' nonce' where snd1: "attempt_stamp L (st_static_keys st) uid a = Some (ts', nonce')"
    "\<not> outside_window now ts' AUTH_WINDOW" "check_and_remember_nonce now (after_attempts L st1 as) uid nonce' ts' = (True, st2)"
    using attempt_accepted [of L now "after_attempts L st1 as" a uid st2] assms(2) keys by auto
  then have e: "ts' = ts" "nonce' = nonce" using fst1 by auto
  have w: "unat now0 \<le> unat ts + 60" "unat ts \<le> unat now0 + 60" "unat now \<le> unat ts + 60"
    using fst1(2) snd1(2) e by (auto simp: outside_window_iff AUTH_WINDOW_def)
  then have ts0: "ts \<noteq> 0" using assms(3) by auto
  have "list_all (\<lambda>(n, a). unat n < unat ts + 2 * unat AUTH_WINDOW) as"
    using assms(5) w(3) by (fastforce simp: list_all_iff sorted_append AUTH_WINDOW_def)
  moreover have "map_of (st_seen_nonces st1) (nonce_key uid ts nonce) = Some ts"
    using nonce_remembered [of now0 st uid nonce ts] fst1(3) by simp
  moreover have "dm_ok (st_seen_nonces st1)"
    using fst1(3) assms(1) by (auto simp: check_and_remember_nonce_def Let_def split: if_splits)
  ultimately have "map_of (st_seen_nonces (after_attempts L st1 as)) (nonce_key uid ts nonce) = Some ts"
    using after_attempts_keep_nonce ts0 by blast
  then have "dm_contains (st_seen_nonces (after_attempts L st1 as)) (nonce_key uid ts nonce)"
    by (simp add: dm_contains_def del: dm_contains_iff)
  then have "\<not> fst (check_and_remember_nonce now (after_attempts L st1 as) uid nonce ts)"
    by (simp add: nonce_accept_iff del: dm_contains_iff)
  then show False using snd1(3) e by simp
qed

text \<open>
  C31. Shutting down ends. As soon as the loop sees no session left or the grace period over, the wait ends with that state, and
  not before; then no connection that was live at the start is listed any more, since its token is
  cancelled, and every live connection was cancelled before the wait.
\<close>

theorem shutdown_ends:
  assumes "\<exists>(t, s) \<in> set samples. st_active_sessions s = 0 \<or> deadline \<le> t"
    and "\<forall>(t, s) \<in> set samples. \<forall>cid \<in> set (st_conns st).
      map_option cs_cancel (map_of (st_heap s) cid) = map_option cs_cancel (map_of (st_heap st) cid)"
    and "set (st_conns st) \<subseteq> fst ` set (st_heap st)"
    and "graceful_shutdown cancelled st deadline samples = (st', cancelled')"
  shows "(\<exists>early t s late. samples = early @ (t, s) # late \<and> st' = sweep_conns cancelled' s \<and>
            (st_active_sessions s = 0 \<or> deadline \<le> t) \<and>
            list_all (\<lambda>(t, s). st_active_sessions s \<noteq> 0 \<and> t < deadline) early) \<and>
         list_all cancelled' (conn_tokens st) \<and>
         set (st_conns st) \<inter> set (st_conns st') = {}"
proof -
  obtain early t s late where p: "samples = early @ (t, s) # late" "drain_wait deadline st samples = s"
    "st_active_sessions s = 0 \<or> deadline \<le> t" "list_all (\<lambda>(t, s). st_active_sessions s \<noteq> 0 \<and> t < deadline) early"
    using drain_wait_first [OF assms(1)] by blast
  have st': "st' = sweep_conns cancelled' s" and c: "cancelled' = cancel_live cancelled st"
    using assms(4) p(2) by (auto simp: graceful_shutdown_def Let_def)
  have all: "list_all cancelled' (conn_tokens st)" by (simp add: c cancel_live_def list_all_iff Let_def)
  have "cid \<notin> set (st_conns st')" if cid: "cid \<in> set (st_conns st)" for cid
  proof -
    obtain k where k: "map_of (st_heap st) cid = Some k"
      using cid assms(3) by (metis map_of_eq_None_iff not_Some_eq subsetD)
    then have "cs_cancel k \<in> set (conn_tokens st)" using cid by (force simp: conn_tokens_def List.map_filter_def simp del: map_of_eq_Some_iff)
    then have "cancelled' (cs_cancel k)" using all by (simp add: list_all_iff)
    moreover have "map_option cs_cancel (map_of (st_heap s) cid) = Some (cs_cancel k)"
      using assms(2) p(1) cid k by auto
    ultimately show ?thesis by (auto simp: st' sweep_conns_def simp del: map_of_eq_Some_iff)
  qed
  then show ?thesis using p st' all by blast
qed

theorem shutdown_ends_witness:
  "set (st_conns (fst (graceful_shutdown (\<lambda>_. False) demo_server 500 [(50, demo_server), (500, demo_server)]))) = {}"
proof -
  obtain st' c' where g: "graceful_shutdown (\<lambda>_. False) demo_server 500 [(50, demo_server), (500, demo_server)] = (st', c')"
    by fastforce
  from shutdown_ends [OF _ _ _ g] have "set (st_conns demo_server) \<inter> set (st_conns st') = {}"
    by (simp add: demo_server_def)
  moreover have "set (st_conns st') \<subseteq> set (st_conns demo_server)"
    using g by (auto simp: graceful_shutdown_def sweep_conns_def Let_def split: if_splits)
  ultimately have "set (st_conns st') = {}" by (metis inf.absorb2)
  then show ?thesis by (simp only: g fst_conv)
qed

definition demo_auth_frame :: frame where
  "demo_auth_frame = \<lparr>f_type = Auth, f_flags = 0, f_sid = 0, f_counter = 1, f_aad = [1, 2],
     f_payload = (case seal demo_lib (frame_cipher_new [5]) 1 [1, 2] (auth_encode demo_auth) of Inr c \<Rightarrow> c | Inl _ \<Rightarrow> [])\<rparr>"

text \<open>Another user's bearer token arrives between the two copies of the frame.\<close>

definition demo_bearer :: "string option" where
  "demo_bearer = Some (''Bearer '' @ make_bearer demo_lib 90 (replicate 16 7) [6] ''bob'')"

definition demo_auth_server :: server_state where
  "demo_auth_server = demo_server\<lparr>st_static_keys := [(''alice'', [5]), (''bob'', [6])], st_seen_nonces := []\<rparr>"

lemma demo_accepted: "fst (auth_from_frame demo_lib 100 demo_auth_server demo_auth_frame) = AuthAccepted ''alice'' [5] demo_auth"
proof -
  have len: "length (auth_encode demo_auth) \<le> MAX_PLAINTEXT_CAP"
    using demo_auth_wf by (auto simp: auth_encode_def auth_wf_def demo_auth_def MAX_PLAINTEXT_CAP_def)
  obtain c where c: "seal demo_lib (frame_cipher_new [5]) 1 [1, 2] (auth_encode demo_auth) = Inr c"
    using seal_total [OF demo_lib_ok(2) len] by blast
  have d: "auth_decode (auth_encode demo_auth) = Inr demo_auth"
    using auth_codec.dec_enc_tail [OF demo_auth_wf, of "[]"] by simp
  have v: "auth_verify demo_lib 100 demo_auth [5] AUTH_WINDOW"
    by (rule auth_verify_genuine) (simp_all add: demo_auth_def outside_window_iff AUTH_WINDOW_def)
  have f: "ap_uid demo_auth = ''alice'' \<and> proto_version_compatible demo_auth"
    by (simp add: demo_auth_def proto_version_compatible_def PROTO_VERSION_def)
  have n: "fst (check_and_remember_nonce 100 demo_auth_server u n t)" for u n t
    by (simp add: nonce_accept_iff demo_auth_server_def NONCE_CAP_def dm_retain_def)
  show ?thesis
    using open_of_seal [OF demo_lib_ok(1) c] n [of "''alice''" "ap_nonce demo_auth" "ap_ts demo_auth"]
    by (simp add: auth_from_frame_def demo_auth_frame_def c d v f)
       (simp add: demo_auth_server_def d v f split_def Let_def)
qed

theorem auth_from_frame_sound_witness:
  "fst (auth_from_frame demo_lib 100 demo_auth_server demo_auth_frame) = AuthAccepted ''alice'' [5] demo_auth \<and>
   dm_contains (st_seen_nonces (snd (auth_from_frame demo_lib 100 demo_auth_server demo_auth_frame)))
     (nonce_key ''alice'' 77 (replicate 16 3))"
proof -
  have "dm_ok (st_static_keys demo_auth_server)" by (simp add: demo_auth_server_def)
  from auth_from_frame_sound [OF demo_lib_ok(3) this, of 100 demo_auth_frame] show ?thesis
    by (simp add: demo_accepted demo_auth_def del: dm_contains_iff)
qed

theorem accepted_once_witness:
  "fst (attempt_user demo_lib 120
     (after_attempts demo_lib (snd (attempt_user demo_lib 100 demo_auth_server (By_Frame demo_auth_frame)))
       [(110, By_Bearer demo_bearer)]) (By_Frame demo_auth_frame)) \<noteq> Some ''alice''"
proof (rule accepted_once)
  show "attempt_user demo_lib 100 demo_auth_server (By_Frame demo_auth_frame) =
    (Some ''alice'', snd (attempt_user demo_lib 100 demo_auth_server (By_Frame demo_auth_frame)))"
    using demo_accepted by (simp add: prod_eq_iff split_def)
qed (simp_all add: demo_auth_server_def)

end
