(* ===== verification/Server_Fallback.thy ===== *)
theory Server_Fallback
  imports Server_Auth
begin

text \<open>
  The HTTPS front of the server (\<open>src/src/server/fallback.rs\<close>, \<open>src/src/proto/stream.rs\<close>): the routes, the
  two ways to open a mode-A channel (a long POST and a WebSocket), the connection they set up, and
  the plain HTTP listener. A handler that waits for the in-band AUTH frame is split at that wait,
  since other requests change the server in between. Sockets, the file system and the frame bytes
  that arrive are arguments.
\<close>

section \<open>A byte stream as a reader\<close>

record stream_as_read =
  sr_stream :: "(string + bytes) list"
  sr_buf :: bytes
  sr_done :: bool

definition stream_as_read_new :: "(string + bytes) list \<Rightarrow> stream_as_read" where
  "stream_as_read_new items = \<lparr>sr_stream = items, sr_buf = [], sr_done = False\<rparr>"

text \<open>The loop of \<open>poll_read\<close> once the buffer is empty; a pending stream waits for its next item.\<close>

fun poll_stream :: "nat \<Rightarrow> (string + bytes) list \<Rightarrow> (io_error + bytes) \<times> stream_as_read" where
  "poll_stream remaining [] = (Inr [], \<lparr>sr_stream = [], sr_buf = [], sr_done = True\<rparr>)"
| "poll_stream remaining (Inl e # items) =
     (Inl (Io_Error e), \<lparr>sr_stream = items, sr_buf = [], sr_done = False\<rparr>)"
| "poll_stream remaining (Inr b # items) =
     (if b \<noteq> [] then
        let n = min (length b) remaining in
        (Inr (take n b), \<lparr>sr_stream = items, sr_buf = drop n b, sr_done = False\<rparr>)
      else poll_stream remaining items)"

definition poll_read :: "nat \<Rightarrow> stream_as_read \<Rightarrow> (io_error + bytes) \<times> stream_as_read" where
  "poll_read remaining s =
     (if sr_buf s \<noteq> [] then
        let n = min (length (sr_buf s)) remaining in
        (Inr (take n (sr_buf s)), s\<lparr>sr_buf := drop n (sr_buf s)\<rparr>)
      else if sr_done s then (Inr [], s)
      else poll_stream remaining (sr_stream s))"

section \<open>Connections\<close>

definition MAX_PER_CONN :: nat where [const_defs]: "MAX_PER_CONN = 64"

text \<open>What the environment supplies: the clocks, a fresh token and a fresh rate limiter.\<close>

record accept_env =
  ae_unix :: u64
  ae_now :: millis
  ae_token :: token
  ae_limiter :: nat

definition session_cipher :: "crypto_lib \<Rightarrow> bytes \<Rightarrow> auth_payload \<Rightarrow> frame_cipher" where
  "session_cipher L static_key ap = frame_cipher_new (derive_session_key L static_key (ap_salt ap))"

definition new_conn :: "accept_env \<Rightarrow> server_state \<Rightarrow> string \<Rightarrow> frame_cipher \<Rightarrow> nat \<Rightarrow> u64 \<times> server_state" where
  "new_conn A st uid cipher negotiated =
     (let conn_id = st_conn_seq st;
          (rate, st1) = rate_for (st\<lparr>st_conn_seq := st_conn_seq st + 1\<rparr>) (ae_limiter A) uid;
          conn = \<lparr>cs_id = conn_id, cs_uid = uid, cs_cipher = cipher, cs_stream_counters = counter_stream_server,
                  cs_cancel = ae_token A, cs_sessions = [], cs_tcp_routes = [], cs_udp_routes = [],
                  cs_max_per_conn = MAX_PER_CONN, cs_last_active = ae_now A, cs_limit = negotiated\<rparr>
      in (conn_id, st1\<lparr>st_heap := AList.update conn_id conn (st_heap st1),
                       st_conns := List.insert conn_id (st_conns st1)\<rparr>))"

text \<open>The reader before authentication: frames are returned sealed.\<close>

definition raw_decoder :: frame_decoder where
  "raw_decoder = (frame_decoder_new None None MAX_PLAINTEXT)\<lparr>dec_raw := True\<rparr>"

definition auth_ok_frame :: "nat \<Rightarrow> out_frame" where
  "auth_ok_frame negotiated = out_frame_new AuthOk 0 0 (to_le_bytes (of_nat negotiated :: u32))"

section \<open>Mode-A channels\<close>

definition read_mode_a_auth ::
  "crypto_lib \<Rightarrow> u64 \<Rightarrow> server_state \<Rightarrow> frame_decoder \<Rightarrow> bool \<Rightarrow> byte_reads \<Rightarrow>
   auth_outcome \<times> server_state \<times> frame_decoder \<times> byte_reads" where
  "read_mode_a_auth L now st d timed_out src =
     (if timed_out then (AuthRejected, st, d, src)
      else (case frame_read L d src of
          (Inr (Some f), d', src') \<Rightarrow>
            if f_type f = Auth then (let (r, st') = auth_from_frame L now st f in (r, st', d', src'))
            else (AuthRejected, st, d', src')
        | (_, d', src') \<Rightarrow> (AuthRejected, st, d', src')))"

text \<open>The channel: its connection, its reader with the session key, its encoder, and its queue of frames to send.\<close>

record mode_a =
  ma_conn :: u64
  ma_reader :: frame_decoder
  ma_encoder :: frame_encoder
  ma_queue :: "out_frame list"

definition spawn_mode_a_channel ::
  "crypto_lib \<Rightarrow> accept_env \<Rightarrow> server_state \<Rightarrow> string \<Rightarrow> bytes \<Rightarrow> auth_payload \<Rightarrow> frame_decoder \<Rightarrow> nat \<Rightarrow>
   mode_a \<times> server_state" where
  "spawn_mode_a_channel L A st uid static_key ap reader negotiated =
     (let cipher = session_cipher L static_key ap;
          reader' = (set_cipher reader cipher)\<lparr>dec_limit := negotiated\<rparr>;
          (conn_id, st') = new_conn A st uid cipher negotiated
      in (\<lparr>ma_conn = conn_id, ma_reader = reader',
           ma_encoder = \<lparr>enc_cipher = cipher, enc_counters = counter_stream_server, enc_limit = negotiated\<rparr>,
           ma_queue = [auth_ok_frame negotiated]\<rparr>, st'))"

text \<open>The writer task: a frame that cannot be encoded is dropped; \<open>n\<close> sends are accepted.\<close>

fun mode_a_writer :: "crypto_lib \<Rightarrow> nat \<Rightarrow> frame_encoder \<Rightarrow> out_frame list \<Rightarrow> bytes list" where
  "mode_a_writer L n e [] = []"
| "mode_a_writer L n e (f # fs) =
     (case encode L e (of_type f) (of_flags f) (of_sid f) (of_payload f) of
        (Inr wire, e') \<Rightarrow> (case n of 0 \<Rightarrow> [] | Suc k \<Rightarrow> wire # mode_a_writer L k e' fs)
      | (Inl _, e') \<Rightarrow> mode_a_writer L n e' fs)"

text \<open>What follows the end of the server loop.\<close>

definition mode_a_end :: "server_state \<Rightarrow> u64 \<Rightarrow> server_state \<times> token list" where
  "mode_a_end st conn_id =
     (st\<lparr>st_conns := removeAll conn_id (st_conns st)\<rparr>,
      (case map_of (st_heap st) conn_id of Some c \<Rightarrow> [cs_cancel c] | None \<Rightarrow> []))"

section \<open>Handlers\<close>

datatype http_response =
  DisguisePage
| ChannelStream mode_a
| WsUpgrade
| Redirect string
| TextBody bytes

text \<open>Dropping the guard of an admission without an address returns the global slot.\<close>

definition drop_guard :: "unauth_gate \<Rightarrow> unauth_gate" where
  "drop_guard g = snd (gate_advance g (Admitted None))"

text \<open>Up to the wait for the AUTH frame; \<open>Some\<close> is a final answer.\<close>

definition api_begin ::
  "crypto_lib \<Rightarrow> u64 \<Rightarrow> server_state \<times> unauth_gate \<Rightarrow> string option \<Rightarrow>
   http_response option \<times> server_state \<times> unauth_gate" where
  "api_begin L now w auth =
     (let (st, g) = w; (admitted, g1) = try_admit g None in
      if \<not> admitted then (Some DisguisePage, st, g1)
      else
        let (ok, st1) = bearer_ok L now st auth in
        if \<not> ok then (Some DisguisePage, st1, drop_guard g1) else (None, st1, g1))"

definition channel_of ::
  "crypto_lib \<Rightarrow> accept_env \<Rightarrow> server_state \<times> unauth_gate \<Rightarrow> bool \<Rightarrow> byte_reads \<Rightarrow>
   mode_a option \<times> server_state \<times> unauth_gate" where
  "channel_of L A w timed_out src =
     (let (st, g) = w; (r, st1, d, src') = read_mode_a_auth L (ae_unix A) st raw_decoder timed_out src in
      case r of
        AuthAccepted uid static_key ap \<Rightarrow>
          let negotiated = negotiate (ap_max_plaintext ap) (of_nat (st_max_plaintext st1));
              (ch, st2) = spawn_mode_a_channel L A st1 uid static_key ap d negotiated
          in (Some ch, st2, drop_guard g)
      | VersionMismatch _ _ \<Rightarrow> (None, st1, drop_guard g)
      | AuthRejected \<Rightarrow> (None, st1, drop_guard g))"

definition api_finish ::
  "crypto_lib \<Rightarrow> accept_env \<Rightarrow> server_state \<times> unauth_gate \<Rightarrow> bool \<Rightarrow> byte_reads \<Rightarrow>
   http_response \<times> server_state \<times> unauth_gate" where
  "api_finish L A w timed_out src =
     (let (r, w') = channel_of L A w timed_out src in
      (case r of Some ch \<Rightarrow> ChannelStream ch | None \<Rightarrow> DisguisePage, w'))"

definition ws_handler ::
  "crypto_lib \<Rightarrow> u64 \<Rightarrow> server_state \<Rightarrow> string option \<Rightarrow> bool \<Rightarrow> http_response \<times> server_state" where
  "ws_handler L now st auth is_upgrade =
     (let (ok, st1) = bearer_ok L now st auth in
      (if ok \<and> is_upgrade then WsUpgrade else DisguisePage, st1))"

text \<open>The messages of a WebSocket that reach the decoder; an error ends the stream like a close.\<close>

datatype ws_message = WsBinary bytes | WsClose | WsOther | WsError

fun ws_incoming :: "ws_message list \<Rightarrow> bytes list" where
  "ws_incoming [] = []"
| "ws_incoming (WsBinary b # ms) = b # ws_incoming ms"
| "ws_incoming (WsClose # ms) = []"
| "ws_incoming (WsError # ms) = []"
| "ws_incoming (WsOther # ms) = ws_incoming ms"

definition ws_channel_begin :: "unauth_gate \<Rightarrow> bool \<times> unauth_gate" where
  "ws_channel_begin g = try_admit g None"

definition ws_channel_finish ::
  "crypto_lib \<Rightarrow> accept_env \<Rightarrow> server_state \<times> unauth_gate \<Rightarrow> bool \<Rightarrow> byte_reads \<Rightarrow>
   mode_a option \<times> server_state \<times> unauth_gate" where
  "ws_channel_finish = channel_of"

datatype http_method = GET | HEAD | POST | OtherMethod

text \<open>
  The routes of the TLS listener: which handler serves a request. A handler for \<open>GET\<close> also serves
  \<open>HEAD\<close>, and any other method on the API path is answered by the router itself.
\<close>

datatype route = Ws_Route | Api_Route | Disguise_Route | Method_Not_Allowed

definition router :: "string \<Rightarrow> http_method \<Rightarrow> string \<Rightarrow> route" where
  "router api_path meth path =
     (if path = api_path then
        (case meth of GET \<Rightarrow> Ws_Route | HEAD \<Rightarrow> Ws_Route | POST \<Rightarrow> Api_Route | OtherMethod \<Rightarrow> Method_Not_Allowed)
      else Disguise_Route)"

section \<open>Plain HTTP\<close>

definition host_char :: "char \<Rightarrow> bool" where
  "host_char c \<longleftrightarrow> is_ascii_alphanumeric c \<or> c \<in> set ''.-:[]''"

definition build_redirect_target :: "string \<Rightarrow> string \<Rightarrow> string" where
  "build_redirect_target host path =
     (let h = trim host;
          host_ok = (h \<noteq> [] \<and> length h \<le> 253 \<and> list_all host_char h);
          h' = (if host_ok then h else ''localhost'');
          p = (if starts_with ''/'' path then path else ''/'')
      in ''https://'' @ h' @ p)"

definition redirect_handler :: "string option \<Rightarrow> string option \<Rightarrow> http_response" where
  "redirect_handler host path_and_query =
     Redirect (build_redirect_target (case host of Some h \<Rightarrow> h | None \<Rightarrow> [])
       (case path_and_query of Some p \<Rightarrow> p | None \<Rightarrow> ''/''))"

definition token_char :: "char \<Rightarrow> bool" where
  "token_char c \<longleftrightarrow> is_ascii_alphanumeric c \<or> c = CHR ''-'' \<or> c = CHR ''_''"

definition is_safe_acme_token :: "string \<Rightarrow> bool" where
  "is_safe_acme_token tok \<longleftrightarrow> tok \<noteq> [] \<and> length tok \<le> 255 \<and> list_all token_char tok"

text \<open>\<open>Path::join\<close>: an absolute argument replaces the path.\<close>

definition path_join :: "string \<Rightarrow> string \<Rightarrow> string" where
  "path_join dir p =
     (if starts_with ''/'' p then p
      else if dir = [] \<or> ends_with ''/'' dir then dir @ p
      else dir @ ''/'' @ p)"

definition acme_handler ::
  "(string \<Rightarrow> bytes option) \<Rightarrow> string option \<Rightarrow> string \<Rightarrow> string option \<Rightarrow> string option \<Rightarrow> http_response" where
  "acme_handler read_file acme_dir tok host path_and_query =
     (case (case acme_dir of
              Some dir \<Rightarrow> if is_safe_acme_token tok then read_file (path_join dir tok) else None
            | None \<Rightarrow> None) of
        Some body \<Rightarrow> TextBody body
      | None \<Rightarrow> redirect_handler host path_and_query)"

text \<open>
  The routes of the plain listener. The parameter of the challenge route is one non-empty segment of
  the path, which the router decodes.
\<close>

datatype plain_route = Acme_Route string | Redirect_Route | Plain_Method_Not_Allowed

definition plain_router :: "(string \<Rightarrow> string) \<Rightarrow> http_method \<Rightarrow> string \<Rightarrow> plain_route" where
  "plain_router percent_decode meth path =
     (case strip_prefix ''/.well-known/acme-challenge/'' path of
        None \<Rightarrow> Redirect_Route
      | Some segment \<Rightarrow>
          if segment = [] \<or> CHR ''/'' \<in> set segment then Redirect_Route
          else if meth = GET \<or> meth = HEAD then Acme_Route (percent_decode segment)
          else Plain_Method_Not_Allowed)"

section \<open>Abstract view\<close>

text \<open>Reading a stream to its end with a buffer of \<open>cap\<close> bytes, at most \<open>fuel\<close> times.\<close>

fun read_to_end :: "nat \<Rightarrow> nat \<Rightarrow> stream_as_read \<Rightarrow> byte_reads" where
  "read_to_end 0 cap s = []"
| "read_to_end (Suc fuel) cap s =
     (let (r, s') = poll_read cap s in
      r # (case r of Inr (b # bs) \<Rightarrow> read_to_end fuel cap s' | _ \<Rightarrow> []))"

definition safe_host :: "string \<Rightarrow> bool" where
  "safe_host h \<longleftrightarrow> h \<noteq> [] \<and> length h \<le> 253 \<and> list_all host_char h"

text \<open>What holds of a channel that was opened.\<close>

definition channel_ok ::
  "crypto_lib \<Rightarrow> accept_env \<Rightarrow> server_state \<Rightarrow> server_state \<Rightarrow> bool \<Rightarrow> byte_reads \<Rightarrow> mode_a \<Rightarrow> bool" where
  "channel_ok L A st st' timed_out src ch \<longleftrightarrow>
     (\<exists>f uid key ap c. \<not> timed_out \<and> fst (frame_read L raw_decoder src) = Inr (Some f) \<and> f_type f = Auth \<and>
        fst (auth_from_frame L (ae_unix A) st f) = AuthAccepted uid key ap \<and>
        map_of (st_heap st') (ma_conn ch) = Some c \<and> cs_uid c = uid \<and> cs_sessions c = [] \<and>
        cs_cipher c = session_cipher L key ap \<and> enc_cipher (ma_encoder ch) = session_cipher L key ap \<and>
        dec_cipher (ma_reader ch) = Some (session_cipher L key ap) \<and>
        dec_limit (ma_reader ch) = enc_limit (ma_encoder ch) \<and> cs_limit c = enc_limit (ma_encoder ch) \<and>
        MAX_PLAINTEXT \<le> enc_limit (ma_encoder ch) \<and> enc_limit (ma_encoder ch) \<le> MAX_PLAINTEXT_CAP \<and>
        ma_queue ch = [auth_ok_frame (enc_limit (ma_encoder ch))])"

section \<open>Lemmas\<close>

lemma poll_stream_all:
  assumes "0 < cap" "poll_stream cap (map Inr items) = (r, s)"
  shows "\<exists>b items'. r = Inr b \<and> length b \<le> cap \<and> sr_stream s = map Inr items' \<and>
    (if b = [] then concat items = [] else concat items = b @ sr_buf s @ concat items' \<and> \<not> sr_done s)"
  using assms(2)
proof (induction items arbitrary: r s)
  case (Cons i items)
  show ?case
  proof (cases "i = []")
    case True
    then have "poll_stream cap (map Inr items) = (r, s)" using Cons.prems by simp
    from Cons.IH [OF this] show ?thesis by (simp only: True concat.simps append_Nil)
  next
    case False
    then show ?thesis using Cons.prems assms(1)
      by (intro exI [of _ "take cap i"] exI [of _ items]) (auto simp: Let_def min_def)
  qed
qed auto

text \<open>Every byte of the stream is read once, in order; an empty item is not taken for the end.\<close>

lemma read_to_end_all:
  assumes "0 < cap" "sr_stream s = map Inr items" "sr_done s \<longrightarrow> items = []"
    and "length (sr_buf s) + length (concat items) < fuel"
  shows "\<exists>bs. read_to_end fuel cap s = map Inr bs @ [Inr []] \<and> concat bs = sr_buf s @ concat items \<and>
    list_all (\<lambda>b. b \<noteq> [] \<and> length b \<le> cap) bs"
  using assms(2-)
proof (induction fuel arbitrary: s items)
  case (Suc fuel)
  obtain r s' where p: "poll_read cap s = (r, s')" by fastforce
  show ?case
  proof (cases "sr_buf s = []")
    case False
    then have r: "r = Inr (take cap (sr_buf s))" and s': "s' = s\<lparr>sr_buf := drop cap (sr_buf s)\<rparr>"
      using p by (auto simp: poll_read_def Let_def min_def)
    have ne: "take cap (sr_buf s) \<noteq> []" using False assms(1) by simp
    have "length (sr_buf s') + length (concat items) < fuel" using Suc.prems(3) False assms(1) s' by (cases "sr_buf s") auto
    then obtain bs where "read_to_end fuel cap s' = map Inr bs @ [Inr []]" "concat bs = sr_buf s' @ concat items"
      "list_all (\<lambda>b. b \<noteq> [] \<and> length b \<le> cap) bs"
      using Suc.IH [of s' items] Suc.prems(1,2) s' by auto
    moreover have "concat (take cap (sr_buf s) # bs) = sr_buf s @ concat items"
      using \<open>concat bs = sr_buf s' @ concat items\<close> by (simp add: s' flip: append_assoc)
    ultimately show ?thesis
      using p r s' ne by (intro exI [of _ "take cap (sr_buf s) # bs"]) (auto split: list.split)
  next
    case empty: True
    show ?thesis
    proof (cases "sr_done s")
      case True
      then show ?thesis using empty p Suc.prems(2) by (intro exI [of _ "[]"]) (auto simp: poll_read_def)
    next
      case False
      then have "poll_stream cap (map Inr items) = (r, s')" using empty p Suc.prems(1) by (simp add: poll_read_def)
      from poll_stream_all [OF assms(1) this] obtain b items' where b: "r = Inr b" "length b \<le> cap"
        "sr_stream s' = map Inr items'"
        "if b = [] then concat items = [] else concat items = b @ sr_buf s' @ concat items' \<and> \<not> sr_done s'" by blast
      show ?thesis
      proof (cases "b = []")
        case True
        then show ?thesis using b p empty by (intro exI [of _ "[]"]) auto
      next
        case False
        then have c: "concat items = b @ sr_buf s' @ concat items'" "\<not> sr_done s'" using b(4) by auto
        have "length (sr_buf s') + length (concat items') < fuel" using Suc.prems(3) empty False c(1) by (cases b) auto
        then obtain bs where "read_to_end fuel cap s' = map Inr bs @ [Inr []]" "concat bs = sr_buf s' @ concat items'"
          "list_all (\<lambda>b. b \<noteq> [] \<and> length b \<le> cap) bs"
          using Suc.IH [of s' items'] b(3) c(2) by auto
        then show ?thesis
          using p b c False empty by (intro exI [of _ "b # bs"]) (cases b; auto)
      qed
    qed
  qed
qed simp

lemma try_admit_none:
  "try_admit g None = (if g_global g < g_max_global g then (True, g\<lparr>g_global := g_global g + 1\<rparr>) else (False, g))"
  by (simp add: try_admit_def Let_def not_le [symmetric])

lemma drop_guard_eq: "drop_guard g = g\<lparr>g_global := g_global g - 1\<rparr>"
  by (simp add: drop_guard_def)

lemma bearer_ok_iff: "fst (bearer_ok L now st h) \<longleftrightarrow> fst (bearer_user L now st h) \<noteq> None"
  by (simp add: bearer_ok_def split_def Let_def)

lemma bearer_ok_state: "snd (bearer_ok L now st h) = snd (bearer_user L now st h)"
  by (simp add: bearer_ok_def split_def Let_def)

lemma bearer_user_same: "same_but_nonces st (snd (bearer_user L now st h))"
  using bearer_user_state [of L now st h] by auto

lemma auth_from_frame_same: "same_but_nonces st (snd (auth_from_frame L now st f))"
  using auth_with_keys_state [of L now st f "st_static_keys st"] by (auto simp: auth_from_frame_def)

lemma update_new: "map_of xs k = None \<Longrightarrow> AList.update k v xs = xs @ [(k, v)]"
  by (induction xs) (auto split: if_splits)

lemma new_conn_quota:
  assumes "quota_ok st" "map_of (st_heap st) (st_conn_seq st) = None"
  shows "quota_ok (snd (new_conn A st uid cipher negotiated))"
  using assms
  by (auto simp: new_conn_def rate_for_def Let_def update_new quota_ok_def heap_ok_def registered_def session_count_def
      dm_all_def conn_ok_def map_of_eq_None_iff split: option.splits)

lemma new_conn_eq:
  "new_conn A st uid cipher negotiated = (cid, st') \<Longrightarrow>
   cid = st_conn_seq st \<and> st_conn_seq st' = cid + 1 \<and> cid \<in> set (st_conns st') \<and>
   st_active_sessions st' = st_active_sessions st \<and>
   (\<exists>c. map_of (st_heap st') cid = Some c \<and> cs_uid c = uid \<and> cs_cipher c = cipher \<and> cs_limit c = negotiated \<and>
        cs_sessions c = [])"
  by (auto simp: new_conn_def rate_for_def Let_def update_conv' split: option.splits prod.splits simp del: map_of_eq_Some_iff)

lemma channel_of_some:
  assumes "channel_of L A (st, g) timed_out src = (Some ch, st2, g2)"
  obtains f d src' uid key ap st1 where "\<not> timed_out" "frame_read L raw_decoder src = (Inr (Some f), d, src')" "f_type f = Auth"
    "auth_from_frame L (ae_unix A) st f = (AuthAccepted uid key ap, st1)"
    "spawn_mode_a_channel L A st1 uid key ap d (negotiate (ap_max_plaintext ap) (of_nat (st_max_plaintext st1))) = (ch, st2)"
  using assms
  by (auto simp: channel_of_def read_mode_a_auth_def Let_def split: if_splits sum.splits option.splits prod.splits auth_outcome.splits)

lemma channel_of_ok:
  assumes "channel_of L A (st, g) timed_out src = (Some ch, st2, g2)"
  shows "channel_ok L A st st2 timed_out src ch"
proof -
  obtain f d src' uid key ap st1 where a: "\<not> timed_out" "frame_read L raw_decoder src = (Inr (Some f), d, src')" "f_type f = Auth"
    "auth_from_frame L (ae_unix A) st f = (AuthAccepted uid key ap, st1)"
    "spawn_mode_a_channel L A st1 uid key ap d (negotiate (ap_max_plaintext ap) (of_nat (st_max_plaintext st1))) = (ch, st2)"
    using channel_of_some [OF assms] .
  let ?n = "negotiate (ap_max_plaintext ap) (of_nat (st_max_plaintext st1))"
  obtain cid st' where n: "new_conn A st1 uid (session_cipher L key ap) ?n = (cid, st')" by fastforce
  show ?thesis
    using a new_conn_eq [OF n] n negotiate_bounds
    by (auto simp: channel_ok_def spawn_mode_a_channel_def Let_def set_cipher_def simp del: map_of_eq_Some_iff)
qed

lemma channel_of_none:
  assumes "channel_of L A (st, g) timed_out src = (None, st2, g2)"
  shows "same_but_nonces st st2"
proof -
  have "st2 = st \<or> (\<exists>f. st2 = snd (auth_from_frame L (ae_unix A) st f))"
    using assms
    by (auto simp: channel_of_def read_mode_a_auth_def Let_def split: if_splits sum.splits option.splits prod.splits auth_outcome.splits)
      (metis snd_conv)+
  then show ?thesis using auth_from_frame_same by auto
qed

lemma channel_of_accepts:
  assumes "frame_read L raw_decoder src = (Inr (Some f), d, src')" "f_type f = Auth"
    and "auth_from_frame L (ae_unix A) st f = (AuthAccepted uid key ap, st1)"
    and "spawn_mode_a_channel L A st1 uid key ap d (negotiate (ap_max_plaintext ap) (of_nat (st_max_plaintext st1))) = (ch, st2)"
  shows "channel_of L A (st, g) False src = (Some ch, st2, drop_guard g)"
  using assms by (simp add: channel_of_def read_mode_a_auth_def)

lemma channel_of_gate: "snd (snd (channel_of L A (st, g) timed_out src)) = drop_guard g"
  by (simp add: channel_of_def Let_def split: prod.split auth_outcome.split)

text \<open>
  Completeness of the handshake: a genuine AUTH frame arriving in any chunks is accepted, and what
  follows it stays in the reader.
\<close>

lemma genuine_auth_accepted:
  assumes "aead_ok L" "wire_frame L (frame_cipher_new key) limit f w" "f_payload f = auth_encode ap @ padding" "auth_wf ap"
    and "proto_version_compatible ap" "ap_mac ap = auth_mac L key (ap_uid ap) (ap_ts ap) (ap_nonce ap)"
    and "\<not> outside_window now (ap_ts ap) AUTH_WINDOW"
    and "check_and_remember_nonce now st (ap_uid ap) (ap_nonce ap) (ap_ts ap) = (True, st')"
    and "st_static_keys st = ks @ (ap_uid ap, key) # ks'"
    and "list_all (\<lambda>(u, k). \<exists>e. open_ct L (frame_cipher_new k) (f_counter f) (f_aad f) (drop HEADER_LEN w) = Inl e) ks"
  shows "auth_from_frame L now st (sealed f (drop HEADER_LEN w)) = (AuthAccepted (ap_uid ap) key ap, st')"
proof -
  obtain ct tag where seal: "seal_slice L (frame_cipher_new key) (f_counter f) (f_aad f) (f_payload f) = Inr (ct, tag)"
    and w: "w = header_of f @ ct @ tag"
    using assms(2) by (auto simp: wire_frame_def)
  have "drop HEADER_LEN w = ct @ tag" by (simp add: w header_of_def)
  then have "open_ct L (frame_cipher_new key) (f_counter f) (f_aad f) (drop HEADER_LEN w) = Inr (auth_encode ap @ padding)"
    using seal_slice_open(1) [OF assms(1) seal] assms(3) by simp
  moreover have "auth_decode (auth_encode ap @ padding) = Inr ap"
    using auth_codec.dec_enc_tail [OF assms(4)] by simp
  moreover have "auth_verify L now ap key AUTH_WINDOW"
    using auth_verify_genuine assms(6,7) by blast
  ultimately have "auth_with_keys L now st (sealed f (drop HEADER_LEN w)) ((ap_uid ap, key) # ks') =
      (AuthAccepted (ap_uid ap) key ap, st')"
    using assms(5,8) by (simp add: sealed_def)
  then show ?thesis
    using auth_with_keys_skip [of L "sealed f (drop HEADER_LEN w)" ks now st] assms(9,10)
    by (simp add: auth_from_frame_def sealed_def)
qed

lemma raw_read:
  assumes "aead_ok L" "wire_frame L c limit f w" "length (f_payload f) \<le> MAX_PLAINTEXT"
    and "concat chunks = w @ rest" "[] \<notin> set chunks"
  obtains b' chunks' where "frame_read L raw_decoder (map Inr chunks) =
      (Inr (Some (sealed f (drop HEADER_LEN w))), raw_decoder\<lparr>dec_buf := b'\<rparr>, map Inr chunks')"
    "b' @ concat chunks' = rest" "[] \<notin> set chunks'"
proof -
  have d: "dec_raw raw_decoder" "length (f_payload f) \<le> dec_limit raw_decoder" "dec_limit raw_decoder \<le> MAX_PLAINTEXT_CAP"
    and e: "raw_decoder\<lparr>dec_buf := []\<rparr> = raw_decoder"
    using assms(3) by (simp_all add: raw_decoder_def frame_decoder_new_def const_defs)
  note raw = next_frame_raw [OF assms(1,2) d]
  have "[] @ concat chunks = w @ rest" using assms(4) by simp
  from frame_read_collects [OF raw this assms(5)] show thesis using that e by metis
qed

lemma host_char_ne: "\<not> host_char CHR ''/''" "\<not> host_char CHR ''@''" "\<not> host_char carriage_return" "\<not> host_char newline"
  by code_simp+

lemma if_else_safe:
  "safe_host d \<Longrightarrow> safe_host (if h \<noteq> [] \<and> length h \<le> 253 \<and> list_all host_char h then h else d)"
  by (simp add: safe_host_def)

lemma safe_host_chars:
  "safe_host h \<Longrightarrow> CHR ''/'' \<notin> set h \<and> CHR ''@'' \<notin> set h \<and> carriage_return \<notin> set h \<and> newline \<notin> set h"
  using host_char_ne by (auto simp: safe_host_def list_all_iff)

lemma safe_token_chars: "is_safe_acme_token t \<Longrightarrow> t \<noteq> [] \<and> CHR ''/'' \<notin> set t \<and> CHR ''.'' \<notin> set t"
proof -
  have "\<not> token_char CHR ''/''" "\<not> token_char CHR ''.''" by code_simp+
  then show "is_safe_acme_token t \<Longrightarrow> t \<noteq> [] \<and> CHR ''/'' \<notin> set t \<and> CHR ''.'' \<notin> set t"
    by (auto simp: is_safe_acme_token_def list_all_iff)
qed

lemma safe_path_join: "is_safe_acme_token t \<Longrightarrow> \<exists>sep. (sep = [] \<or> sep = ''/'') \<and> path_join dir t = dir @ sep @ t"
  using safe_token_chars [of t] by (auto simp: path_join_def starts_with_iff)

section \<open>Properties\<close>

text \<open>
  C12. The HTTPS front admits nobody without both credentials. A POST to the API path goes past its first
  step exactly when the gate has a free slot and the bearer header is accepted; otherwise it gets the
  disguise page and the gate is as before. A channel is opened only for a reader whose first frame
  is an AUTH frame the server accepts: it belongs to the accepted user, uses the session key derived from
  the user's key and the client's salt in both directions, starts without sessions, and announces the frame limit
  it uses, which lies between the baseline and the cap. Every other outcome is the
  disguise page without any trace but the replay cache, and in every case the slot is returned.
\<close>

theorem fallback_needs_auth:
  assumes "api_begin L now (st, g) auth = (r, st1, g1)" "api_finish L A (st2, g2) timed_out src = (resp, st3, g3)"
  shows "(r = None \<longleftrightarrow> g_global g < g_max_global g \<and> fst (bearer_user L now st auth) \<noteq> None) \<and>
    (if r = None then g1 = g\<lparr>g_global := g_global g + 1\<rparr> else r = Some DisguisePage \<and> g1 = g) \<and>
    same_but_nonces st st1 \<and> g3 = g2\<lparr>g_global := g_global g2 - 1\<rparr> \<and>
    (case resp of
       DisguisePage \<Rightarrow> same_but_nonces st2 st3
     | ChannelStream ch \<Rightarrow> channel_ok L A st2 st3 timed_out src ch
     | _ \<Rightarrow> False)"
proof -
  obtain ch st3' g3' where c: "channel_of L A (st2, g2) timed_out src = (ch, st3', g3')" by (metis prod_cases3)
  have e: "st3' = st3" "g3' = g3" "resp = (case ch of Some ch \<Rightarrow> ChannelStream ch | None \<Rightarrow> DisguisePage)"
    using assms(2) c by (auto simp: api_finish_def)
  have g3: "g3 = g2\<lparr>g_global := g_global g2 - 1\<rparr>"
    using channel_of_gate [of L A st2 g2 timed_out src] c e by (simp add: drop_guard_eq)
  have "(r = None \<longleftrightarrow> g_global g < g_max_global g \<and> fst (bearer_user L now st auth) \<noteq> None) \<and>
    (if r = None then g1 = g\<lparr>g_global := g_global g + 1\<rparr> else r = Some DisguisePage \<and> g1 = g) \<and> same_but_nonces st st1"
    using assms(1) bearer_ok_iff [of L now st auth] bearer_ok_state [of L now st auth] bearer_user_same [of st L now auth]
    by (auto simp: api_begin_def try_admit_none drop_guard_eq split_def Let_def split: if_splits)
  moreover have "case resp of
       DisguisePage \<Rightarrow> same_but_nonces st2 st3
     | ChannelStream ch \<Rightarrow> channel_ok L A st2 st3 timed_out src ch
     | _ \<Rightarrow> False"
  proof (cases ch)
    case None
    then show ?thesis using channel_of_none c e by simp
  next
    case (Some ch')
    then show ?thesis using channel_of_ok c e by simp
  qed
  ultimately show ?thesis using g3 by simp
qed

text \<open>
  The plain HTTP listener. Whatever the Host header holds, the redirect goes to HTTPS with an authority of
  letters, digits, dots, dashes, colons and brackets only, so nothing of the header can open a path, user
  information or a header line; the path follows it unchanged. A file is served only from
  directly inside the challenge directory, for a name without dots and slashes; otherwise the request is redirected.
\<close>

theorem plain_http_safe:
  "(\<exists>h p. build_redirect_target host path = ''https://'' @ h @ p \<and> safe_host h \<and> starts_with ''/'' p \<and>
      p = (if starts_with ''/'' path then path else ''/'') \<and>
      CHR ''/'' \<notin> set h \<and> CHR ''@'' \<notin> set h \<and> carriage_return \<notin> set h \<and> newline \<notin> set h) \<and>
   (case acme_handler read_file acme_dir tok (Some host) (Some path) of
      TextBody body \<Rightarrow>
        (case acme_dir of None \<Rightarrow> False | Some dir \<Rightarrow>
           \<exists>sep. (sep = [] \<or> sep = ''/'') \<and> read_file (dir @ sep @ tok) = Some body \<and>
           tok \<noteq> [] \<and> CHR ''/'' \<notin> set tok \<and> CHR ''.'' \<notin> set tok)
    | r \<Rightarrow> r = Redirect (build_redirect_target host path))"
proof
  define h where "h = (if trim host \<noteq> [] \<and> length (trim host) \<le> 253 \<and> list_all host_char (trim host) then trim host else ''localhost'')"
  define p where "p = (if starts_with ''/'' path then path else ''/'')"
  have "safe_host ''localhost''" by code_simp
  then have h: "safe_host h" unfolding h_def by (rule if_else_safe)
  have p: "starts_with ''/'' p" by (simp add: p_def starts_with_def)
  have "build_redirect_target host path = ''https://'' @ h @ p" by (simp only: build_redirect_target_def Let_def h_def p_def)
  with h safe_host_chars [OF h] p p_def show "\<exists>h p. build_redirect_target host path = ''https://'' @ h @ p \<and> safe_host h \<and> starts_with ''/'' p \<and>
      p = (if starts_with ''/'' path then path else ''/'') \<and>
      CHR ''/'' \<notin> set h \<and> CHR ''@'' \<notin> set h \<and> carriage_return \<notin> set h \<and> newline \<notin> set h"
    by (elim conjE) (intro exI conjI, assumption+)
next
  show "case acme_handler read_file acme_dir tok (Some host) (Some path) of
      TextBody body \<Rightarrow>
        (case acme_dir of None \<Rightarrow> False | Some dir \<Rightarrow>
           \<exists>sep. (sep = [] \<or> sep = ''/'') \<and> read_file (dir @ sep @ tok) = Some body \<and>
           tok \<noteq> [] \<and> CHR ''/'' \<notin> set tok \<and> CHR ''.'' \<notin> set tok)
    | r \<Rightarrow> r = Redirect (build_redirect_target host path)"
  proof (cases "case acme_dir of Some dir \<Rightarrow> if is_safe_acme_token tok then read_file (path_join dir tok) else None | None \<Rightarrow> None")
    case (Some body)
    then obtain dir where d: "acme_dir = Some dir" and t: "is_safe_acme_token tok" and b: "read_file (path_join dir tok) = Some body"
      by (cases acme_dir; cases "is_safe_acme_token tok") simp_all
    obtain sep where sep: "sep = [] \<or> sep = ''/''" "path_join dir tok = dir @ sep @ tok" using safe_path_join [OF t] by blast
    then have "read_file (dir @ sep @ tok) = Some body" using b by simp
    then have "\<exists>sep. (sep = [] \<or> sep = ''/'') \<and> read_file (dir @ sep @ tok) = Some body \<and>
        tok \<noteq> [] \<and> CHR ''/'' \<notin> set tok \<and> CHR ''.'' \<notin> set tok"
      using sep(1) safe_token_chars [OF t] by blast
    moreover have "acme_handler read_file acme_dir tok (Some host) (Some path) = TextBody body"
      using Some by (simp add: acme_handler_def)
    ultimately show ?thesis using d by simp
  next
    case None
    then have "acme_handler read_file acme_dir tok (Some host) (Some path) = Redirect (build_redirect_target host path)"
      by (simp add: acme_handler_def redirect_handler_def)
    then show ?thesis by simp
  qed
qed

definition demo_accept :: accept_env where
  "demo_accept = \<lparr>ae_unix = 100, ae_now = 9500, ae_token = 300, ae_limiter = 4\<rparr>"

lemma demo_auth_wire:
  obtains f w where "wire_frame demo_lib (frame_cipher_new [5]) MAX_PLAINTEXT f w" "f_type f = Auth"
    "f_payload f = auth_encode demo_auth @ []" "length (f_payload f) \<le> MAX_PLAINTEXT"
proof -
  have len: "length (auth_encode demo_auth) \<le> MAX_PLAINTEXT"
    using demo_auth_wf by (auto simp: auth_encode_def auth_wf_def demo_auth_def MAX_PLAINTEXT_def)
  then have "length (auth_encode demo_auth) \<le> enc_limit demo_encoder" "enc_limit demo_encoder \<le> MAX_PLAINTEXT_CAP"
    by (simp_all add: demo_encoder_def frame_encoder_new_def const_defs)
  then obtain e' w where "encode_into demo_lib demo_encoder Auth 0 0 (auth_encode demo_auth) [] = (Inr (), e', w)"
    using encode_into_total [OF demo_lib_ok(2)] by metis
  then show thesis
    using encode_into_ok [of demo_lib demo_encoder Auth 0 0 "auth_encode demo_auth" "[]" "()" e' w] len that
    by (auto simp: demo_encoder_def frame_encoder_new_def msg_of_def const_defs)
qed

lemma demo_auth_facts:
  "ap_uid demo_auth = ''alice''" "proto_version_compatible demo_auth"
  "ap_mac demo_auth = auth_mac demo_lib [5] (ap_uid demo_auth) (ap_ts demo_auth) (ap_nonce demo_auth)"
  "\<not> outside_window 100 (ap_ts demo_auth) AUTH_WINDOW"
  "fst (check_and_remember_nonce 100 demo_auth_server u n t)"
  by (simp_all add: demo_auth_def proto_version_compatible_def PROTO_VERSION_def outside_window_iff AUTH_WINDOW_def
      nonce_accept_iff demo_auth_server_def NONCE_CAP_def dm_retain_def)

theorem fallback_needs_auth_witness:
  "\<exists>w ch st3 g3. api_finish demo_lib demo_accept (demo_auth_server, gate_new 8 2) False [Inr w] = (ChannelStream ch, st3, g3) \<and>
     channel_ok demo_lib demo_accept demo_auth_server st3 False [Inr w] ch \<and>
     fst (api_begin demo_lib 100 (demo_auth_server, gate_new 8 2) None) = Some DisguisePage"
proof -
  obtain f w where f: "wire_frame demo_lib (frame_cipher_new [5]) MAX_PLAINTEXT f w" "f_type f = Auth"
    "f_payload f = auth_encode demo_auth @ []" "length (f_payload f) \<le> MAX_PLAINTEXT" using demo_auth_wire .
  have ne: "[] \<notin> set [w]" using wire_frame_length [OF demo_lib_ok(1) f(1)] by (auto simp: const_defs)
  have "concat [w] = w @ []" by simp
  from raw_read [OF demo_lib_ok(1) f(1,4) this ne]
  obtain b' cs where r: "frame_read demo_lib raw_decoder (map Inr [w]) =
      (Inr (Some (sealed f (drop HEADER_LEN w))), raw_decoder\<lparr>dec_buf := b'\<rparr>, map Inr cs)" .
  obtain st' where n: "check_and_remember_nonce 100 demo_auth_server (ap_uid demo_auth) (ap_nonce demo_auth) (ap_ts demo_auth) = (True, st')"
    using demo_auth_facts(5) by (metis prod.collapse)
  have "auth_from_frame demo_lib 100 demo_auth_server (sealed f (drop HEADER_LEN w)) = (AuthAccepted (ap_uid demo_auth) [5] demo_auth, st')"
    by (rule genuine_auth_accepted [OF demo_lib_ok(1) f(1,3) demo_auth_wf demo_auth_facts(2,3,4) n, of "[]"])
       (simp_all add: demo_auth_facts(1), simp add: demo_auth_server_def)
  then have a: "auth_from_frame demo_lib (ae_unix demo_accept) demo_auth_server (sealed f (drop HEADER_LEN w)) =
      (AuthAccepted (ap_uid demo_auth) [5] demo_auth, st')" by (simp add: demo_accept_def)
  have t: "f_type (sealed f (drop HEADER_LEN w)) = Auth" using f(2) by (simp add: sealed_def)
  obtain ch st3 where "spawn_mode_a_channel demo_lib demo_accept st' (ap_uid demo_auth) [5] demo_auth (raw_decoder\<lparr>dec_buf := b'\<rparr>)
      (negotiate (ap_max_plaintext demo_auth) (of_nat (st_max_plaintext st'))) = (ch, st3)" by fastforce
  from channel_of_accepts [OF r t a this]
  have c: "api_finish demo_lib demo_accept (demo_auth_server, gate_new 8 2) False [Inr w] = (ChannelStream ch, st3, drop_guard (gate_new 8 2))"
    by (simp add: api_finish_def)
  obtain r st1 g1 where b: "api_begin demo_lib 100 (demo_auth_server, gate_new 8 2) None = (r, st1, g1)" by (metis prod_cases3)
  have "fst (bearer_user demo_lib 100 demo_auth_server None) = None" by (simp add: bearer_user_def)
  then have "r = Some DisguisePage \<and> channel_ok demo_lib demo_accept demo_auth_server st3 False [Inr w] ch"
    using fallback_needs_auth [OF b c] by (auto split: if_splits)
  then show ?thesis using b c by auto
qed

end
