(* ===== verification/Client_Fallback.thy ===== *)
theory Client_Fallback
  imports Server_Fallback
begin

text \<open>
  The client's fallback transport (\<open>src/src/client/fallback.rs\<close>): the in-band AUTH payload and frame, the handshake over a
  POST body or a WebSocket, reconnection, and the body adapters. Randomness, the clock and what the
  transport delivers are arguments, and so is the rewriting of the URL by the url crate.
\<close>

section \<open>The outbound\<close>

datatype fb_error =
  BadUrl | SniHost | ResolveFailed | NotPostUrl | NotWebSocketUrl | FbEncode frame_error | BodyClosed | ConnectTimeout
| ConnectFailed | FallbackRejected | AuthReplyTimeout | AuthReply frame_error | ClosedDuringAuth
| UnexpectedReply | ShortReply

record http_outbound =
  ho_url :: string
  ho_ws :: bool
  ho_static_key :: bytes
  ho_uid :: string
  ho_max_plaintext :: nat

text \<open>
  \<open>set_host\<close> is \<open>Url::parse\<close> followed by \<open>set_host\<close>, \<open>resolve\<close> the lookup of the real server, and \<open>tls\<close> the
  construction of the TLS stack for one of the two transports. What they build is not part of the state.
\<close>

definition http_outbound_new ::
  "crypto_lib \<Rightarrow> (string \<Rightarrow> string \<Rightarrow> fb_error + string) \<Rightarrow> (string \<Rightarrow> fb_error + socket_addr) \<Rightarrow>
   (bool \<Rightarrow> bool \<Rightarrow> bytes option \<Rightarrow> fb_error + unit) \<Rightarrow> client_cfg \<Rightarrow> string \<Rightarrow> fb_error + http_outbound" where
  "http_outbound_new L set_host resolve tls cfg url =
     (let static_key = derive_static_key L (cc_password cfg) (cc_uid cfg);
          ws = (starts_with ''wss://'' url \<or> starts_with ''ws://'' url)
      in and_then (case cc_sni cfg of Some sni \<Rightarrow> set_host url sni | None \<Rightarrow> Inr url) (\<lambda>dial_url.
         and_then (case cc_sni cfg of Some _ \<Rightarrow> and_then (resolve url) (\<lambda>_. Inr ()) | None \<Rightarrow> Inr ()) (\<lambda>_.
         and_then (tls ws (cc_skip_verify cfg) (cc_pin cfg)) (\<lambda>_.
         Inr \<lparr>ho_url = dial_url, ho_ws = ws, ho_static_key = static_key, ho_uid = cc_uid cfg,
              ho_max_plaintext = cc_max_plaintext cfg\<rparr>))))"

section \<open>The AUTH frame\<close>

text \<open>The random bytes and the clock reading of one connection attempt.\<close>

record auth_random =
  ar_salt :: bytes
  ar_nonce :: bytes
  ar_ts :: u64
  ar_padding :: bytes

definition client_auth :: "crypto_lib \<Rightarrow> bytes \<Rightarrow> string \<Rightarrow> nat \<Rightarrow> auth_random \<Rightarrow> auth_payload" where
  "client_auth L key uid max_plaintext R =
     \<lparr>ap_proto_version = PROTO_VERSION, ap_salt = ar_salt R, ap_ts = ar_ts R, ap_nonce = ar_nonce R, ap_uid = uid,
      ap_mac = auth_mac L key uid (ar_ts R) (ar_nonce R), ap_max_plaintext = of_nat max_plaintext\<rparr>"

text \<open>What \<open>connect\<close> prepares: the first bytes, the encoder for the session, its cipher and its limit.\<close>

record fb_session =
  fs_wire :: bytes
  fs_enc :: frame_encoder
  fs_cipher :: frame_cipher

definition fb_prepare :: "crypto_lib \<Rightarrow> http_outbound \<Rightarrow> auth_random \<Rightarrow> fb_error + fb_session" where
  "fb_prepare L ho R =
     (let auth = client_auth L (ho_static_key ho) (ho_uid ho) (ho_max_plaintext ho) R;
          cipher = frame_cipher_new (derive_session_key L (ho_static_key ho) (ar_salt R));
          enc = \<lparr>enc_cipher = cipher, enc_counters = counter_stream, enc_limit = ho_max_plaintext ho\<rparr>;
          static_enc = frame_encoder_new (frame_cipher_new (ho_static_key ho)) counter_stream
      in (case fst (encode L static_enc Auth 0 0 (auth_encode auth @ ar_padding R)) of
            Inl e \<Rightarrow> Inl (FbEncode e)
          | Inr wire \<Rightarrow> Inr \<lparr>fs_wire = wire, fs_enc = enc, fs_cipher = cipher\<rparr>))"

text \<open>
  \<open>handshake_mux\<close>: the reply of the server, whose limit both the reader and the encoder adopt, since they share
  it. The result is the reader, the encoder and what is still to be read.
\<close>

definition handshake_mux ::
  "crypto_lib \<Rightarrow> fb_session \<Rightarrow> bool \<Rightarrow> byte_reads \<Rightarrow> fb_error + frame_decoder \<times> frame_encoder \<times> byte_reads" where
  "handshake_mux L s timed_out src =
     (let limit = enc_limit (fs_enc s) in
      if timed_out then Inl AuthReplyTimeout
      else (case frame_read L (frame_decoder_new (Some (fs_cipher s)) None limit) src of
          (Inl e, _) \<Rightarrow> Inl (AuthReply e)
        | (Inr None, _) \<Rightarrow> Inl ClosedDuringAuth
        | (Inr (Some f), d, src') \<Rightarrow>
            and_then (ensure UnexpectedReply (f_type f = AuthOk)) (\<lambda>_.
            and_then (ensure ShortReply (4 \<le> length (f_payload f))) (\<lambda>_.
            let n = (from_le_bytes (take 4 (f_payload f)) :: u32);
                limit' = negotiate n (of_nat limit)
            in Inr (d\<lparr>dec_limit := limit'\<rparr>, (fs_enc s)\<lparr>enc_limit := limit'\<rparr>, src')))))"

section \<open>Transports\<close>

text \<open>A request: its address, its headers, and the first bytes of its body or of the WebSocket channel.\<close>

record fb_request =
  rq_url :: string
  rq_authorization :: string
  rq_headers :: "(string \<times> string) list"
  rq_first :: bytes

definition USER_AGENT :: string where
  "USER_AGENT = ''Mozilla/5.0 (Windows NT 10.0; Win64; x64) AppleWebKit/537.36 (KHTML, like Gecko) Chrome/131.0.0.0 Safari/537.36''"

text \<open>The clock reading and the random bytes of a bearer token, which is made anew for every request.\<close>

type_synonym bearer_random = "u64 \<times> bytes"

definition authorization :: "crypto_lib \<Rightarrow> http_outbound \<Rightarrow> bearer_random \<Rightarrow> string" where
  "authorization L ho B = ''Bearer '' @ make_bearer L (fst B) (snd B) (ho_static_key ho) (ho_uid ho)"

definition post_request :: "crypto_lib \<Rightarrow> http_outbound \<Rightarrow> bearer_random \<Rightarrow> bytes \<Rightarrow> fb_request" where
  "post_request L ho B auth_wire =
     \<lparr>rq_url = ho_url ho, rq_authorization = authorization L ho B,
      rq_headers = [(''content-type'', ''application/octet-stream''), (''cache-control'', ''no-store''),
        (''user-agent'', USER_AGENT), (''accept'', ''*/*'')],
      rq_first = auth_wire\<rparr>"

definition ws_request :: "crypto_lib \<Rightarrow> http_outbound \<Rightarrow> bearer_random \<Rightarrow> bytes \<Rightarrow> fb_request" where
  "ws_request L ho B auth_wire =
     \<lparr>rq_url = ho_url ho, rq_authorization = authorization L ho B, rq_headers = [(''user-agent'', USER_AGENT)], rq_first = auth_wire\<rparr>"

text \<open>The answer to the POST: its status, its content type and the reads of its body.\<close>

datatype post_reply = PostTimeout | PostFailed | PostAnswer nat "string option" byte_reads

definition is_success :: "nat \<Rightarrow> bool" where
  "is_success status \<longleftrightarrow> 200 \<le> status \<and> status < 300"

definition connect_post ::
  "crypto_lib \<Rightarrow> http_outbound \<Rightarrow> bearer_random \<Rightarrow> (fb_request \<Rightarrow> post_reply) \<Rightarrow> fb_session \<Rightarrow> bool \<Rightarrow>
   fb_error + frame_decoder \<times> frame_encoder \<times> byte_reads" where
  "connect_post L ho B request s timed_out =
     (case request (post_request L ho B (fs_wire s)) of
        PostTimeout \<Rightarrow> Inl ConnectTimeout
      | PostFailed \<Rightarrow> Inl ConnectFailed
      | PostAnswer status content_type src \<Rightarrow>
          let ct = to_ascii_lowercase (case content_type of Some c \<Rightarrow> c | None \<Rightarrow> []) in
          if \<not> is_success status \<or> starts_with ''text/html'' ct then Inl FallbackRejected
          else handshake_mux L s timed_out src)"

text \<open>
  The answer to the WebSocket upgrade: the messages of the server, which the task that reads them passes
  on as the server's own task does (\<^const>\<open>ws_incoming\<close>); an empty message gives the reader nothing.
\<close>

datatype ws_reply = WsTimeout | WsFailed | WsUp "ws_message list"

definition connect_ws ::
  "crypto_lib \<Rightarrow> http_outbound \<Rightarrow> bearer_random \<Rightarrow> (fb_request \<Rightarrow> ws_reply) \<Rightarrow> fb_session \<Rightarrow> bool \<Rightarrow>
   fb_error + frame_decoder \<times> frame_encoder \<times> byte_reads" where
  "connect_ws L ho B connect s timed_out =
     (case connect (ws_request L ho B (fs_wire s)) of
        WsTimeout \<Rightarrow> Inl ConnectTimeout
      | WsFailed \<Rightarrow> Inl ConnectFailed
      | WsUp ms \<Rightarrow> handshake_mux L s timed_out (map Inr (filter (\<lambda>b. b \<noteq> []) (ws_incoming ms))))"

text \<open>The task that turns queued bytes into messages, with a ping every 30 seconds; \<open>n\<close> sends are accepted.\<close>

datatype ws_out_event = WsPingTick | WsBody bytes | WsBodyEnd
datatype ws_out = PingMsg | BinaryMsg bytes

fun ws_writer :: "nat \<Rightarrow> ws_out_event list \<Rightarrow> ws_out list" where
  "ws_writer n [] = []"
| "ws_writer n (WsBodyEnd # es) = []"
| "ws_writer n (WsPingTick # es) = (case n of 0 \<Rightarrow> [] | Suc k \<Rightarrow> PingMsg # ws_writer k es)"
| "ws_writer n (WsBody b # es) = (case n of 0 \<Rightarrow> [] | Suc k \<Rightarrow> BinaryMsg b # ws_writer k es)"

definition fb_connect ::
  "crypto_lib \<Rightarrow> http_outbound \<Rightarrow> auth_random \<Rightarrow> bearer_random \<Rightarrow> (fb_request \<Rightarrow> post_reply) \<Rightarrow> (fb_request \<Rightarrow> ws_reply) \<Rightarrow> bool \<Rightarrow>
   fb_error + frame_decoder \<times> frame_encoder \<times> byte_reads" where
  "fb_connect L ho R B post ws timed_out =
     and_then (fb_prepare L ho R) (\<lambda>s.
       if ho_ws ho then connect_ws L ho B ws s timed_out else connect_post L ho B post s timed_out)"

section \<open>Reconnection\<close>

text \<open>
  \<open>ensure_mux\<close> under its lock: the current channel when there is one that is not closed, else a new connection that replaces it.
  The result also says whether a connection was made.
\<close>

definition ensure_mux ::
  "('m \<Rightarrow> bool) \<Rightarrow> ('e + 'm) \<Rightarrow> 'm option \<Rightarrow> ('e + 'm) \<times> 'm option \<times> bool" where
  "ensure_mux is_closed connect cur =
     (case cur of
        Some m \<Rightarrow>
          if \<not> is_closed m then (Inr m, cur, False)
          else (case connect of Inr m' \<Rightarrow> (Inr m', Some m', True) | Inl e \<Rightarrow> (Inl e, cur, True))
      | None \<Rightarrow> (case connect of Inr m' \<Rightarrow> (Inr m', Some m', True) | Inl e \<Rightarrow> (Inl e, None, True)))"

text \<open>
  \<open>open_tcp\<close> and \<open>udp_associate\<close>: one retry on a fresh channel when the first one died while it was used. \<open>open1\<close> and
  \<open>open2\<close> are the results on the two channels, \<open>closed\<close> whether the channel is closed then.
\<close>

definition fb_open ::
  "('m \<Rightarrow> bool) \<Rightarrow> ('m \<Rightarrow> bool) \<Rightarrow> ('e + 'm) \<Rightarrow> ('e + 'm) \<Rightarrow> ('m \<Rightarrow> 'e + 's) \<Rightarrow> ('m \<Rightarrow> 'e + 's) \<Rightarrow> 'm option \<Rightarrow>
   ('e + 's) \<times> 'm option" where
  "fb_open closed0 closed1 connect1 connect2 open1 open2 cur =
     (case ensure_mux closed0 connect1 cur of
        (Inl e, cur', _) \<Rightarrow> (Inl e, cur')
      | (Inr m, cur', _) \<Rightarrow>
          (case open1 m of
             Inr s \<Rightarrow> (Inr s, cur')
           | Inl e \<Rightarrow>
               if \<not> closed1 m then (Inl e, cur')
               else (case ensure_mux closed1 connect2 cur' of
                   (Inl e', cur'', _) \<Rightarrow> (Inl e', cur'')
                 | (Inr m', cur'', _) \<Rightarrow> (open2 m', cur''))))"

section \<open>Body adapters\<close>

text \<open>The request body: what the channel delivers, \<open>None\<close> once it is closed.\<close>

record request_body =
  rb_rx :: "bytes list option"
  rb_pending :: "bytes list"

definition request_poll_frame :: "request_body \<Rightarrow> bytes option \<times> request_body" where
  "request_poll_frame b =
     (case rb_pending b of
        p # ps \<Rightarrow> (Some p, b\<lparr>rb_pending := ps\<rparr>)
      | [] \<Rightarrow>
          (case rb_rx b of
             None \<Rightarrow> (None, b)
           | Some [] \<Rightarrow> (None, b\<lparr>rb_rx := None\<rparr>)
           | Some (m # ms) \<Rightarrow> (Some m, b\<lparr>rb_rx := Some ms\<rparr>)))"

text \<open>The response body: data frames, other frames, and an error.\<close>

datatype body_frame = BodyData bytes | BodyTrailers | BodyError string

record body_as_read =
  br_body :: "body_frame list"
  br_buf :: bytes
  br_done :: bool

fun poll_body :: "nat \<Rightarrow> body_frame list \<Rightarrow> (io_error + bytes) \<times> body_as_read" where
  "poll_body remaining [] = (Inr [], \<lparr>br_body = [], br_buf = [], br_done = True\<rparr>)"
| "poll_body remaining (BodyError e # fs) = (Inl (Io_Error e), \<lparr>br_body = fs, br_buf = [], br_done = False\<rparr>)"
| "poll_body remaining (BodyTrailers # fs) = poll_body remaining fs"
| "poll_body remaining (BodyData d # fs) =
     (if d \<noteq> [] then
        let n = min (length d) remaining in
        (Inr (take n d), \<lparr>br_body = fs, br_buf = drop n d, br_done = False\<rparr>)
      else poll_body remaining fs)"

definition body_poll_read :: "nat \<Rightarrow> body_as_read \<Rightarrow> (io_error + bytes) \<times> body_as_read" where
  "body_poll_read remaining s =
     (if br_buf s \<noteq> [] then
        let n = min (length (br_buf s)) remaining in
        (Inr (take n (br_buf s)), s\<lparr>br_buf := drop n (br_buf s)\<rparr>)
      else if br_done s then (Inr [], s)
      else poll_body remaining (br_body s))"

section \<open>Abstract view\<close>

text \<open>The stream a response body stands for.\<close>

fun body_items :: "body_frame list \<Rightarrow> (string + bytes) list" where
  "body_items [] = []"
| "body_items (BodyData d # fs) = Inr d # body_items fs"
| "body_items (BodyTrailers # fs) = body_items fs"
| "body_items (BodyError e # fs) = Inl e # body_items fs"

definition body_stream :: "body_as_read \<Rightarrow> stream_as_read" where
  "body_stream s = \<lparr>sr_stream = body_items (br_body s), sr_buf = br_buf s, sr_done = br_done s\<rparr>"

text \<open>A client that can authenticate: its configuration is one the program accepts, and the random bytes have their sizes.\<close>

definition outbound_ok :: "http_outbound \<Rightarrow> auth_random \<Rightarrow> bool" where
  "outbound_ok ho R \<longleftrightarrow>
     is_str (ho_uid ho) \<and> length (ho_uid ho) \<le> 32 \<and> MAX_PLAINTEXT \<le> ho_max_plaintext ho \<and>
     ho_max_plaintext ho \<le> MAX_PLAINTEXT_CAP \<and> length (ar_salt R) = 16 \<and> length (ar_nonce R) = 16 \<and>
     length (ar_padding R) < PAD_MAX"

section \<open>Lemmas\<close>

text \<open>The response adapter is the stream adapter on the data of the body.\<close>

lemma poll_body_stream:
  "poll_stream n (body_items fs) = (let (r, s) = poll_body n fs in (r, body_stream s))"
  by (induction n fs rule: poll_body.induct) (auto simp: body_stream_def Let_def)

lemma body_poll_read_stream:
  "poll_read n (body_stream s) = (let (r, s') = body_poll_read n s in (r, body_stream s'))"
  using poll_body_stream [of n "br_body s"]
  by (auto simp: poll_read_def body_poll_read_def Let_def) (auto simp: body_stream_def)

lemma wire_frame_limit:
  "wire_frame L c limit f w \<Longrightarrow> length (f_payload f) \<le> limit' \<Longrightarrow> limit' \<le> MAX_PLAINTEXT_CAP \<Longrightarrow> wire_frame L c limit' f w"
  unfolding wire_frame_def by blast

lemma encode_wire:
  assumes "aead_total L" "length p \<le> enc_limit e" "enc_limit e \<le> MAX_PLAINTEXT_CAP"
  obtains f w e' where "encode L e ft fl sid p = (Inr w, e')" "wire_frame L (enc_cipher e) (enc_limit e) f w"
    "msg_of f = (ft, fl, sid, p)"
proof -
  obtain e' w where w: "encode_into L e ft fl sid p [] = (Inr (), e', w)"
    using encode_into_total [OF assms] .
  then show thesis
    using encode_into_ok [OF w assms(3)] that by (force simp: encode_def)
qed

lemma client_auth_wf:
  assumes "hmac_ok L" "outbound_ok ho R"
  shows "auth_wf (client_auth L (ho_static_key ho) (ho_uid ho) (ho_max_plaintext ho) R)"
  using assms by (auto simp: auth_wf_def client_auth_def outbound_ok_def auth_mac_def hmac_ok_def MAC_LEN_def)

lemma client_auth_length:
  assumes "hmac_ok L" "outbound_ok ho R"
  shows "length (auth_encode (client_auth L (ho_static_key ho) (ho_uid ho) (ho_max_plaintext ho) R) @ ar_padding R) \<le> MAX_PLAINTEXT"
  using client_auth_wf [OF assms] assms(2)
  by (auto simp: auth_wf_def auth_encode_def outbound_ok_def client_auth_def const_defs)

text \<open>Preparing always succeeds, with one AUTH frame under the user's key as first bytes.\<close>

lemma fb_prepare_wire:
  assumes "aead_total L" "hmac_ok L" "outbound_ok ho R"
  obtains s f where "fb_prepare L ho R = Inr s"
    "wire_frame L (frame_cipher_new (ho_static_key ho)) MAX_PLAINTEXT f (fs_wire s)" "f_type f = Auth"
    "f_payload f = auth_encode (client_auth L (ho_static_key ho) (ho_uid ho) (ho_max_plaintext ho) R) @ ar_padding R"
    "fs_cipher s = frame_cipher_new (derive_session_key L (ho_static_key ho) (ar_salt R))"
    "enc_cipher (fs_enc s) = fs_cipher s" "enc_limit (fs_enc s) = ho_max_plaintext ho"
proof -
  let ?e = "frame_encoder_new (frame_cipher_new (ho_static_key ho)) counter_stream"
  have e: "enc_limit ?e = MAX_PLAINTEXT" "enc_cipher ?e = frame_cipher_new (ho_static_key ho)" "MAX_PLAINTEXT \<le> MAX_PLAINTEXT_CAP"
    by (simp_all add: frame_encoder_new_def const_defs)
  obtain f w e' where "encode L ?e Auth 0 0 (auth_encode (client_auth L (ho_static_key ho) (ho_uid ho) (ho_max_plaintext ho) R) @
      ar_padding R) = (Inr w, e')" "wire_frame L (enc_cipher ?e) (enc_limit ?e) f w"
    "msg_of f = (Auth, 0, 0, auth_encode (client_auth L (ho_static_key ho) (ho_uid ho) (ho_max_plaintext ho) R) @ ar_padding R)"
    using encode_wire [OF assms(1), of _ ?e] client_auth_length [OF assms(2,3)] e by metis
  then show thesis using that e by (simp add: fb_prepare_def msg_of_def Let_def)
qed

text \<open>
  The counter of the AUTH frame is the same in every connection, so all AUTH frames of a user are sealed with one key and one nonce.
\<close>

lemma auth_nonce_fixed:
  assumes "fb_prepare L ho R = Inr s"
  shows "\<exists>aad p ct tag. aead_encrypt L (ho_static_key ho) (nonce_for 1) aad p = Some (ct, tag) \<and>
    p = auth_encode (client_auth L (ho_static_key ho) (ho_uid ho) (ho_max_plaintext ho) R) @ ar_padding R \<and>
    drop HEADER_LEN (fs_wire s) = ct @ tag"
proof -
  define e where "e = frame_encoder_new (frame_cipher_new (ho_static_key ho)) counter_stream"
  define p where "p = auth_encode (client_auth L (ho_static_key ho) (ho_uid ho) (ho_max_plaintext ho) R) @ ar_padding R"
  define h where "h = build_header Auth 0 0 (length p + TAG_LEN) 1"
  have "fst (encode L e Auth 0 0 p) = Inr (fs_wire s)"
    using assms by (auto simp: fb_prepare_def e_def p_def Let_def split: sum.splits)
  moreover have "counter_next (enc_counters e) = (1, \<lparr>cg_base = 1, cg_next = 1\<rparr>)" "aead_key (enc_cipher e) = ho_static_key ho"
    by (simp_all add: e_def frame_encoder_new_def counter_stream_def counter_next_def frame_cipher_new_def)
  moreover have len: "length h = HEADER_LEN" by (simp add: h_def build_header_def HEADER_LEN_def)
  ultimately obtain ct tag where "aead_encrypt L (ho_static_key ho) (nonce_for 1) (take 12 h) p = Some (ct, tag)" "fs_wire s = h @ ct @ tag"
    by (cases "aead_encrypt L (ho_static_key ho) (nonce_for 1) (take 12 h) p")
      (auto simp: encode_def encode_into_def Let_def seal_slice_def simp flip: h_def split: if_splits)
  with len show ?thesis
    by (intro exI [of _ "take 12 h"] exI [of _ p] exI [of _ ct] exI [of _ tag]) (simp add: p_def)
qed

lemma negotiate_again:
  assumes "MAX_PLAINTEXT \<le> c" "c \<le> MAX_PLAINTEXT_CAP"
  shows "negotiate (of_nat (negotiate (of_nat c) m)) (of_nat c) = negotiate (of_nat c) m"
proof -
  have small: "unat (of_nat k :: u32) = k" if "k \<le> MAX_PLAINTEXT_CAP" for k
    using that by (simp add: unat_of_nat take_bit_nat_eq_self_iff const_defs)
  have "negotiate (of_nat c) m \<le> c" "negotiate (of_nat c) m \<le> MAX_PLAINTEXT_CAP" "MAX_PLAINTEXT \<le> negotiate (of_nat c) m"
    using negotiate_bounds [of "of_nat c" m] assms by (auto simp: negotiate_def clamp_def small min_def)
  then show ?thesis using assms small by (auto simp: negotiate_def [of "of_nat (negotiate (of_nat c) m)"] clamp_def)
qed

text \<open>The reply of the server is read by the client with the key they share.\<close>

lemma reply_read:
  assumes "aead_ok L" "wire_frame L c limit f w" "length (f_payload f) \<le> lim" "lim \<le> MAX_PLAINTEXT_CAP"
    and "concat chunks = w @ rest" "[] \<notin> set chunks"
  obtains d cs where "frame_read L (frame_decoder_new (Some c) None lim) (map Inr chunks) = (Inr (Some f), d, map Inr cs)"
    "dec_cipher d = Some c"
proof -
  let ?d = "frame_decoder_new (Some c) None lim"
  have r: "reads ?d c lim" "dec_buf ?d = []"
    by (simp_all add: reads_def frame_decoder_new_def)
  have "wire_frame L c lim f w" by (rule wire_frame_limit [OF assms(2-4)])
  moreover have "dec_buf ?d @ concat chunks = w @ rest" using r assms(5) by simp
  ultimately obtain d' cs where "frame_read L ?d (map Inr chunks) = (Inr (Some f), d', map Inr cs)" "reads d' c lim"
    using frame_read_complete [OF assms(1) _ r(1) _ assms(6)] by metis
  then show thesis using that by (simp add: reads_def)
qed

lemma handshake_reply:
  assumes "aead_ok L" "wire_frame L (fs_cipher s) limit f w" "f_type f = AuthOk" "f_payload f = to_le_bytes (n :: u32)"
    and "concat chunks = w @ rest" "[] \<notin> set chunks" "4 \<le> enc_limit (fs_enc s)" "enc_limit (fs_enc s) \<le> MAX_PLAINTEXT_CAP"
  obtains d src' where "handshake_mux L s False (map Inr chunks) =
      Inr (d, (fs_enc s)\<lparr>enc_limit := negotiate n (of_nat (enc_limit (fs_enc s)))\<rparr>, src')"
    "dec_cipher d = Some (fs_cipher s)" "dec_limit d = negotiate n (of_nat (enc_limit (fs_enc s)))"
proof -
  have "length (f_payload f) \<le> enc_limit (fs_enc s)" using assms(4,7) by simp
  from reply_read [OF assms(1,2) this assms(8,5,6)]
  obtain d' cs where "frame_read L (frame_decoder_new (Some (fs_cipher s)) None (enc_limit (fs_enc s))) (map Inr chunks) =
      (Inr (Some f), d', map Inr cs)" "dec_cipher d' = Some (fs_cipher s)" .
  then show thesis
    using assms(3,4) that by (auto simp: handshake_mux_def Let_def ensure_def)
qed

lemma wire_aad: "wire_frame L c limit f w \<Longrightarrow> f_aad f = take 12 w"
  by (auto simp: wire_frame_def header_of_def HEADER_LEN_def min_def)

text \<open>The server accepts an AUTH frame made by a registered client, however it is cut.\<close>

lemma auth_frame_accepted:
  assumes "aead_ok L" "hmac_ok L" "outbound_ok ho R"
    and "wire_frame L (frame_cipher_new (ho_static_key ho)) limit f w" "f_type f = Auth"
    and "f_payload f = auth_encode (client_auth L (ho_static_key ho) (ho_uid ho) (ho_max_plaintext ho) R) @ ar_padding R"
    and "st_static_keys st = ks @ (ho_uid ho, ho_static_key ho) # ks'"
    and "\<forall>(u, k) \<in> set ks. \<forall>c. \<exists>e. open_ct L (frame_cipher_new k) c (take 12 w) (drop HEADER_LEN w) = Inl e"
    and "fst (check_and_remember_nonce now st (ho_uid ho) (ar_nonce R) (ar_ts R))"
    and "\<not> outside_window now (ar_ts R) AUTH_WINDOW"
    and "concat chunks = w" "[] \<notin> set chunks"
  obtains st1 d src where "read_mode_a_auth L now st raw_decoder False (map Inr chunks) =
      (AuthAccepted (ho_uid ho) (ho_static_key ho) (client_auth L (ho_static_key ho) (ho_uid ho) (ho_max_plaintext ho) R), st1, d, src)"
    "st_max_plaintext st1 = st_max_plaintext st"
proof -
  let ?ap = "client_auth L (ho_static_key ho) (ho_uid ho) (ho_max_plaintext ho) R"
  have ap: "ap_uid ?ap = ho_uid ho" "ap_nonce ?ap = ar_nonce R" "ap_ts ?ap = ar_ts R" "proto_version_compatible ?ap"
    "ap_mac ?ap = auth_mac L (ho_static_key ho) (ap_uid ?ap) (ap_ts ?ap) (ap_nonce ?ap)"
    by (simp_all add: client_auth_def proto_version_compatible_def)
  obtain st1 where n: "check_and_remember_nonce now st (ap_uid ?ap) (ap_nonce ?ap) (ap_ts ?ap) = (True, st1)"
    using assms(9) ap by (metis prod.collapse)
  have len: "length (f_payload f) \<le> MAX_PLAINTEXT" using client_auth_length [OF assms(2,3)] assms(6) by simp
  have "concat chunks = w @ []" using assms(11) by simp
  from raw_read [OF assms(1,4) len this assms(12)]
  obtain b' cs where r: "frame_read L raw_decoder (map Inr chunks) =
      (Inr (Some (sealed f (drop HEADER_LEN w))), raw_decoder\<lparr>dec_buf := b'\<rparr>, map Inr cs)" .
  have "list_all (\<lambda>(u, k). \<exists>e. open_ct L (frame_cipher_new k) (f_counter f) (f_aad f) (drop HEADER_LEN w) = Inl e) ks"
    using assms(8) wire_aad [OF assms(4)] by (auto simp: list_all_iff)
  from genuine_auth_accepted [OF assms(1,4,6) client_auth_wf [OF assms(2,3)] ap(4,5) _ n _ this]
  have "auth_from_frame L now st (sealed f (drop HEADER_LEN w)) = (AuthAccepted (ho_uid ho) (ho_static_key ho) ?ap, st1)"
    using assms(7,10) ap by simp
  moreover have "f_type (sealed f (drop HEADER_LEN w)) = Auth" using assms(5) by (simp add: sealed_def)
  moreover have "st_max_plaintext st1 = st_max_plaintext st"
    using n by (auto simp: check_and_remember_nonce_def Let_def split: if_splits)
  ultimately show thesis using that r by (simp add: read_mode_a_auth_def)
qed

text \<open>The server's side of the handshake, for the frame the client prepared.\<close>

lemma server_accepts:
  assumes "aead_ok L" "aead_total L" "hmac_ok L" "outbound_ok ho R" "fb_prepare L ho R = Inr s"
    and "st_static_keys st = ks @ (ho_uid ho, ho_static_key ho) # ks'"
    and "\<forall>(u, k) \<in> set ks. \<forall>c. \<exists>e. open_ct L (frame_cipher_new k) c (take 12 (fs_wire s)) (drop HEADER_LEN (fs_wire s)) = Inl e"
    and "fst (check_and_remember_nonce (ae_unix A) st (ho_uid ho) (ar_nonce R) (ar_ts R))"
    and "\<not> outside_window (ae_unix A) (ar_ts R) AUTH_WINDOW"
    and "concat chunks = fs_wire s" "[] \<notin> set chunks"
  obtains ch st' n where "channel_of L A (st, g) False (map Inr chunks) = (Some ch, st', drop_guard g)"
    "enc_cipher (ma_encoder ch) = fs_cipher s" "dec_cipher (ma_reader ch) = Some (fs_cipher s)"
    "n = negotiate (of_nat (ho_max_plaintext ho)) (of_nat (st_max_plaintext st))"
    "enc_limit (ma_encoder ch) = n" "dec_limit (ma_reader ch) = n" "ma_queue ch = [auth_ok_frame n]"
proof -
  let ?ap = "client_auth L (ho_static_key ho) (ho_uid ho) (ho_max_plaintext ho) R"
  obtain f where f: "wire_frame L (frame_cipher_new (ho_static_key ho)) MAX_PLAINTEXT f (fs_wire s)" "f_type f = Auth"
    "f_payload f = auth_encode ?ap @ ar_padding R" and c: "fs_cipher s = frame_cipher_new (derive_session_key L (ho_static_key ho) (ar_salt R))"
    using fb_prepare_wire [OF assms(2-4)] assms(5) by (metis Inr_inject)
  from auth_frame_accepted [OF assms(1,3,4) f assms(6-11)]
  obtain st1 d src where r: "read_mode_a_auth L (ae_unix A) st raw_decoder False (map Inr chunks) =
      (AuthAccepted (ho_uid ho) (ho_static_key ho) ?ap, st1, d, src)" and mp: "st_max_plaintext st1 = st_max_plaintext st" .
  have ap: "ap_salt ?ap = ar_salt R" "ap_max_plaintext ?ap = of_nat (ho_max_plaintext ho)" by (simp_all add: client_auth_def)
  obtain ch st' where sp: "spawn_mode_a_channel L A st1 (ho_uid ho) (ho_static_key ho) ?ap d
      (negotiate (ap_max_plaintext ?ap) (of_nat (st_max_plaintext st1))) = (ch, st')" by fastforce
  have "channel_of L A (st, g) False (map Inr chunks) = (Some ch, st', drop_guard g)"
    using r sp by (simp add: channel_of_def)
  then show thesis
    using that sp c ap mp
    by (auto simp: spawn_mode_a_channel_def session_cipher_def set_cipher_def Let_def split: prod.splits)
qed

section \<open>Properties\<close>

text \<open>
  C11. Client and server agree. When the client's user is registered with the client's key and no user tried before it
  has a key that opens the frame, the clocks differ by at most a minute and the nonce is fresh, the server accepts the bytes the client
  sends first, however they are cut. From the first frame the server sends back, the client sets up its channel: each side then seals with the key the other side opens with, and both directions use the same frame limit on both sides.
\<close>

theorem handshake_agrees:
  assumes "aead_ok L" "aead_total L" "hmac_ok L" "outbound_ok ho R" "fb_prepare L ho R = Inr s"
    and "st_static_keys st = ks @ (ho_uid ho, ho_static_key ho) # ks'"
    and "\<forall>(u, k) \<in> set ks. \<forall>c. \<exists>e. open_ct L (frame_cipher_new k) c (take 12 (fs_wire s)) (drop HEADER_LEN (fs_wire s)) = Inl e"
    and "fst (check_and_remember_nonce (ae_unix A) st (ho_uid ho) (ar_nonce R) (ar_ts R))"
    and "unat (ae_unix A) \<le> unat (ar_ts R) + 60" "unat (ar_ts R) \<le> unat (ae_unix A) + 60"
    and "concat chunks = fs_wire s" "[] \<notin> set chunks"
  shows "\<exists>ch st'. channel_of L A (st, g) False (map Inr chunks) = (Some ch, st', drop_guard g) \<and>
    (\<forall>reply. concat reply = concat (mode_a_writer L 1 (ma_encoder ch) (ma_queue ch)) \<and> [] \<notin> set reply \<longrightarrow>
       (\<exists>d e src. handshake_mux L s False (map Inr reply) = Inr (d, e, src) \<and>
          dec_cipher d = Some (enc_cipher (ma_encoder ch)) \<and> dec_cipher (ma_reader ch) = Some (enc_cipher e) \<and>
          dec_limit d = enc_limit (ma_encoder ch) \<and> dec_limit (ma_reader ch) = enc_limit e \<and> enc_limit e = dec_limit d))"
proof -
  have "\<not> outside_window (ae_unix A) (ar_ts R) AUTH_WINDOW"
    using assms(9,10) by (simp add: outside_window_iff AUTH_WINDOW_def)
  from server_accepts [OF assms(1-8) this assms(11,12), of g]
  obtain ch st' n where ch: "channel_of L A (st, g) False (map Inr chunks) = (Some ch, st', drop_guard g)"
    "enc_cipher (ma_encoder ch) = fs_cipher s" "dec_cipher (ma_reader ch) = Some (fs_cipher s)"
    "n = negotiate (of_nat (ho_max_plaintext ho)) (of_nat (st_max_plaintext st))"
    "enc_limit (ma_encoder ch) = n" "dec_limit (ma_reader ch) = n" "ma_queue ch = [auth_ok_frame n]" by metis
  have s: "enc_cipher (fs_enc s) = fs_cipher s" "enc_limit (fs_enc s) = ho_max_plaintext ho"
    using fb_prepare_wire [OF assms(2-4)] assms(5) by (metis Inr_inject)+
  have n: "MAX_PLAINTEXT \<le> n" "n \<le> MAX_PLAINTEXT_CAP" using negotiate_bounds ch(4) by auto
  have hm: "MAX_PLAINTEXT \<le> ho_max_plaintext ho" "ho_max_plaintext ho \<le> MAX_PLAINTEXT_CAP" using assms(4) by (auto simp: outbound_ok_def)
  have four: "length (to_le_bytes (of_nat n :: u32)) \<le> enc_limit (ma_encoder ch)" using n ch(5) by (simp add: const_defs)
  obtain f w e' where w: "encode L (ma_encoder ch) AuthOk 0 0 (to_le_bytes (of_nat n :: u32)) = (Inr w, e')"
    "wire_frame L (fs_cipher s) n f w" "msg_of f = (AuthOk, 0, 0, to_le_bytes (of_nat n :: u32))"
    using encode_wire [OF assms(2) four] n ch(2,5) by metis
  have wr: "mode_a_writer L 1 (ma_encoder ch) (ma_queue ch) = [w]"
    using w(1) ch(7) by (simp add: auth_ok_frame_def out_frame_new_def)
  have "\<exists>d e src. handshake_mux L s False (map Inr reply) = Inr (d, e, src) \<and>
          dec_cipher d = Some (enc_cipher (ma_encoder ch)) \<and> dec_cipher (ma_reader ch) = Some (enc_cipher e) \<and>
          dec_limit d = enc_limit (ma_encoder ch) \<and> dec_limit (ma_reader ch) = enc_limit e \<and> enc_limit e = dec_limit d"
    if r: "concat reply = concat [w]" "[] \<notin> set reply" for reply
  proof -
    have "4 \<le> enc_limit (fs_enc s)" "enc_limit (fs_enc s) \<le> MAX_PLAINTEXT_CAP" using hm s by (auto simp: const_defs)
    then obtain d src where "handshake_mux L s False (map Inr reply) =
        Inr (d, (fs_enc s)\<lparr>enc_limit := negotiate (of_nat n) (of_nat (enc_limit (fs_enc s)))\<rparr>, src)"
      "dec_cipher d = Some (fs_cipher s)" "dec_limit d = negotiate (of_nat n) (of_nat (enc_limit (fs_enc s)))"
      using handshake_reply [OF assms(1) w(2), of "of_nat n" reply "[]"] w(3) r by (auto simp: msg_of_def)
    moreover have "negotiate (of_nat n) (of_nat (enc_limit (fs_enc s))) = n"
      using negotiate_again [OF hm] ch(4) s(2) by simp
    ultimately show ?thesis using ch s by auto
  qed
  then show ?thesis using ch(1) wr by auto
qed

definition demo_outbound :: http_outbound where
  "demo_outbound = \<lparr>ho_url = ''https://proxy.example/api'', ho_ws = False, ho_static_key = [5], ho_uid = ''alice'',
     ho_max_plaintext = MAX_PLAINTEXT\<rparr>"

definition demo_random :: auth_random where
  "demo_random = \<lparr>ar_salt = replicate 16 9, ar_nonce = replicate 16 3, ar_ts = 77, ar_padding = [0, 0]\<rparr>"

lemma demo_outbound_ok: "outbound_ok demo_outbound demo_random"
  by (simp add: outbound_ok_def demo_outbound_def demo_random_def ascii_is_str const_defs)

theorem handshake_agrees_witness:
  "\<exists>s ch st'. fb_prepare demo_lib demo_outbound demo_random = Inr s \<and>
     channel_of demo_lib demo_accept (demo_auth_server, gate_new 8 2) False [Inr (fs_wire s)] =
       (Some ch, st', drop_guard (gate_new 8 2))"
proof -
  obtain s f where s: "fb_prepare demo_lib demo_outbound demo_random = Inr s"
    "wire_frame demo_lib (frame_cipher_new (ho_static_key demo_outbound)) MAX_PLAINTEXT f (fs_wire s)"
    using fb_prepare_wire [OF demo_lib_ok(2,3) demo_outbound_ok] by metis
  have ne: "[] \<notin> set [fs_wire s]" using wire_frame_length [OF demo_lib_ok(1) s(2)] by (auto simp: const_defs)
  have k: "st_static_keys demo_auth_server = [] @ (ho_uid demo_outbound, ho_static_key demo_outbound) # [(''bob'', [6])]"
    by (simp add: demo_auth_server_def demo_outbound_def)
  have t: "unat (ae_unix demo_accept) \<le> unat (ar_ts demo_random) + 60" "unat (ar_ts demo_random) \<le> unat (ae_unix demo_accept) + 60"
    by (simp_all add: demo_accept_def demo_random_def)
  have n: "fst (check_and_remember_nonce (ae_unix demo_accept) demo_auth_server (ho_uid demo_outbound) (ar_nonce demo_random) (ar_ts demo_random))"
    using demo_auth_facts(5) by (simp add: demo_accept_def)
  from handshake_agrees [OF demo_lib_ok demo_outbound_ok s(1) k _ n t _ ne, of "gate_new 8 2"] s(1) show ?thesis
    by auto
qed

end
