(* ===== verification/Outbound.thy ===== *)
theory Outbound
  imports Client_Fallback
begin

text \<open>
  The choice of the transport (\<open>src/src/client/outbound.rs\<close>): the classes of errors the local proxies report, the
  circuit breaker of the primary path, and the fallback decision. Instants are milliseconds; an
  operation that reads the clock twice takes both readings.
\<close>

section \<open>Errors\<close>

text \<open>
  An opaque error carries a \<open>TargetError\<close> or it does not. The errors of the multiplexer, which the
  fallback transport returns as they are, are plain messages.
\<close>

datatype client_error = Target_Error open_error | Plain_Error

fun target_error :: "client_error \<Rightarrow> open_error option" where
  "target_error (Target_Error e) = Some e"
| "target_error Plain_Error = None"

fun of_mux_error :: "mux_error \<Rightarrow> client_error" where
  "of_mux_error InvalidHost = Plain_Error"
| "of_mux_error ChannelClosed = Plain_Error"
| "of_mux_error NoReply = Plain_Error"
| "of_mux_error (Rejected e) = Plain_Error"

definition fallback_worthwhile :: "open_error \<Rightarrow> bool" where
  "fallback_worthwhile e \<longleftrightarrow> e = Limit"

definition error_tag :: "client_error \<Rightarrow> string" where
  "error_tag e = (case target_error e of None \<Rightarrow> ''transport-failure'' | Some t \<Rightarrow> open_error_tag t)"

definition socks5_reply_code :: "client_error \<Rightarrow> u8" where
  "socks5_reply_code e =
     (case target_error e of
        Some Denied \<Rightarrow> 2
      | Some DialFailed \<Rightarrow> 5
      | _ \<Rightarrow> 1)"

section \<open>The circuit breaker\<close>

definition BREAKER_THRESHOLD :: u32 where [const_defs]: "BREAKER_THRESHOLD = 3"
definition BREAKER_COOLDOWN :: nat where [const_defs]: "BREAKER_COOLDOWN = 60000"

record breaker =
  cb_failures :: u32
  cb_tripped_until :: "nat option"
  cb_threshold :: u32
  cb_cooldown :: nat

definition breaker_new :: "u32 \<Rightarrow> nat \<Rightarrow> breaker" where
  "breaker_new threshold cooldown =
     \<lparr>cb_failures = 0, cb_tripped_until = None, cb_threshold = threshold, cb_cooldown = cooldown\<rparr>"

definition cooling :: "nat \<Rightarrow> breaker \<Rightarrow> bool" where
  "cooling now b \<longleftrightarrow> (case cb_tripped_until b of None \<Rightarrow> False | Some t \<Rightarrow> now < t)"

definition can_try :: "nat \<Rightarrow> breaker \<Rightarrow> bool" where
  "can_try now b \<longleftrightarrow> \<not> cooling now b"

definition breaker_is_open :: "nat \<Rightarrow> breaker \<Rightarrow> bool" where
  "breaker_is_open now b \<longleftrightarrow> \<not> can_try now b"

definition record_success :: "breaker \<Rightarrow> breaker" where
  "record_success b = b\<lparr>cb_failures := 0, cb_tripped_until := None\<rparr>"

text \<open>The lock is held throughout, so the second reading of the clock is of the same call.\<close>

definition record_failure :: "nat \<Rightarrow> nat \<Rightarrow> breaker \<Rightarrow> breaker" where
  "record_failure now now' b =
     (if cooling now b then b
      else if cb_tripped_until b \<noteq> None then b\<lparr>cb_tripped_until := Some (now' + cb_cooldown b)\<rparr>
      else
        let b1 = b\<lparr>cb_failures := cb_failures b + 1\<rparr> in
        if cb_failures b1 \<ge> cb_threshold b1
        then b1\<lparr>cb_tripped_until := Some (now' + cb_cooldown b1), cb_failures := 0\<rparr>
        else b1)"

section \<open>Outbounds\<close>

datatype ('p, 'h) outbound = Wt 'p | Http 'h | Both 'p 'h breaker

definition outbound_build ::
  "(string \<Rightarrow> 'e + 'p) \<Rightarrow> (string \<Rightarrow> 'e + 'h) \<Rightarrow> 'e \<Rightarrow> client_cfg \<Rightarrow> 'e + ('p, 'h) outbound" where
  "outbound_build new_pool new_http none_configured cfg =
     (case (cc_wt_url cfg, cc_fb_url cfg) of
        (Some u, Some f) \<Rightarrow>
          and_then (new_pool u) (\<lambda>p. and_then (new_http f) (\<lambda>h.
            Inr (Both p h (breaker_new BREAKER_THRESHOLD BREAKER_COOLDOWN))))
      | (Some u, None) \<Rightarrow> and_then (new_pool u) (\<lambda>p. Inr (Wt p))
      | (None, Some f) \<Rightarrow> and_then (new_http f) (\<lambda>h. Inr (Http h))
      | (None, None) \<Rightarrow> Inl none_configured)"

definition outbound_describe :: "('h \<Rightarrow> bool) \<Rightarrow> ('p, 'h) outbound \<Rightarrow> string" where
  "outbound_describe is_ws ob =
     (case ob of
        Wt _ \<Rightarrow> ''WebTransport''
      | Http h \<Rightarrow> if is_ws h then ''WebSocket fallback'' else ''HTTPS POST fallback''
      | Both _ _ _ \<Rightarrow> ''WebTransport + fallback'')"

text \<open>
  What \<open>open_tcp\<close> and \<open>udp_associate\<close> do with the result of the primary transport: the change of the
  breaker, and the final result or the decision to fall back.
\<close>

definition primary_result ::
  "nat \<Rightarrow> nat \<Rightarrow> breaker \<Rightarrow> client_error + 's \<Rightarrow> (client_error + 's) option \<times> breaker" where
  "primary_result now now' b r =
     (case r of
        Inr s \<Rightarrow> (Some (Inr s), record_success b)
      | Inl e \<Rightarrow>
          (case target_error e of
             Some t \<Rightarrow> (if \<not> fallback_worthwhile t then Some (Inl e) else None, record_success b)
           | None \<Rightarrow> (None, record_failure now now' b)))"

text \<open>
  The whole operation, when no other session changes the breaker while the primary transport is tried:
  the result, the breaker, and whether the fallback was used and noted.
\<close>

definition both_open ::
  "nat \<Rightarrow> nat \<Rightarrow> nat \<Rightarrow> breaker \<Rightarrow> client_error + 's \<Rightarrow> client_error + 's \<Rightarrow>
   (client_error + 's) \<times> breaker \<times> bool" where
  "both_open t now now' b primary fallback =
     (if can_try t b then
        (case primary_result now now' b primary of
           (Some r, b') \<Rightarrow> (r, b', False)
         | (None, b') \<Rightarrow> (fallback, b', True))
      else (fallback, b, True))"

definition outbound_open ::
  "nat \<Rightarrow> nat \<Rightarrow> nat \<Rightarrow> ('p \<Rightarrow> client_error + 's) \<Rightarrow> ('h \<Rightarrow> client_error + 's) \<Rightarrow> ('p, 'h) outbound \<Rightarrow>
   (client_error + 's) \<times> ('p, 'h) outbound \<times> bool" where
  "outbound_open t now now' wt_open http_open ob =
     (case ob of
        Wt p \<Rightarrow> (wt_open p, ob, False)
      | Http h \<Rightarrow> (http_open h, ob, False)
      | Both p h b \<Rightarrow>
          (case both_open t now now' b (wt_open p) (http_open h) of (r, b', used) \<Rightarrow> (r, Both p h b', used)))"

section \<open>Abstract view\<close>

text \<open>What sessions report to the breaker, in the order they take its lock; a failure with its clock readings.\<close>

datatype report = Success | Failure nat nat

fun report_to :: "breaker \<Rightarrow> report \<Rightarrow> breaker" where
  "report_to b Success = record_success b"
| "report_to b (Failure now now') = record_failure now now' b"

definition reports :: "breaker \<Rightarrow> report list \<Rightarrow> breaker" where
  "reports b rs = foldl report_to b rs"

definition failures_at :: "(nat \<times> nat) list \<Rightarrow> report list" where
  "failures_at ts = map (\<lambda>(now, now'). Failure now now') ts"

definition breaker_inv :: "breaker \<Rightarrow> bool" where
  "breaker_inv b \<longleftrightarrow> 0 < cb_threshold b \<and> cb_failures b < cb_threshold b"

section \<open>Lemmas\<close>

lemma reports_simps [simp]:
  "reports b [] = b" "reports b (r # rs) = reports (report_to b r) rs" "reports b (rs @ rs') = reports (reports b rs) rs'"
  by (simp_all add: reports_def)

lemma failures_at_simps [simp]:
  "failures_at [] = []" "failures_at ((t, t') # ts) = Failure t t' # failures_at ts"
  "failures_at (ts @ ts') = failures_at ts @ failures_at ts'"
  by (simp_all add: failures_at_def)

lemma report_same [simp]: "cb_threshold (report_to b r) = cb_threshold b" "cb_cooldown (report_to b r) = cb_cooldown b"
  by (cases r; simp add: record_success_def record_failure_def Let_def)+

lemma reports_same [simp]: "cb_threshold (reports b rs) = cb_threshold b" "cb_cooldown (reports b rs) = cb_cooldown b"
  by (induction rs arbitrary: b) simp_all

lemma report_inv: "breaker_inv b \<Longrightarrow> breaker_inv (report_to b r)"
  by (cases r) (auto simp: breaker_inv_def record_success_def record_failure_def Let_def not_le)

lemma reports_inv: "breaker_inv b \<Longrightarrow> breaker_inv (reports b rs)"
  by (induction rs arbitrary: b) (simp_all add: report_inv)

text \<open>Fewer failures than the threshold only count.\<close>

lemma failures_count:
  assumes "cb_tripped_until b = None" "unat (cb_failures b) + length ts < unat (cb_threshold b)"
  shows "cb_tripped_until (reports b (failures_at ts)) = None \<and>
    unat (cb_failures (reports b (failures_at ts))) = unat (cb_failures b) + length ts"
  using assms
proof (induction ts arbitrary: b)
  case (Cons t ts)
  obtain now now' where t: "t = (now, now')" by fastforce
  have inc: "unat (cb_failures b + 1) = Suc (unat (cb_failures b))"
    using Cons.prems(2) by (intro unat_inc [of _ "cb_threshold b"]) (simp add: word_less_nat_alt)
  then have "\<not> cb_threshold b \<le> cb_failures b + 1"
    using Cons.prems(2) by (simp add: word_le_nat_alt)
  then have "report_to b (Failure now now') = b\<lparr>cb_failures := cb_failures b + 1\<rparr>"
    using Cons.prems(1) by (simp add: record_failure_def cooling_def)
  then show ?case using Cons.IH [of "b\<lparr>cb_failures := cb_failures b + 1\<rparr>"] Cons.prems inc t by simp
qed simp

lemma failure_trips:
  assumes "cb_tripped_until b = None" "Suc (unat (cb_failures b)) = unat (cb_threshold b)"
  shows "cb_tripped_until (record_failure now now' b) = Some (now' + cb_cooldown b)"
proof -
  have "unat (cb_failures b + 1) = Suc (unat (cb_failures b))"
    using assms(2) by (intro unat_inc [of _ "cb_threshold b"]) (simp add: word_less_nat_alt)
  then have "cb_threshold b \<le> cb_failures b + 1" using assms(2) by (simp add: word_le_nat_alt)
  then show ?thesis using assms(1) by (simp add: record_failure_def cooling_def)
qed

lemma cooling_ignores:
  assumes "cb_tripped_until b = Some u" "list_all (\<lambda>(now, _). now < u) ts"
  shows "reports b (failures_at ts) = b"
  using assms
proof (induction ts)
  case (Cons t ts)
  then show ?case by (cases t) (simp add: record_failure_def cooling_def)
qed simp

text \<open>
  Refusals and successes of the primary transport never open the breaker, and without a transport failure only
  a session limit makes a session fall back.
\<close>

lemma answers_keep_primary:
  assumes "cb_tripped_until b = None" "\<forall>e. primary = Inl e \<longrightarrow> target_error e \<noteq> None"
  shows "both_open t now now' b primary fallback =
    (if primary = Inl (Target_Error Limit) then fallback else primary, record_success b, primary = Inl (Target_Error Limit))"
proof (cases primary)
  case (Inl e)
  with assms(2) obtain x where "e = Target_Error x" by (cases e) auto
  with Inl assms(1) show ?thesis
    by (cases x) (simp_all add: both_open_def can_try_def cooling_def primary_result_def fallback_worthwhile_def)
qed (use assms(1) in \<open>simp add: both_open_def can_try_def cooling_def primary_result_def\<close>)

text \<open>A refusal the server sends over the fallback transport is not classified: it is tagged as a transport failure.\<close>

lemma fallback_refusal_untyped:
  "error_tag (of_mux_error (Rejected e)) = ''transport-failure''" "socks5_reply_code (of_mux_error (Rejected e)) = 1"
  by (simp_all add: error_tag_def socks5_reply_code_def)

section \<open>Properties\<close>

text \<open>
  C25. The circuit breaker. Whatever was reported before, after a success the primary path stays in use through fewer failures
  than the threshold; the failure that reaches the threshold takes it out of use for exactly the cooldown,
  during which further failures change nothing; then it is in use again, one failure takes it out again at once,
  and a success closes the breaker.
\<close>

theorem breaker_cycle:
  assumes "Suc (length ts) = unat (cb_threshold b)" "list_all (\<lambda>(now, _). now < t' + cb_cooldown b) us"
    and "t' + cb_cooldown b \<le> v"
  shows "let counting = reports (report_to b Success) (failures_at ts);
             tripped = reports counting (failures_at ((t, t') # us));
             again = report_to tripped (Failure v v')
         in (\<forall>now. can_try now counting) \<and>
            (\<forall>now. can_try now tripped \<longleftrightarrow> t' + cb_cooldown b \<le> now) \<and>
            (\<forall>now. can_try now again \<longleftrightarrow> v' + cb_cooldown b \<le> now) \<and>
            (\<forall>now. can_try now (report_to tripped Success))"
proof -
  define b1 where "b1 = report_to b Success"
  define counting where "counting = reports b1 (failures_at ts)"
  define tripped where "tripped = reports counting (failures_at ((t, t') # us))"
  have b1: "cb_tripped_until b1 = None" "cb_failures b1 = 0" "cb_threshold b1 = cb_threshold b" "cb_cooldown b1 = cb_cooldown b"
    by (simp_all add: b1_def record_success_def)
  then have c: "cb_tripped_until counting = None" "unat (cb_failures counting) = length ts"
    "cb_threshold counting = cb_threshold b" "cb_cooldown counting = cb_cooldown b"
    using failures_count [of b1 ts] assms(1) by (simp_all add: counting_def)
  then have "cb_tripped_until (record_failure t t' counting) = Some (t' + cb_cooldown b)"
    using failure_trips [of counting t t'] assms(1) by simp
  then have tr: "cb_tripped_until tripped = Some (t' + cb_cooldown b)" "cb_cooldown tripped = cb_cooldown b"
    using cooling_ignores [OF _ assms(2)] c(4) report_same(2) [of counting "Failure t t'"] by (simp_all add: tripped_def)
  have "record_failure v v' tripped = tripped\<lparr>cb_tripped_until := Some (v' + cb_cooldown b)\<rparr>"
    using tr assms(3) by (simp add: record_failure_def cooling_def)
  then have "(\<forall>now. can_try now counting) \<and> (\<forall>now. can_try now tripped \<longleftrightarrow> t' + cb_cooldown b \<le> now) \<and>
      (\<forall>now. can_try now (report_to tripped (Failure v v')) \<longleftrightarrow> v' + cb_cooldown b \<le> now) \<and>
      (\<forall>now. can_try now (report_to tripped Success))"
    using c tr by (auto simp: can_try_def cooling_def record_success_def)
  then show ?thesis by (simp add: Let_def counting_def tripped_def b1_def)
qed

theorem breaker_cycle_witness:
  "can_try 100 (reports (report_to (breaker_new 3 60000) Success) (failures_at [(1, 1), (2, 2)])) \<and>
   \<not> can_try 100 (reports (report_to (breaker_new 3 60000) Success) (failures_at [(1, 1), (2, 2), (5, 6), (7, 8)])) \<and>
   can_try 60006 (reports (report_to (breaker_new 3 60000) Success) (failures_at [(1, 1), (2, 2), (5, 6), (7, 8)]))"
  using breaker_cycle [of "[(1, 1), (2, 2)]" "breaker_new 3 60000" 6 "[(7, 8)]" 60006 5 60007]
  by (simp add: breaker_new_def Let_def)

end
