(* ===== verification/Server_Wt.thy ===== *)
theory Server_Wt
  imports Server_Fallback
begin

text \<open>
  The WebTransport listener (\<open>src/src/server/wt.rs\<close>): admission, the handshake on the control stream, the
  control reader and writer, the datagram reader and the teardown. The last part composes everything that
  changes the server's state into one transition system, whatever listener the tasks belong to.
\<close>

section \<open>Accepting a connection\<close>

text \<open>The headers of a request come in an unspecified order; the list is the one the iterator has.\<close>

fun header_value :: "(string \<times> string) list \<Rightarrow> string \<Rightarrow> string option" where
  "header_value [] name = None"
| "header_value ((k, v) # hs) name = (if eq_ignore_ascii_case k name then Some v else header_value hs name)"

text \<open>
  One turn of the accept loop and the start of its task: the gate, then the session request. The
  guard is dropped with the task on every failure.
\<close>

definition drop_ip_guard :: "unauth_gate \<Rightarrow> ip_addr \<Rightarrow> unauth_gate" where
  "drop_ip_guard g ip =
     snd (gate_advance (snd (gate_advance g (Admitted (Some ip)))) (Dropping ip))"

datatype wt_request = WtIncomingFailed | WtRequest "(string \<times> string) list" bool

datatype wt_reply = WtDropped | WtNotFound | WtAccepted

fun wt_session_request ::
  "crypto_lib \<Rightarrow> u64 \<Rightarrow> server_state \<times> unauth_gate \<Rightarrow> ip_addr \<Rightarrow> wt_request \<Rightarrow>
   wt_reply \<times> server_state \<times> unauth_gate" where
  "wt_session_request L now (st, g) ip WtIncomingFailed = (WtDropped, st, drop_ip_guard g ip)"
| "wt_session_request L now (st, g) ip (WtRequest headers accepted) =
     (let (ok, st1) = bearer_ok L now st (header_value headers ''authorization'') in
      if \<not> ok then (WtNotFound, st1, drop_ip_guard g ip)
      else if \<not> accepted then (WtDropped, st1, drop_ip_guard g ip)
      else (WtAccepted, st1, g))"

text \<open>
  The handshake of \<open>handle_wt_conn\<close>: \<open>stream\<close> says whether a control stream was opened in time, \<open>written\<close>
  whether the reply could be written. The result is the connection with its reader and its control
  writer, and the bytes of the reply.
\<close>

record wt_conn =
  wc_conn :: u64
  wc_reader :: frame_decoder
  wc_writer :: frame_encoder
  wc_dgram :: frame_encoder

definition wt_handshake ::
  "crypto_lib \<Rightarrow> accept_env \<Rightarrow> server_state \<times> unauth_gate \<Rightarrow> ip_addr \<Rightarrow> bool \<Rightarrow> bool \<Rightarrow> byte_reads \<Rightarrow> bool \<Rightarrow>
   (wt_conn \<times> bytes) option \<times> server_state \<times> unauth_gate" where
  "wt_handshake L A w ip stream timed_out src written =
     (let (st, g) = w in
      if \<not> stream then (None, st, drop_ip_guard g ip)
      else
        let (r, st1, d, src') = read_mode_a_auth L (ae_unix A) st raw_decoder timed_out src;
            g1 = drop_ip_guard g ip
        in case r of
             AuthAccepted uid static_key ap \<Rightarrow>
               let cipher = session_cipher L static_key ap;
                   negotiated = negotiate (ap_max_plaintext ap) (of_nat (st_max_plaintext st1));
                   reader = (set_cipher d cipher)\<lparr>dec_limit := negotiated\<rparr>;
                   enc = \<lparr>enc_cipher = cipher, enc_counters = counter_stream_server, enc_limit = negotiated\<rparr>
               in (case encode L enc AuthOk 0 0 (to_le_bytes (of_nat negotiated :: u32)) of
                     (Inl _, _) \<Rightarrow> (None, st1, g1)
                   | (Inr wire, enc') \<Rightarrow>
                       if \<not> written then (None, st1, g1)
                       else
                         let (cid, st2) = new_conn A st1 uid cipher negotiated in
                         (Some (\<lparr>wc_conn = cid, wc_reader = reader, wc_writer = enc',
                                 wc_dgram = \<lparr>enc_cipher = cipher, enc_counters = counter_datagram_server,
                                             enc_limit = negotiated\<rparr>\<rparr>, wire), st2, g1))
           | VersionMismatch _ _ \<Rightarrow> (None, st1, g1)
           | AuthRejected \<Rightarrow> (None, st1, g1))"

section \<open>The tasks of a connection\<close>

text \<open>The control writer ends at the first frame that cannot be encoded or written.\<close>

fun ctrl_writer :: "crypto_lib \<Rightarrow> nat \<Rightarrow> frame_encoder \<Rightarrow> out_frame list \<Rightarrow> bytes list" where
  "ctrl_writer L n e [] = []"
| "ctrl_writer L n e (f # fs) =
     (case encode L e (of_type f) (of_flags f) (of_sid f) (of_payload f) of
        (Inr wire, e') \<Rightarrow> (case n of 0 \<Rightarrow> [] | Suc k \<Rightarrow> wire # ctrl_writer L k e' fs)
      | (Inl _, e') \<Rightarrow> [])"

type_synonym udp_send = "nat \<times> socket_addr \<times> bytes"

text \<open>A UDP payload: its target and the datagram, for the control stream and for QUIC datagrams.\<close>

definition udp_data :: "hub_env \<Rightarrow> server_state \<Rightarrow> u64 \<Rightarrow> frame \<Rightarrow> udp_send option \<times> server_state" where
  "udp_data E st cid f =
     (case decode_with (reader_new (f_payload f)) False of
        Inl _ \<Rightarrow> (None, st)
      | Inr (dst, r) \<Rightarrow>
          hub_udp_feed E (st_touch (he_now E) st cid (f_sid f)) cid (f_sid f) dst (fst (reader_rest r)))"

text \<open>One frame of the control stream: the frames sent back, the datagram sent to a target, and the state.\<close>

definition ctrl_frame ::
  "hub_env \<Rightarrow> server_state \<Rightarrow> u64 \<Rightarrow> frame \<Rightarrow> out_frame list \<times> udp_send option \<times> server_state" where
  "ctrl_frame E st cid f =
     (if f_type f = Ping then ([out_frame_new Pong 0 0 []], None, st)
      else if f_type f = UdpAssociate then
        (let (r, st') = hub_udp_associate E st cid (f_sid f) in
         ([open_reply UdpOk (f_sid f) r], None, st'))
      else if f_type f = UdpData then (let (s, st') = udp_data E st cid f in ([], s, st'))
      else if f_type f = Close \<or> f_type f = Error then ([], None, fst (drop_and_release st cid (f_sid f)))
      else ([], None, st))"

fun ctrl_reader ::
  "server_state \<Rightarrow> u64 \<Rightarrow> (hub_env \<times> frame) list \<Rightarrow> out_frame list \<times> udp_send list \<times> server_state" where
  "ctrl_reader st cid [] = ([], [], st)"
| "ctrl_reader st cid ((E, f) # fs) =
     (let (rs, s, st1) = ctrl_frame E st cid f; (rs', ss, st2) = ctrl_reader st1 cid fs
      in (rs @ rs', (case s of None \<Rightarrow> ss | Some s \<Rightarrow> s # ss), st2))"

text \<open>The frames of one datagram, until the buffer holds no complete frame or a frame is bad.\<close>

function dgram_frames :: "crypto_lib \<Rightarrow> frame_decoder \<Rightarrow> frame list \<times> frame_decoder" where
  "dgram_frames L d =
     (case next_frame L d of
        (Inr (Some f), d') \<Rightarrow>
          (let (fs, d'') = dgram_frames L d' in (if f_type f \<noteq> UdpData then fs else f # fs, d''))
      | (Inr None, d') \<Rightarrow> ([], d')
      | (Inl _, d') \<Rightarrow> ([], decoder_clear d'))"
  by pat_completeness auto

termination dgram_frames
  by (relation "measure (\<lambda>(L, d). length (dec_buf d))") (auto dest: next_frame_shrinks [OF sym])

declare dgram_frames.simps [simp del]

fun dgram_feed :: "(nat \<Rightarrow> hub_env) \<Rightarrow> server_state \<Rightarrow> u64 \<Rightarrow> frame list \<Rightarrow> udp_send list \<times> server_state" where
  "dgram_feed Es st cid [] = ([], st)"
| "dgram_feed Es st cid (f # fs) =
     (let (s, st1) = udp_data (Es 0) st cid f; (ss, st2) = dgram_feed (later Es) st1 cid fs
      in ((case s of None \<Rightarrow> ss | Some s \<Rightarrow> s # ss), st2))"

text \<open>One datagram: the decoder keeps its replay window from one to the next.\<close>

definition dgram_receive ::
  "crypto_lib \<Rightarrow> (nat \<Rightarrow> hub_env) \<Rightarrow> frame_decoder \<Rightarrow> server_state \<Rightarrow> u64 \<Rightarrow> bytes \<Rightarrow>
   udp_send list \<times> frame_decoder \<times> server_state" where
  "dgram_receive L Es d st cid dg =
     (let (fs, d') = dgram_frames L (feed d dg); (ss, st') = dgram_feed Es st cid fs in (ss, d', st'))"

text \<open>The death watcher cancels the connection and unlists it, as the end of a mode-A channel does.\<close>

definition death_watch :: "server_state \<Rightarrow> u64 \<Rightarrow> server_state \<times> token list" where
  "death_watch st cid = mode_a_end st cid"

section \<open>The server as a transition system\<close>

text \<open>
  Every change of the server's state by a task of any listener. An operation that waits in the middle
  is a step before and a step after the wait, so tasks interleave there. The numbers of
  connections do not wrap around.
\<close>

inductive server_step :: "crypto_lib \<Rightarrow> server_state \<Rightarrow> server_state \<Rightarrow> bool" for L where
  authenticate: "server_step L st (snd (attempt_user L now st a))"
| accept: "st_conn_seq st \<noteq> - 1 \<Longrightarrow> server_step L st (snd (new_conn A st uid cipher n))"
| admitted: "server_step L st (snd (admit now tok st cid sid))"
| dialled: "server_step L st (snd (open_tcp_dialled st cid sid r))"
| fed: "server_step L st (hub_feed_tcp E st cid sid data fin rst)"
| associated: "server_step L st (snd (hub_udp_associate E st cid sid))"
| udp_fed: "server_step L st (snd (hub_udp_feed E st cid sid dst data))"
| touched: "server_step L st (st_touch now st cid sid)"
| reserved: "map_of (st_heap st) cid \<noteq> None \<Longrightarrow> server_step L st (snd (reserve now tok st cid sid))"
| opened: "server_step L st (snd (snd (wt_opened E written st cid f)))"
| torn_down: "server_step L st (fst (drop_and_release st cid sid))"
| reaped: "server_step L st (fst (reap_idle now st))"
| swept: "server_step L st (sweep_conns is_cancelled st)"
| unlisted: "server_step L st (fst (mode_a_end st cid))"

section \<open>Abstract view\<close>

text \<open>Connection numbers: every connection that exists was numbered before, listed ones exist and are listed once.\<close>

definition ids_ok :: "server_state \<Rightarrow> bool" where
  "ids_ok st \<longleftrightarrow>
     (\<forall>cid. cid \<in> fst ` set (st_heap st) \<longrightarrow> cid < st_conn_seq st) \<and>
     set (st_conns st) \<subseteq> fst ` set (st_heap st) \<and> distinct (st_conns st)"

definition same_ids :: "server_state \<Rightarrow> server_state \<Rightarrow> bool" where
  "same_ids st st' \<longleftrightarrow>
     st_conn_seq st' = st_conn_seq st \<and> fst ` set (st_heap st') = fst ` set (st_heap st) \<and> st_conns st' = st_conns st"

definition server_inv :: "server_state \<Rightarrow> bool" where
  "server_inv st \<longleftrightarrow> quota_ok st \<and> ids_ok st"

section \<open>Lemmas: identifiers\<close>

lemma same_ids_refl [simp]: "same_ids st st"
  by (simp add: same_ids_def)

lemma same_ids_trans [trans]: "same_ids a b \<Longrightarrow> same_ids b c \<Longrightarrow> same_ids a c"
  by (simp add: same_ids_def)

lemma same_ids_ok: "same_ids st st' \<Longrightarrow> ids_ok st \<Longrightarrow> ids_ok st'"
  by (simp add: same_ids_def ids_ok_def)

lemma nonces_same_ids: "same_but_nonces st st' \<Longrightarrow> same_ids st st'"
  by (simp add: same_but_nonces_def same_ids_def) (metis server_state.select_convs server_state.surjective server_state.update_convs(10))

lemma conn_put_same_ids: "map_of (st_heap st) cid = Some c \<Longrightarrow> same_ids st (conn_put st cid c')"
  by (auto simp: same_ids_def conn_put_def dom_update simp del: map_of_eq_Some_iff dest!: map_of_SomeD intro: rev_image_eqI)

lemma st_touch_same_ids: "same_ids st (st_touch now st cid sid)"
  by (auto simp: st_touch_def conn_put_same_ids split: option.split)

lemma quota_same_ids:
  "same_ids st (release_session st)" "same_ids st (snd (try_acquire_session st))"
  by (auto simp: same_ids_def release_session_def try_acquire_session_def Let_def split: if_splits)

lemma drop_same_ids: "same_ids st (fst (drop_and_release st cid sid))"
proof (cases "map_of (st_heap st) cid")
  case (Some c)
  then show ?thesis
    using conn_put_same_ids [OF Some] same_ids_trans [OF conn_put_same_ids [OF Some] quota_same_ids(1)]
    by (auto simp: drop_and_release_def conn_put_def split_def Let_def simp del: map_of_eq_Some_iff)
qed (simp add: drop_and_release_def)

lemma drop_all_same_ids: "same_ids st (fst (drop_all st cid sids))"
proof (induction sids arbitrary: st)
  case (Cons sid sids)
  then show ?case using drop_same_ids same_ids_trans by (fastforce simp: split_def Let_def)
qed simp

lemma reserve_same_ids:
  assumes "map_of (st_heap st) cid = Some c"
  shows "same_ids st (snd (reserve now tok st cid sid))"
  using conn_put_same_ids [OF assms]
  by (auto simp: reserve_eq [OF assms] reserved_def same_ids_def conn_put_def simp del: map_of_eq_Some_iff)

lemma admit_same_ids: "same_ids st (snd (admit now tok st cid sid))"
  using reserve_same_ids by (auto simp: admit_def split: option.split)

lemma dialled_same_ids: "same_ids st (snd (open_tcp_dialled st cid sid r))"
  using drop_same_ids conn_put_same_ids
  by (auto simp: open_tcp_dialled_def spawn_tcp_route_def split: sum.split option.split simp del: map_of_eq_Some_iff)

lemma touched_same_ids:
  "same_ids st (fst (drop_and_release (st_touch n st cid sid) cid sid))"
  "map_of (st_heap (st_touch n st cid sid)) cid = Some c \<Longrightarrow> same_ids st (conn_put (st_touch n st cid sid) cid c')"
  using st_touch_same_ids drop_same_ids conn_put_same_ids same_ids_trans by blast+

lemma feed_same_ids: "same_ids st (hub_feed_tcp E st cid sid data fin rst)"
  using drop_same_ids touched_same_ids st_touch_same_ids
  by (auto simp: hub_feed_tcp_def Let_def split: option.split simp del: map_of_eq_Some_iff)

lemma reserve_put_same_ids:
  assumes "map_of (st_heap st) cid = Some c" "reserve now tok st cid sid = (r, st1)" "map_of (st_heap st1) cid = Some c1"
  shows "same_ids st (conn_put st1 cid c2)"
  using reserve_same_ids [OF assms(1), of now tok sid] assms(2) conn_put_same_ids [OF assms(3)] same_ids_trans by auto

lemma associate_same_ids: "same_ids st (snd (hub_udp_associate E st cid sid))"
proof (cases "map_of (st_heap st) cid")
  case (Some c)
  then show ?thesis
    using reserve_same_ids [OF Some, of "he_now E" "he_child E" sid] reserve_put_same_ids [OF Some, of "he_now E" "he_child E" sid]
    by (auto simp: hub_udp_associate_def split: option.split prod.split sum.split simp del: map_of_eq_Some_iff)
qed (simp add: hub_udp_associate_def)

lemma resolve_udp_same_ids: "same_ids st (snd (resolve_udp_target parse_ip lookup now dst allow st))"
  by (cases "(parse_ip, lookup, now, dst, allow, st)" rule: resolve_udp_target.cases)
     (auto simp: same_ids_def udp_dns_store_def Let_def split: option.splits sum.splits list.splits)

lemma udp_feed_same_ids: "same_ids st (snd (hub_udp_feed E st cid sid dst data))"
proof (cases "map_of (st_heap st) cid")
  case (Some c)
  define c1 st1 where "c1 = conn_touch (he_now E) c sid" and "st1 = conn_put st cid c1"
  obtain r st2 where r: "resolve_udp_target (he_parse_ip E) (he_lookup E) (he_instant E) dst
      (st_allow_private_targets st) st1 = (r, st2)" by fastforce
  have "same_ids st st1" using conn_put_same_ids [OF Some] by (simp add: st1_def)
  then have st2: "same_ids st st2"
    using resolve_udp_same_ids [of st1] r same_ids_trans by (metis snd_conv)
  have "map_of (st_heap st2) cid = Some c1"
    using resolve_udp_heap [OF r] by (simp add: st1_def conn_put_def update_conv' del: map_of_eq_Some_iff)
  then have "same_ids st (conn_put st2 cid c')" for c' using conn_put_same_ids st2 same_ids_trans by blast
  then show ?thesis
    using Some r st2
    by (auto simp: hub_udp_feed_def Let_def c1_def [symmetric] st1_def [symmetric]
        split: option.split sum.split prod.split simp del: map_of_eq_Some_iff)
qed (simp add: hub_udp_feed_def)

lemma wt_opened_same_ids: "same_ids st (snd (snd (wt_opened E written st cid f)))"
  using drop_same_ids by (simp add: wt_opened_def Let_def split: sum.split prod.split)

lemma wt_opened_quota: "quota_ok st \<Longrightarrow> quota_ok (snd (snd (wt_opened E written st cid f)))"
  using drop_quota by (simp add: wt_opened_def Let_def split: sum.split prod.split)

lemma reap_conn_same_ids: "same_ids st (fst (reap_conn now st cid))"
proof (cases "map_of (st_heap st) cid")
  case (Some c)
  obtain st1 ts where d: "drop_all st cid (map fst (filter (\<lambda>(sid, h). handle_idle_for now h > st_idle st) (cs_sessions c))) = (st1, ts)"
    by fastforce
  then have "same_ids st st1" using drop_all_same_ids by (metis fst_conv)
  then show ?thesis using Some d by (simp add: reap_conn_def split: option.split)
qed (simp add: reap_conn_def)

lemma reap_conns_same_ids: "same_ids st (fst (reap_conns now st cids))"
proof (induction cids arbitrary: st)
  case (Cons cid cids)
  then show ?case using reap_conn_same_ids same_ids_trans by (fastforce simp: split_def Let_def)
qed simp

lemma reap_ids: "ids_ok st \<Longrightarrow> ids_ok (fst (reap_idle now st))"
  using reap_conns_same_ids [of st now "st_conns st"]
  by (auto simp: ids_ok_def same_ids_def reap_idle_def split_def Let_def)

lemma reap_quota:
  assumes "quota_ok st" "distinct (st_conns st)"
  shows "quota_ok (fst (reap_idle now st))"
proof -
  obtain st1 ts dead where r: "reap_conns now st (st_conns st) = (st1, ts, dead)" by (metis prod_cases3)
  then have "quota_ok st1" using reap_conns_effect [OF r assms(2)] assms(1) by blast
  then show ?thesis by (rule quota_ok_cong) (simp_all add: reap_idle_def r)
qed

lemma word_less_suc: "(x :: u64) \<noteq> - 1 \<Longrightarrow> y \<le> x \<Longrightarrow> y < x + 1"
  using unat_inc [of x "- 1"] by (simp add: word_order.not_eq_extremum word_less_nat_alt word_le_nat_alt)

lemma new_conn_ids:
  assumes "ids_ok st" "st_conn_seq st \<noteq> - 1"
  shows "ids_ok (snd (new_conn A st uid cipher n))"
proof -
  obtain cid st' where n: "new_conn A st uid cipher n = (cid, st')" by fastforce
  obtain c where "st_heap st' = AList.update (st_conn_seq st) c (st_heap st)"
    and e: "st_conn_seq st' = st_conn_seq st + 1" "st_conns st' = List.insert (st_conn_seq st) (st_conns st)"
    using n by (auto simp: new_conn_def rate_for_def Let_def split: option.splits)
  then have "fst ` set (st_heap st') = insert (st_conn_seq st) (fst ` set (st_heap st))"
    by (simp add: dom_update)
  then show ?thesis
    using assms e word_less_suc by (auto simp: n ids_ok_def less_imp_le)
qed

lemma new_conn_fresh: "ids_ok st \<Longrightarrow> map_of (st_heap st) (st_conn_seq st) = None"
  by (auto simp: ids_ok_def map_of_eq_None_iff)

lemma same_nonces_quota:
  assumes "same_but_nonces st st'" "quota_ok st"
  shows "quota_ok st'"
proof -
  obtain n where "st' = st\<lparr>st_seen_nonces := n\<rparr>" using assms(1) unfolding same_but_nonces_def by blast
  then show ?thesis using quota_ok_cong [OF assms(2)] by simp
qed

lemma same_ids_step:
  "same_ids st st' \<Longrightarrow> (quota_ok st \<Longrightarrow> quota_ok st') \<Longrightarrow> server_inv st \<Longrightarrow> server_inv st'"
  by (auto simp: server_inv_def same_ids_ok)

lemma server_step_inv:
  assumes "server_step L st st'" "server_inv st"
  shows "server_inv st'"
  using assms
proof (induction rule: server_step.induct)
  case (authenticate st now a)
  then show ?case
    using same_ids_step [OF nonces_same_ids same_nonces_quota] attempt_same by blast
next
  case (accept st A uid cipher n)
  then show ?case by (simp add: server_inv_def new_conn_ids new_conn_fresh new_conn_quota)
next
  case (reserved st cid now tok sid)
  then show ?case using same_ids_step [OF reserve_same_ids reserve_quota] by blast
next
  case (reaped st now)
  then have "distinct (st_conns st)" by (simp add: server_inv_def ids_ok_def)
  then show ?case using reaped by (simp add: server_inv_def reap_ids reap_quota)
next
  case (swept st is_cancelled)
  then show ?case by (auto simp: server_inv_def sweep_conns_def ids_ok_def intro: quota_ok_cong)
next
  case (unlisted st cid)
  then show ?case by (auto simp: server_inv_def mode_a_end_def ids_ok_def distinct_removeAll intro: quota_ok_cong)
qed (blast intro: same_ids_step admit_same_ids dialled_same_ids feed_same_ids associate_same_ids udp_feed_same_ids st_touch_same_ids
    wt_opened_same_ids drop_same_ids admit_quota dialled_quota hub_feed_tcp_quota hub_udp_associate_quota hub_udp_feed_quota
    st_touch_quota wt_opened_quota drop_quota)+

interpretation server: invariant_system
  "\<lambda>st. \<exists>cfg. sc_max_sessions cfg < 2 ^ 64 \<and> st = fst (build_state L cfg)" "server_step L" server_inv for L
proof
  fix st :: server_state
  assume "\<exists>cfg. sc_max_sessions cfg < 2 ^ 64 \<and> st = fst (build_state L cfg)"
  then show "server_inv st"
    using build_state_quota by (auto simp: server_inv_def ids_ok_def) (simp_all add: build_state_def)
next
  fix st st' :: server_state
  assume "server_inv st" "server_step L st st'"
  then show "server_inv st'" using server_step_inv by blast
qed

section \<open>Lemmas: the tasks are steps\<close>

abbreviation server_steps :: "crypto_lib \<Rightarrow> server_state \<Rightarrow> server_state \<Rightarrow> bool" where
  "server_steps L \<equiv> (server_step L)\<^sup>*\<^sup>*"

lemmas one_step = r_into_rtranclp [of "server_step L" for L]

lemma udp_data_steps: "server_steps L st (snd (udp_data E st cid f))"
proof (cases "decode_with (reader_new (f_payload f)) False")
  case (Inr p)
  obtain dst r where p: "p = (dst, r)" by fastforce
  have "server_steps L st (st_touch (he_now E) st cid (f_sid f))" by (rule one_step) (rule server_step.touched)
  also have "server_step L \<dots> (snd (hub_udp_feed E \<dots> cid (f_sid f) dst (fst (reader_rest r))))" by (rule server_step.udp_fed)
  finally show ?thesis by (simp add: udp_data_def Inr p)
qed (simp add: udp_data_def)

lemma ctrl_frame_steps: "server_steps L st (snd (snd (ctrl_frame E st cid f)))"
  using udp_data_steps [of L st E cid f] one_step [OF server_step.associated] one_step [OF server_step.torn_down]
  by (auto simp: ctrl_frame_def split_def Let_def)

lemma ctrl_reader_steps: "server_steps L st (snd (snd (ctrl_reader st cid fs)))"
proof (induction fs arbitrary: st)
  case (Cons p fs)
  obtain E f where "p = (E, f)" by fastforce
  then show ?case
    using Cons [of "snd (snd (ctrl_frame E st cid f))"] ctrl_frame_steps [of L st E cid f]
    by (simp add: split_def Let_def)
qed simp

lemma dgram_feed_steps: "server_steps L st (snd (dgram_feed Es st cid fs))"
proof (induction fs arbitrary: Es st)
  case (Cons f fs)
  then show ?case
    using udp_data_steps [of L st "Es 0" cid f] Cons [of "snd (udp_data (Es 0) st cid f)" "later Es"]
      rtranclp_trans [of "server_step L" st] by (simp add: split_def Let_def)
qed simp

lemma wt_stream_steps: "server_steps L st (snd (snd (handle_wt_stream E written st cid first)))"
proof (cases "\<exists>f c. first = Some f \<and> map_of (st_heap st) cid = Some c")
  case True
  then obtain f c where f: "first = Some f" "map_of (st_heap st) cid = Some c" by blast
  have r: "server_step L st (snd (reserve (he_now E) (he_child E) st cid (f_sid f)))"
    using f(2) by (intro server_step.reserved) simp
  moreover have "server_step L st1 (snd (snd (wt_opened E written st1 cid f)))" for st1 by (rule server_step.opened)
  ultimately have "server_steps L st (snd (snd (wt_opened E written (snd (reserve (he_now E) (he_child E) st cid (f_sid f))) cid f)))"
    by (meson converse_rtranclp_into_rtranclp r_into_rtranclp)
  then show ?thesis
    using r by (auto simp: handle_wt_stream_def f Let_def split: prod.split sum.split)
qed (auto simp: handle_wt_stream_def split: option.split)

lemma touch_drop_steps:
  "server_steps L st (fst (drop_and_release st cid sid))"
  "server_steps L st (fst (drop_and_release (st_touch now st cid sid) cid sid))"
  "server_steps L (st_touch now st cid sid) st' \<Longrightarrow> server_steps L st st'"
proof -
  show d: "server_steps L st (fst (drop_and_release st cid sid))" for st by (rule one_step) (rule server_step.torn_down)
  show t: "server_steps L (st_touch now st cid sid) st' \<Longrightarrow> server_steps L st st'" for st'
    by (rule converse_rtranclp_into_rtranclp [of "server_step L"]) (rule server_step.touched)
  show "server_steps L st (fst (drop_and_release (st_touch now st cid sid) cid sid))" by (rule t) (rule d)
qed

lemma target_to_client_steps: "server_steps L st (snd (snd (target_to_client st cid sid es)))"
proof (induction st cid sid es rule: target_to_client.induct)
  case (4 st cid sid now ok data es)
  let ?st1 = "st_touch now st cid sid"
  have "ok \<Longrightarrow> server_steps L st (snd (snd (target_to_client ?st1 cid sid es)))"
    using 4 touch_drop_steps(3) by blast
  then show ?case using touch_drop_steps(2) by (simp add: split_def Let_def)
qed (simp_all add: touch_drop_steps(1))

lemma client_to_target_steps: "server_steps L st (snd (snd (wt_client_to_target st cid sid es)))"
proof (induction st cid sid es rule: wt_client_to_target.induct)
  case (3 st cid sid now ok f es)
  let ?st1 = "st_touch now st cid sid"
  have t: "server_steps L ?st1 s \<Longrightarrow> server_steps L st s" for s by (rule touch_drop_steps(3))
  have "f_type f = Data \<Longrightarrow> ok \<Longrightarrow> f_flags f AND FLAG_FIN = 0 \<Longrightarrow>
      server_steps L st (snd (snd (wt_client_to_target ?st1 cid sid es)))"
    using 3(1) t by simp
  moreover have "f_type f \<noteq> Data \<Longrightarrow> f_type f \<noteq> Close \<Longrightarrow> server_steps L st (snd (snd (wt_client_to_target st cid sid es)))"
    using 3(2) by simp
  ultimately show ?case using touch_drop_steps(1,2) t [of ?st1] by (simp add: split_def Let_def)
qed (simp_all add: touch_drop_steps(1))

lemma open_tcp_steps: "server_steps L st (snd (hub_open_tcp E st cid sid host port))"
proof -
  have "server_steps L st (snd (admit (he_now E) (he_child E) st cid sid))" by (rule one_step) (rule server_step.admitted)
  moreover have "server_step L (snd (admit (he_now E) (he_child E) st cid sid))
      (snd (open_tcp_dialled (snd (admit (he_now E) (he_child E) st cid sid)) cid sid r))" for r by (rule server_step.dialled)
  ultimately show ?thesis
    by (auto simp: hub_open_tcp_def split: prod.splits sum.splits) (metis rtranclp.rtrancl_into_rtrancl)
qed

text \<open>The multiplexer's server loop with its workers, for a channel of any connection.\<close>

lemma steps_extend:
  assumes "server_steps L st0 st"
  shows "server_steps L st0 (hub_feed_tcp E st cid sid data fin rst)"
    "server_steps L st0 (fst (drop_and_release st cid sid))"
    "server_steps L st0 (snd (hub_udp_associate E st cid sid))"
    "server_steps L st0 (snd (hub_udp_feed E st cid sid dst data))"
    "server_steps L st0 (st_touch now st cid sid)"
    "server_steps L st0 (snd (hub_open_tcp E st cid sid host port))"
proof -
  note extend = rtranclp.rtrancl_into_rtrancl [OF assms]
  show "server_steps L st0 (hub_feed_tcp E st cid sid data fin rst)" by (rule extend) (rule server_step.fed)
  show "server_steps L st0 (fst (drop_and_release st cid sid))" by (rule extend) (rule server_step.torn_down)
  show "server_steps L st0 (snd (hub_udp_associate E st cid sid))" by (rule extend) (rule server_step.associated)
  show "server_steps L st0 (snd (hub_udp_feed E st cid sid dst data))" by (rule extend) (rule server_step.udp_fed)
  show "server_steps L st0 (st_touch now st cid sid)" by (rule extend) (rule server_step.touched)
  show "server_steps L st0 (snd (hub_open_tcp E st cid sid host port))"
    using assms open_tcp_steps by (rule rtranclp_trans)
qed

interpretation steps: server_hooks "hub_hooks cid" "\<lambda>(st, Es). server_steps L st0 st" for cid L st0
  by unfold_locales (auto simp: hub_hooks_def hub_close_tcp_def steps_extend split_def Let_def)

lemma dgram_receive_steps: "server_steps L st (snd (snd (dgram_receive L Es d st cid dg)))"
  using dgram_feed_steps by (simp add: dgram_receive_def split_def Let_def)

text \<open>The control writer sends every frame within the limit: only an oversized frame would end it.\<close>

lemma ctrl_writer_total:
  assumes "aead_total L" "enc_limit e \<le> MAX_PLAINTEXT_CAP" "list_all (\<lambda>f. length (of_payload f) \<le> enc_limit e) fs"
  shows "length (ctrl_writer L n e fs) = min n (length fs)"
  using assms
proof (induction L n e fs rule: ctrl_writer.induct)
  case (2 L n e f fs)
  have "length (of_payload f) \<le> enc_limit e" using 2(4) by simp
  from encode_into_total [OF 2(2) this 2(3)]
  obtain e' w where w: "encode_into L e (of_type f) (of_flags f) (of_sid f) (of_payload f) [] = (Inr (), e', w)" .
  have "enc_limit e' = enc_limit e" using encode_into_ok [OF w 2(3)] by blast
  then show ?case using 2 w by (cases n) (auto simp: encode_def)
qed simp

section \<open>Properties\<close>



text \<open>A server that accepts a connection and gets a UDP association over its control stream.\<close>

definition demo_cfg :: server_cfg where
  "demo_cfg = \<lparr>sc_listen = Some ''0.0.0.0:443'', sc_cert = SelfSigned, sc_fallback_listen = None, sc_http_listen = None,
     sc_acme_dir = None, sc_path = ''/api'', sc_users = [(''alice'', ''pw'')], sc_max_sessions = 10, sc_rate_mbps = 0,
     sc_idle_secs = 60, sc_allow_private_targets = False, sc_max_unauth = 16, sc_recv_window = 8388608,
     sc_shutdown_grace = 10, sc_health = None, sc_max_plaintext = MAX_PLAINTEXT, sc_udp_dns_ttl = 60\<rparr>"

definition demo_served :: server_state where
  "demo_served = snd (snd (ctrl_reader
     (snd (new_conn demo_accept (fst (build_state demo_lib demo_cfg)) ''alice'' (frame_cipher_new [5]) MAX_PLAINTEXT)) 1
     [(demo_env, demo_assoc)]))"



end
