(* ===== verification/Client_Wt.thy ===== *)
theory Client_Wt
  imports Outbound Server_Wt "HOL-Library.Sublist"
begin

text \<open>
  A WebTransport connection of the client (\<open>src/src/client/wt.rs\<close>): the handshake on the control stream, the tasks of
  a connection with its heartbeat, TCP sessions on streams of their own, and UDP sessions over datagrams.
  The state of a connection is what its tasks share. Randomness, the clock, and what
  QUIC delivers or accepts are arguments; an operation that waits for a reply has a part before and a part after the wait.
\<close>

section \<open>State\<close>

definition MAX_PER_CONN_client :: nat where [const_defs]: "MAX_PER_CONN_client = 50"
definition PONG_MISS_LIMIT :: nat where [const_defs]: "PONG_MISS_LIMIT = 2"
definition HEARTBEAT_SECS :: nat where [const_defs]: "HEARTBEAT_SECS = 30"

record pool_cfg =
  pc_url :: string
  pc_static_key :: bytes
  pc_uid :: string
  pc_size :: nat
  pc_max_plaintext :: nat

text \<open>
  The stream counters are shared by the control writer and by the writers of all session streams. A UDP route holds
  whether its receiver is still there; \<open>cx_ctrl_open\<close> is the queue to the control writer.
\<close>

record client_conn =
  cx_cipher :: frame_cipher
  cx_ctrl_open :: bool
  cx_counters :: counter_gen
  cx_dgram_enc :: frame_encoder
  cx_next_sid :: u32
  cx_sessions :: nat
  cx_alive :: bool
  cx_pong_seen :: bool
  cx_missed_pings :: nat
  cx_udp :: "(u32, bool) dmap"
  cx_pending_udp :: "(u32, unit) dmap"
  cx_close :: bool
  cx_limit :: nat

text \<open>The random draw is between \<open>-band\<close> and \<open>band\<close>, a fifth of the period.\<close>

definition heartbeat_interval :: "int \<Rightarrow> nat" where
  "heartbeat_interval jitter = nat (int HEARTBEAT_SECS + jitter)"

section \<open>Handshake\<close>

datatype wt_error =
  BadServerUrl | NoUrlHost | SniCannotReplace | ResolveTimeout | WtTlsConfig
| WtConnectTimeout | WtConnectFailed | ControlStreamTimeout | ControlStreamFailed
| SendAuth frame_error | SendAuthIo | WtReplyTimeout | WtReply frame_error | WtShortReply | WtRejected

text \<open>What a bounded wait gives.\<close>

datatype awaited = Elapsed | Errored | Ready

text \<open>
  \<open>parse\<close> gives the host and the port of a URL, \<open>lookup\<close> the addresses of a host, or nothing on an error or a timeout.
\<close>

definition url_host_and_port ::
  "(string \<Rightarrow> (string option \<times> u16 option) option) \<Rightarrow> resolver \<Rightarrow> string \<Rightarrow> wt_error + socket_addr \<times> u16" where
  "url_host_and_port parse lookup url =
     (case parse url of
        None \<Rightarrow> Inl BadServerUrl
      | Some (None, _) \<Rightarrow> Inl NoUrlHost
      | Some (Some host, port_opt) \<Rightarrow>
          let port = (case port_opt of Some p \<Rightarrow> p | None \<Rightarrow> 443) in
          (case lookup host port of
             Some (a # _) \<Rightarrow> Inr (a, port)
           | _ \<Rightarrow> Inl ResolveTimeout))"

text \<open>
  The pool's configuration and the address its resolver is fixed to. \<open>set_host\<close> replaces the host of a URL and drops
  its port; \<open>tls\<close> is the construction of the QUIC endpoint.
\<close>

definition new_pool ::
  "crypto_lib \<Rightarrow> (string \<Rightarrow> (string option \<times> u16 option) option) \<Rightarrow> resolver \<Rightarrow> (string \<Rightarrow> string \<Rightarrow> wt_error + string) \<Rightarrow>
   (bool \<Rightarrow> bytes option \<Rightarrow> wt_error + unit) \<Rightarrow> client_cfg \<Rightarrow> string \<Rightarrow> wt_error + pool_cfg \<times> socket_addr option" where
  "new_pool L parse lookup set_host tls cfg url =
     and_then
       (case cc_sni cfg of
          Some sni \<Rightarrow>
            and_then (url_host_and_port parse lookup url) (\<lambda>(real_addr, _).
            and_then (set_host url sni) (\<lambda>u. Inr (u, Some real_addr)))
        | None \<Rightarrow> Inr (url, None))
       (\<lambda>(dial_url, resolver).
     and_then (tls (cc_skip_verify cfg) (cc_pin cfg)) (\<lambda>_.
       Inr (\<lparr>pc_url = dial_url, pc_static_key = derive_static_key L (cc_password cfg) (cc_uid cfg), pc_uid = cc_uid cfg,
             pc_size = cc_conns cfg, pc_max_plaintext = cc_max_plaintext cfg\<rparr>, resolver)))"

text \<open>The AUTH frame, sealed with the static key; the counter goes on counting for the session.\<close>

definition wt_auth_frame :: "crypto_lib \<Rightarrow> pool_cfg \<Rightarrow> auth_random \<Rightarrow> (frame_error + bytes) \<times> frame_encoder" where
  "wt_auth_frame L cfg R =
     encode L \<lparr>enc_cipher = frame_cipher_new (pc_static_key cfg), enc_counters = counter_stream, enc_limit = pc_max_plaintext cfg\<rparr>
       Auth 0 0 (auth_encode (client_auth L (pc_static_key cfg) (pc_uid cfg) (pc_max_plaintext cfg) R) @ ar_padding R)"

definition wt_session_cipher :: "crypto_lib \<Rightarrow> pool_cfg \<Rightarrow> auth_random \<Rightarrow> frame_cipher" where
  "wt_session_cipher L cfg R = frame_cipher_new (derive_session_key L (pc_static_key cfg) (ar_salt R))"

text \<open>The server's reply: the agreed limit, the reader, and what is still to be read.\<close>

definition wt_auth_reply ::
  "crypto_lib \<Rightarrow> pool_cfg \<Rightarrow> frame_cipher \<Rightarrow> bool \<Rightarrow> byte_reads \<Rightarrow> wt_error + nat \<times> frame_decoder \<times> byte_reads" where
  "wt_auth_reply L cfg cipher timed_out src =
     (if timed_out then Inl WtReplyTimeout
      else (case frame_read L (frame_decoder_new (Some cipher) None (pc_max_plaintext cfg)) src of
          (Inl e, _) \<Rightarrow> Inl (WtReply e)
        | (Inr None, _) \<Rightarrow> Inl WtRejected
        | (Inr (Some f), d, src') \<Rightarrow>
            if f_type f \<noteq> AuthOk then Inl WtRejected
            else if length (f_payload f) < 4 then Inl WtShortReply
            else
              let limit = negotiate (from_le_bytes (take 4 (f_payload f))) (of_nat (pc_max_plaintext cfg)) in
              Inr (limit, d\<lparr>dec_limit := limit\<rparr>, src')))"

definition wt_conn_new :: "frame_cipher \<Rightarrow> counter_gen \<Rightarrow> nat \<Rightarrow> u32 \<Rightarrow> client_conn" where
  "wt_conn_new cipher counters limit r =
     \<lparr>cx_cipher = cipher, cx_ctrl_open = True, cx_counters = counters,
      cx_dgram_enc = \<lparr>enc_cipher = cipher, enc_counters = counter_datagram, enc_limit = limit\<rparr>,
      cx_next_sid = rand_sid_base r, cx_sessions = 0, cx_alive = True, cx_pong_seen = False, cx_missed_pings = 0,
      cx_udp = [], cx_pending_udp = [], cx_close = False, cx_limit = limit\<rparr>"

text \<open>
  \<open>connect\<close> is the QUIC and HTTP/3 handshake for a URL and an authorization header, \<open>stream\<close> the opening of the
  control stream, \<open>written\<close> whether the AUTH frame could be written.
\<close>

record wt_net =
  wn_connect :: "string \<Rightarrow> string \<Rightarrow> awaited"
  wn_stream :: awaited
  wn_written :: bool
  wn_timed_out :: bool
  wn_reads :: byte_reads

definition wt_connect ::
  "crypto_lib \<Rightarrow> pool_cfg \<Rightarrow> bearer_random \<Rightarrow> auth_random \<Rightarrow> u32 \<Rightarrow> wt_net \<Rightarrow>
   wt_error + client_conn \<times> frame_decoder \<times> byte_reads" where
  "wt_connect L cfg B R r net =
     (case wn_connect net (pc_url cfg) (''Bearer '' @ make_bearer L (fst B) (snd B) (pc_static_key cfg) (pc_uid cfg)) of
        Elapsed \<Rightarrow> Inl WtConnectTimeout
      | Errored \<Rightarrow> Inl WtConnectFailed
      | Ready \<Rightarrow>
     (case wn_stream net of
        Elapsed \<Rightarrow> Inl ControlStreamTimeout
      | Errored \<Rightarrow> Inl ControlStreamFailed
      | Ready \<Rightarrow>
     (case wt_auth_frame L cfg R of
        (Inl e, _) \<Rightarrow> Inl (SendAuth e)
      | (Inr wire, e) \<Rightarrow>
          if \<not> wn_written net then Inl SendAuthIo
          else
            and_then (wt_auth_reply L cfg (wt_session_cipher L cfg R) (wn_timed_out net) (wn_reads net)) (\<lambda>(limit, d, src).
              Inr (wt_conn_new (wt_session_cipher L cfg R) (enc_counters e) limit r, d, src)))))"

section \<open>Streams of a connection\<close>

text \<open>Every writer on a stream seals with the shared counters.\<close>

definition conn_encode ::
  "crypto_lib \<Rightarrow> client_conn \<Rightarrow> frame_type \<Rightarrow> u16 \<Rightarrow> u32 \<Rightarrow> bytes \<Rightarrow> (frame_error + bytes) \<times> client_conn" where
  "conn_encode L c ft flags sid payload =
     (let (r, e) = encode L \<lparr>enc_cipher = cx_cipher c, enc_counters = cx_counters c, enc_limit = cx_limit c\<rparr> ft flags sid payload in
      (r, c\<lparr>cx_counters := enc_counters e\<rparr>))"

text \<open>The control writer ends at the first frame that cannot be encoded or written; \<open>n\<close> writes succeed.\<close>

fun control_writer :: "crypto_lib \<Rightarrow> nat \<Rightarrow> client_conn \<Rightarrow> out_frame list \<Rightarrow> bytes list \<times> client_conn" where
  "control_writer L n c [] = ([], c)"
| "control_writer L n c (f # fs) =
     (case conn_encode L c (of_type f) (of_flags f) (of_sid f) (of_payload f) of
        (Inl _, c') \<Rightarrow> ([], c')
      | (Inr wire, c') \<Rightarrow>
          (case n of
             0 \<Rightarrow> ([], c')
           | Suc k \<Rightarrow> let (ws, c'') = control_writer L k c' fs in (wire # ws, c'')))"

section \<open>Inbound frames\<close>

definition dispatch :: "client_conn \<Rightarrow> frame \<Rightarrow> client_conn \<times> mux_event list" where
  "dispatch c f =
     (let sid = f_sid f in
      case f_type f of
        UdpData \<Rightarrow>
          (case decode_with (reader_new (f_payload f)) False of
             Inr (src, r) \<Rightarrow>
               (c, case map_of (cx_udp c) sid of
                  Some there \<Rightarrow> if there then [DeliverUdp sid src (fst (reader_rest r))] else []
                | None \<Rightarrow> [])
           | Inl _ \<Rightarrow> (c, []))
      | UdpOk \<Rightarrow>
          if dm_contains (cx_pending_udp c) sid
          then (c\<lparr>cx_pending_udp := AList.delete sid (cx_pending_udp c)\<rparr>, [Reply sid (Inr ())])
          else (c, [])
      | OpenErr \<Rightarrow>
          if dm_contains (cx_pending_udp c) sid
          then (c\<lparr>cx_pending_udp := AList.delete sid (cx_pending_udp c)\<rparr>, [Reply sid (Inl (code_to_open_error (f_payload f)))])
          else (c, [])
      | Error \<Rightarrow>
          if dm_contains (cx_pending_udp c) sid
          then (c\<lparr>cx_pending_udp := AList.delete sid (cx_pending_udp c)\<rparr>, [Reply sid (Inl (code_to_open_error (f_payload f)))])
          else (c, [])
      | Pong \<Rightarrow> (c\<lparr>cx_pong_seen := True\<rparr>, [])
      | _ \<Rightarrow> (c, []))"

fun dispatch_all :: "client_conn \<Rightarrow> frame list \<Rightarrow> client_conn \<times> mux_event list" where
  "dispatch_all c [] = (c, [])"
| "dispatch_all c (f # fs) =
     (let (c1, ev) = dispatch c f; (c2, ev2) = dispatch_all c1 fs in (c2, ev @ ev2))"

definition expire :: "client_conn \<Rightarrow> client_conn" where
  "expire c = c\<lparr>cx_alive := False, cx_pending_udp := [], cx_udp := [], cx_close := True\<rparr>"

text \<open>The control reader over the frames the stream delivers until its end or an error.\<close>

definition control_reader :: "client_conn \<Rightarrow> frame list \<Rightarrow> client_conn \<times> mux_event list" where
  "control_reader c fs = (let (c', ev) = dispatch_all c fs in (expire c', ev))"

function datagram_frames :: "crypto_lib \<Rightarrow> frame_decoder \<Rightarrow> frame list \<times> frame_decoder" where
  "datagram_frames L d =
     (case next_frame L d of
        (Inr (Some f), d') \<Rightarrow> (let (fs, d'') = datagram_frames L d' in (f # fs, d''))
      | (Inr None, d') \<Rightarrow> ([], d')
      | (Inl _, d') \<Rightarrow> ([], decoder_clear d'))"
  by pat_completeness auto

termination datagram_frames
  by (relation "measure (\<lambda>(L, d). length (dec_buf d))") (auto dest: next_frame_shrinks [OF sym])

declare datagram_frames.simps [simp del]

text \<open>The datagram reader over the datagrams that arrive until the connection ends.\<close>

fun datagram_reader ::
  "crypto_lib \<Rightarrow> frame_decoder \<Rightarrow> client_conn \<Rightarrow> bytes list \<Rightarrow> client_conn \<times> mux_event list" where
  "datagram_reader L d c [] = (expire c, [])"
| "datagram_reader L d c (dg # dgs) =
     (let (fs, d') = datagram_frames L (feed d dg); (c1, ev) = dispatch_all c fs; (c2, ev2) = datagram_reader L d' c1 dgs
      in (c2, ev @ ev2))"

definition datagram_decoder :: "client_conn \<Rightarrow> frame_decoder" where
  "datagram_decoder c = frame_decoder_new (Some (cx_cipher c)) (Some replay_window_new) (cx_limit c)"

section \<open>Lifecycle\<close>

datatype death = QuicClosed | CloseCancelled

text \<open>The death watcher; the second result says whether it closes the QUIC connection.\<close>

fun death_watcher :: "client_conn \<Rightarrow> death \<Rightarrow> client_conn \<times> bool" where
  "death_watcher c QuicClosed = ((expire c)\<lparr>cx_close := True\<rparr>, False)"
| "death_watcher c CloseCancelled = ((expire c)\<lparr>cx_close := True\<rparr>, True)"

text \<open>One turn of the heartbeat after its period: whether the task goes on, and the frame it sends.\<close>

definition heartbeat_tick :: "client_conn \<Rightarrow> bool \<times> client_conn \<times> out_frame list" where
  "heartbeat_tick c =
     (let ping = (\<lambda>c'. if cx_ctrl_open c' then (True, c', [out_frame_new Ping 0 0 []]) else (False, c', [])) in
      if cx_pong_seen c then ping (c\<lparr>cx_pong_seen := False, cx_missed_pings := 0\<rparr>)
      else
        let missed = cx_missed_pings c + 1; c1 = c\<lparr>cx_pong_seen := False, cx_missed_pings := missed\<rparr> in
        if missed \<ge> PONG_MISS_LIMIT then (False, expire c1, []) else ping c1)"

section \<open>TCP sessions\<close>

partial_function (option) wt_alloc_sid :: "client_conn \<Rightarrow> (u32 \<times> client_conn) option" where
  "wt_alloc_sid c =
     (let v = cx_next_sid c; c' = c\<lparr>cx_next_sid := v + 1\<rparr> in
      if v \<noteq> 0 \<and> \<not> dm_contains (cx_udp c') v then Some (v, c') else wt_alloc_sid c')"

text \<open>The two atomic operations on the session counter.\<close>

definition sessions_add :: "client_conn \<Rightarrow> nat \<times> client_conn" where
  "sessions_add c = (cx_sessions c, c\<lparr>cx_sessions := cx_sessions c + 1\<rparr>)"

definition sessions_sub :: "client_conn \<Rightarrow> client_conn" where
  "sessions_sub c = c\<lparr>cx_sessions := cx_sessions c - 1\<rparr>"

text \<open>The answer to an OPEN frame.\<close>

definition open_reply_result :: "u32 \<Rightarrow> (frame_error + frame option) \<Rightarrow> client_error + unit" where
  "open_reply_result sid r =
     (case r of
        Inl _ \<Rightarrow> Inl Plain_Error
      | Inr None \<Rightarrow> Inl Plain_Error
      | Inr (Some f) \<Rightarrow>
          if f_sid f = sid \<and> f_type f = OpenOk then Inr ()
          else if f_type f = OpenErr then Inl (Target_Error (code_to_open_error (f_payload f)))
          else Inl Plain_Error)"

text \<open>The opening of a stream for a session, and the exchange on it: \<open>pad\<close> is the random tail.\<close>

record stream_net =
  sn_open :: awaited
  sn_written :: bool
  sn_timed_out :: bool
  sn_reads :: byte_reads

definition open_exchange ::
  "crypto_lib \<Rightarrow> client_conn \<Rightarrow> u32 \<Rightarrow> string \<Rightarrow> u16 \<Rightarrow> bytes \<Rightarrow> stream_net \<Rightarrow>
   (client_error + u32 \<times> frame_decoder \<times> byte_reads) \<times> client_conn" where
  "open_exchange L c1 sid host port pad net =
     (if sn_open net \<noteq> Ready then (Inl Plain_Error, c1)
      else (case conn_encode L c1 Open 0 sid (encode_open host port @ pad) of
          (Inl _, c2) \<Rightarrow> (Inl Plain_Error, c2)
        | (Inr wire, c2) \<Rightarrow>
            if \<not> sn_written net \<or> sn_timed_out net then (Inl Plain_Error, c2)
            else
              let (r, d, src) = frame_read L (frame_decoder_new (Some (cx_cipher c2)) None (cx_limit c2)) (sn_reads net) in
              (and_then (open_reply_result sid r) (\<lambda>_. Inr (sid, d, src)), c2)))"

definition do_open_tcp ::
  "crypto_lib \<Rightarrow> client_conn \<Rightarrow> string \<Rightarrow> u16 \<Rightarrow> bytes \<Rightarrow> stream_net \<Rightarrow>
   ((client_error + u32 \<times> frame_decoder \<times> byte_reads) \<times> client_conn) option" where
  "do_open_tcp L c host port pad net = map_option (\<lambda>(sid, c1). open_exchange L c1 sid host port pad net) (wt_alloc_sid c)"

text \<open>The whole operation when no other task changes the counter in between.\<close>

definition conn_open_tcp ::
  "crypto_lib \<Rightarrow> client_conn \<Rightarrow> string \<Rightarrow> u16 \<Rightarrow> bytes \<Rightarrow> stream_net \<Rightarrow>
   ((client_error + u32 \<times> frame_decoder \<times> byte_reads) \<times> client_conn) option" where
  "conn_open_tcp L c host port pad net =
     (if \<not> cx_alive c then Some (Inl Plain_Error, c)
      else
        let (old, c1) = sessions_add c in
        if old \<ge> MAX_PER_CONN_client then Some (Inl (Target_Error Limit), sessions_sub c1)
        else map_option (\<lambda>(r, c2). (r, case r of Inr _ \<Rightarrow> c2 | Inl _ \<Rightarrow> sessions_sub c2)) (do_open_tcp L c1 host port pad net))"

text \<open>
  The same operation as the sequence of its atomic actions, for tasks that interleave: the load of \<open>alive\<close>, the increment of the counter with the test of the value before it,
  its undoing at capacity, the allocation of the identifier, the exchange, and the decrement when it fails or when the session's reader task ends.
\<close>

datatype open_pc = Called | Alive | Full | Claimed | Allocated u32 | Failed | Established

fun open_advance ::
  "crypto_lib \<Rightarrow> string \<Rightarrow> u16 \<Rightarrow> bytes \<Rightarrow> stream_net \<Rightarrow> client_conn \<Rightarrow> open_pc \<Rightarrow> (open_pc option \<times> client_conn) option" where
  "open_advance L host port pad net c Called = Some (if cx_alive c then Some Alive else None, c)"
| "open_advance L host port pad net c Alive =
     (let (old, c1) = sessions_add c in Some (Some (if old \<ge> MAX_PER_CONN_client then Full else Claimed), c1))"
| "open_advance L host port pad net c Full = Some (None, sessions_sub c)"
| "open_advance L host port pad net c Claimed = map_option (\<lambda>(sid, c1). (Some (Allocated sid), c1)) (wt_alloc_sid c)"
| "open_advance L host port pad net c (Allocated sid) =
     (let (r, c1) = open_exchange L c sid host port pad net in Some (Some (case r of Inr _ \<Rightarrow> Established | Inl _ \<Rightarrow> Failed), c1))"
| "open_advance L host port pad net c Failed = Some (None, sessions_sub c)"
| "open_advance L host port pad net c Established = Some (None, sessions_sub c)"

text \<open>
  From the user to the stream: the reads of at most \<open>MAX_PLAINTEXT\<close> bytes up to an empty one, of which \<open>n\<close> can be written,
  then the half-close.
\<close>

fun wt_user_to_frames :: "crypto_lib \<Rightarrow> client_conn \<Rightarrow> u32 \<Rightarrow> nat \<Rightarrow> bytes list \<Rightarrow> bytes list \<times> client_conn" where
  "wt_user_to_frames L c sid n [] =
     (case conn_encode L c Close FLAG_FIN sid [] of
        (Inl _, c') \<Rightarrow> ([], c')
      | (Inr wire, c') \<Rightarrow> (if n = 0 then [] else [wire], c'))"
| "wt_user_to_frames L c sid n (chunk # chunks) =
     (if chunk = [] then wt_user_to_frames L c sid n []
      else (case conn_encode L c Data 0 sid chunk of
          (Inl _, c') \<Rightarrow> wt_user_to_frames L c' sid n []
        | (Inr wire, c') \<Rightarrow>
            (case n of
               0 \<Rightarrow> wt_user_to_frames L c' sid 0 []
             | Suc k \<Rightarrow> let (ws, c'') = wt_user_to_frames L c' sid k chunks in (wire # ws, c''))))"

text \<open>From the frames of the stream to the user, whose first \<open>n\<close> writes succeed; the session then ends.\<close>

fun wt_frames_to_user :: "nat \<Rightarrow> frame list \<Rightarrow> stream_op list" where
  "wt_frames_to_user n [] = [Shutdown]"
| "wt_frames_to_user n (f # fs) =
     (if f_type f = Data then
        (case n of
           0 \<Rightarrow> [Shutdown]
         | Suc k \<Rightarrow> Write (f_payload f) # (if f_flags f AND FLAG_FIN \<noteq> 0 then [Shutdown] else wt_frames_to_user k fs))
      else if f_type f = Close then [Shutdown]
      else wt_frames_to_user n fs)"

section \<open>UDP sessions\<close>

definition wt_udp_begin :: "client_conn \<Rightarrow> ((client_error + u32) \<times> client_conn \<times> out_frame list) option" where
  "wt_udp_begin c =
     (if \<not> cx_alive c then Some (Inl Plain_Error, c, [])
      else map_option (\<lambda>(sid, c1).
        let c2 = c1\<lparr>cx_pending_udp := AList.update sid () (cx_pending_udp c1)\<rparr> in
        if cx_ctrl_open c2 then (Inr sid, c2, [out_frame_new UdpAssociate 0 sid []])
        else (Inl Plain_Error, c2\<lparr>cx_pending_udp := AList.delete sid (cx_pending_udp c2)\<rparr>, [])) (wt_alloc_sid c))"

fun wt_udp_finish :: "client_conn \<Rightarrow> u32 \<Rightarrow> (open_error + unit) option \<Rightarrow> (client_error + unit) \<times> client_conn" where
  "wt_udp_finish c sid None = (Inl Plain_Error, c\<lparr>cx_pending_udp := AList.delete sid (cx_pending_udp c)\<rparr>)"
| "wt_udp_finish c sid (Some (Inl e)) = (Inl (Target_Error e), c)"
| "wt_udp_finish c sid (Some (Inr u)) = (Inr (), c\<lparr>cx_udp := AList.update sid True (cx_udp c)\<rparr>)"

datatype udp_out = SentDatagram bytes | SentControl out_frame | Dropped | ControlClosed

text \<open>One datagram of the user; \<open>max_dg\<close> and \<open>send_dg\<close> are what QUIC reports and accepts at that moment.\<close>

definition wt_udp_send ::
  "crypto_lib \<Rightarrow> client_conn \<Rightarrow> u32 \<Rightarrow> nat option \<Rightarrow> (bytes \<Rightarrow> bool) \<Rightarrow> udp_addr \<times> bytes \<Rightarrow> udp_out \<times> client_conn" where
  "wt_udp_send L c sid max_dg send_dg d =
     (let payload = encode_with (fst d) [] False @ snd d in
      case encode L (cx_dgram_enc c) UdpData 0 sid payload of
        (Inl _, e) \<Rightarrow> (Dropped, c\<lparr>cx_dgram_enc := e\<rparr>)
      | (Inr wire, e) \<Rightarrow>
          let c' = c\<lparr>cx_dgram_enc := e\<rparr>; mx = (case max_dg of Some n \<Rightarrow> n | None \<Rightarrow> 0) in
          if length wire \<le> mx \<and> send_dg wire then (SentDatagram wire, c')
          else if cx_ctrl_open c' then (SentControl (out_frame_new UdpData 0 sid payload), c')
          else (ControlClosed, c'))"

type_synonym dgram_env = "nat option \<times> (bytes \<Rightarrow> bool)"

fun wt_udp_pump ::
  "crypto_lib \<Rightarrow> client_conn \<Rightarrow> u32 \<Rightarrow> (dgram_env \<times> udp_addr \<times> bytes) list \<Rightarrow> udp_out list \<times> client_conn" where
  "wt_udp_pump L c sid [] = ([], c\<lparr>cx_udp := AList.delete sid (cx_udp c)\<rparr>)"
| "wt_udp_pump L c sid ((env, d) # ds) =
     (case wt_udp_send L c sid (fst env) (snd env) d of
        (ControlClosed, c') \<Rightarrow> ([ControlClosed], c'\<lparr>cx_udp := AList.delete sid (cx_udp c')\<rparr>)
      | (r, c') \<Rightarrow> let (rs, c'') = wt_udp_pump L c' sid ds in (r # rs, c''))"

section \<open>Abstract view\<close>

text \<open>
  The heartbeat task and the readers of a connection that nothing else closes: in every period the readers handle some frames,
  then the heartbeat takes its turn.
\<close>

fun heartbeat :: "client_conn \<Rightarrow> frame list list \<Rightarrow> client_conn \<times> out_frame list" where
  "heartbeat c [] = (c, [])"
| "heartbeat c (fs # periods) =
     (case heartbeat_tick (fst (dispatch_all c fs)) of
        (False, c2, out) \<Rightarrow> (c2, out)
      | (True, c2, out) \<Rightarrow> let (c3, out') = heartbeat c2 periods in (c3, out @ out'))"

definition answered :: "frame list \<Rightarrow> bool" where
  "answered fs \<longleftrightarrow> list_ex (\<lambda>f. f_type f = Pong) fs"

text \<open>Whether two periods in a row, of those before and from now on, are without an answer; \<open>m\<close> says whether the last one was.\<close>

fun two_missed :: "bool \<Rightarrow> bool list \<Rightarrow> bool" where
  "two_missed m [] = False"
| "two_missed m (a # as) = (if a then two_missed False as else m \<or> two_missed True as)"

text \<open>
  The tasks that share a connection, interleaved: the calls of \<open>open_tcp\<close> by their next actions, and what the other tasks do to the connection.
\<close>

type_synonym conn_tasks = "client_conn \<times> open_pc multiset"

inductive wt_conn_step :: "conn_tasks \<Rightarrow> conn_tasks \<Rightarrow> bool" where
  called: "wt_conn_step (c, P) (c, P + {#Called#})"
| advance: "pc \<in># P \<Longrightarrow> open_advance L host port pad net c pc = Some (nxt, c') \<Longrightarrow>
    wt_conn_step (c, P) (c', P - {#pc#} + (case nxt of None \<Rightarrow> {#} | Some pc' \<Rightarrow> {#pc'#}))"
| dispatched: "wt_conn_step (c, P) (fst (dispatch c f), P)"
| ticked: "wt_conn_step (c, P) (fst (snd (heartbeat_tick c)), P)"
| expired: "wt_conn_step (c, P) (expire c, P)"
| closed: "wt_conn_step (c, P) (c\<lparr>cx_alive := False, cx_close := True\<rparr>, P)"
| encoded: "wt_conn_step (c, P) (snd (conn_encode L c ft fl sid p), P)"
| associating: "wt_udp_begin c = Some (r, c', out) \<Longrightarrow> wt_conn_step (c, P) (c', P)"
| associated: "wt_conn_step (c, P) (snd (wt_udp_finish c sid reply), P)"
| sent: "wt_conn_step (c, P) (snd (wt_udp_send L c sid max_dg send_dg d), P)"
| unrouted: "wt_conn_step (c, P) (c\<lparr>cx_udp := AList.delete sid (cx_udp c)\<rparr>, P)"

fun has_session :: "open_pc \<Rightarrow> bool" where
  "has_session Claimed = True"
| "has_session (Allocated sid) = True"
| "has_session Failed = True"
| "has_session Established = True"
| "has_session pc = False"

definition conn_tasks_ok :: "conn_tasks \<Rightarrow> bool" where
  "conn_tasks_ok s \<longleftrightarrow>
     (case s of (c, P) \<Rightarrow>
        cx_sessions c = size (filter_mset has_session P) + size (filter_mset (\<lambda>pc. pc = Full) P) \<and>
        size (filter_mset has_session P) \<le> MAX_PER_CONN_client)"

text \<open>The same client as the fallback transport sees it.\<close>

definition as_outbound :: "pool_cfg \<Rightarrow> http_outbound" where
  "as_outbound cfg = \<lparr>ho_url = pc_url cfg, ho_ws = False, ho_static_key = pc_static_key cfg, ho_uid = pc_uid cfg,
     ho_max_plaintext = pc_max_plaintext cfg\<rparr>"

lemma as_outbound_simps [simp]:
  "ho_static_key (as_outbound cfg) = pc_static_key cfg" "ho_uid (as_outbound cfg) = pc_uid cfg"
  "ho_max_plaintext (as_outbound cfg) = pc_max_plaintext cfg"
  by (simp_all add: as_outbound_def)

section \<open>Lemmas: handshake\<close>

lemma wt_auth_wire:
  assumes "aead_total L" "hmac_ok L" "outbound_ok (as_outbound cfg) R" "wt_auth_frame L cfg R = (Inr wire, e)"
  obtains f where "wire_frame L (frame_cipher_new (pc_static_key cfg)) (pc_max_plaintext cfg) f wire" "f_type f = Auth"
    "f_payload f = auth_encode (client_auth L (pc_static_key cfg) (pc_uid cfg) (pc_max_plaintext cfg) R) @ ar_padding R"
proof -
  let ?e = "\<lparr>enc_cipher = frame_cipher_new (pc_static_key cfg), enc_counters = counter_stream, enc_limit = pc_max_plaintext cfg\<rparr>"
  let ?p = "auth_encode (client_auth L (pc_static_key cfg) (pc_uid cfg) (pc_max_plaintext cfg) R) @ ar_padding R"
  have lim: "length ?p \<le> enc_limit ?e" "enc_limit ?e \<le> MAX_PLAINTEXT_CAP"
    using client_auth_length [OF assms(2,3)] assms(3) by (simp_all add: outbound_ok_def)
  obtain f w e' where "encode L ?e Auth 0 0 ?p = (Inr w, e')" "wire_frame L (enc_cipher ?e) (enc_limit ?e) f w" "msg_of f = (Auth, 0, 0, ?p)"
    using encode_wire [OF assms(1) lim] by metis
  then show thesis using that assms(4) by (simp add: wt_auth_frame_def msg_of_def)
qed

lemma server_wt_accepts:
  assumes "aead_ok L" "aead_total L" "hmac_ok L" "outbound_ok (as_outbound cfg) R" "wt_auth_frame L cfg R = (Inr wire, e)"
    and "st_static_keys st = ks @ (pc_uid cfg, pc_static_key cfg) # ks'"
    and "\<forall>(u, k) \<in> set ks. \<forall>c. \<exists>e. open_ct L (frame_cipher_new k) c (take 12 wire) (drop HEADER_LEN wire) = Inl e"
    and "fst (check_and_remember_nonce (ae_unix A) st (pc_uid cfg) (ar_nonce R) (ar_ts R))"
    and "\<not> outside_window (ae_unix A) (ar_ts R) AUTH_WINDOW"
    and "concat chunks = wire" "[] \<notin> set chunks"
  obtains wc reply st' n f where "wt_handshake L A (st, g) ip True False (map Inr chunks) True = (Some (wc, reply), st', drop_ip_guard g ip)"
    "n = negotiate (of_nat (pc_max_plaintext cfg)) (of_nat (st_max_plaintext st))"
    "enc_cipher (wc_writer wc) = wt_session_cipher L cfg R" "enc_cipher (wc_dgram wc) = wt_session_cipher L cfg R"
    "dec_cipher (wc_reader wc) = Some (wt_session_cipher L cfg R)"
    "enc_limit (wc_writer wc) = n" "dec_limit (wc_reader wc) = n" "enc_limit (wc_dgram wc) = n"
    "wire_frame L (wt_session_cipher L cfg R) n f reply" "f_type f = AuthOk" "f_payload f = to_le_bytes (of_nat n :: u32)"
proof -
  let ?ap = "client_auth L (pc_static_key cfg) (pc_uid cfg) (pc_max_plaintext cfg) R" and ?c = "wt_session_cipher L cfg R"
  let ?n = "negotiate (of_nat (pc_max_plaintext cfg)) (of_nat (st_max_plaintext st))"
  from wt_auth_wire [OF assms(2-5)] obtain f where
    "wire_frame L (frame_cipher_new (pc_static_key cfg)) (pc_max_plaintext cfg) f wire" "f_type f = Auth"
    "f_payload f = auth_encode ?ap @ ar_padding R" .
  then obtain st1 d src where r: "read_mode_a_auth L (ae_unix A) st raw_decoder False (map Inr chunks) =
      (AuthAccepted (pc_uid cfg) (pc_static_key cfg) ?ap, st1, d, src)" and mp: "st_max_plaintext st1 = st_max_plaintext st"
    using auth_frame_accepted [OF assms(1,3,4), of "pc_max_plaintext cfg" f wire st ks ks' "ae_unix A" chunks] assms(6-11) by auto
  have ap: "session_cipher L (pc_static_key cfg) ?ap = ?c" "ap_max_plaintext ?ap = of_nat (pc_max_plaintext cfg)"
    by (simp_all add: client_auth_def session_cipher_def wt_session_cipher_def)
  let ?e = "\<lparr>enc_cipher = ?c, enc_counters = counter_stream_server, enc_limit = ?n\<rparr>"
  have lim: "length (to_le_bytes (of_nat ?n :: u32)) \<le> enc_limit ?e" "enc_limit ?e \<le> MAX_PLAINTEXT_CAP"
    using negotiate_bounds [of "of_nat (pc_max_plaintext cfg)" "of_nat (st_max_plaintext st)"] by (auto simp: const_defs)
  obtain f' w e' where w: "encode L ?e AuthOk 0 0 (to_le_bytes (of_nat ?n :: u32)) = (Inr w, e')"
    "wire_frame L (enc_cipher ?e) (enc_limit ?e) f' w" "msg_of f' = (AuthOk, 0, 0, to_le_bytes (of_nat ?n :: u32))"
    using encode_wire [OF assms(2) lim] by metis
  have e': "enc_cipher e' = ?c" "enc_limit e' = ?n"
    using w(1) by (auto simp: encode_def encode_into_def Let_def split: if_splits sum.splits prod.splits)
  obtain cid st2 where nc: "new_conn A st1 (pc_uid cfg) ?c ?n = (cid, st2)" by fastforce
  have h: "wt_handshake L A (st, g) ip True False (map Inr chunks) True =
      (Some (\<lparr>wc_conn = cid, wc_reader = (set_cipher d ?c)\<lparr>dec_limit := ?n\<rparr>, wc_writer = e',
        wc_dgram = \<lparr>enc_cipher = ?c, enc_counters = counter_datagram_server, enc_limit = ?n\<rparr>\<rparr>, w), st2, drop_ip_guard g ip)"
    using r ap mp w(1) nc by (simp add: wt_handshake_def Let_def)
  show thesis using that [OF h refl] e' w(2,3) by (simp add: set_cipher_def msg_of_def)
qed

lemma wt_connect_reply:
  assumes "aead_ok L" "wire_frame L (wt_session_cipher L cfg R) limit f w" "f_type f = AuthOk" "f_payload f = to_le_bytes (n :: u32)"
    and "concat chunks = w @ rest" "[] \<notin> set chunks" "4 \<le> pc_max_plaintext cfg" "pc_max_plaintext cfg \<le> MAX_PLAINTEXT_CAP"
    and "wt_auth_frame L cfg R = (Inr wire, e)"
    and "wn_connect net = (\<lambda>_ _. Ready)" "wn_stream net = Ready" "wn_written net" "\<not> wn_timed_out net" "wn_reads net = map Inr chunks"
  obtains d src where "wt_connect L cfg B R r net =
      Inr (wt_conn_new (wt_session_cipher L cfg R) (enc_counters e) (negotiate n (of_nat (pc_max_plaintext cfg))) r, d, src)"
    "dec_cipher d = Some (wt_session_cipher L cfg R)" "dec_limit d = negotiate n (of_nat (pc_max_plaintext cfg))"
proof -
  have "length (f_payload f) \<le> pc_max_plaintext cfg" using assms(4,7) by simp
  from reply_read [OF assms(1,2) this assms(8,5,6)]
  obtain d' cs where "frame_read L (frame_decoder_new (Some (wt_session_cipher L cfg R)) None (pc_max_plaintext cfg)) (map Inr chunks) =
      (Inr (Some f), d', map Inr cs)" "dec_cipher d' = Some (wt_session_cipher L cfg R)" .
  then show thesis
    using assms(3,4,9-14) that by (auto simp: wt_connect_def wt_auth_reply_def Let_def)
qed

section \<open>Lemmas: heartbeat\<close>

lemma dispatch_keeps:
  "cx_missed_pings (fst (dispatch c f)) = cx_missed_pings c" "cx_alive (fst (dispatch c f)) = cx_alive c"
  "cx_ctrl_open (fst (dispatch c f)) = cx_ctrl_open c" "cx_sessions (fst (dispatch c f)) = cx_sessions c"
  "cx_close (fst (dispatch c f)) = cx_close c"
  "cx_pong_seen (fst (dispatch c f)) \<longleftrightarrow> cx_pong_seen c \<or> f_type f = Pong"
  by (auto simp: dispatch_def Let_def split: frame_type.splits sum.splits)

lemma dispatch_all_keeps:
  "cx_missed_pings (fst (dispatch_all c fs)) = cx_missed_pings c" "cx_alive (fst (dispatch_all c fs)) = cx_alive c"
  "cx_ctrl_open (fst (dispatch_all c fs)) = cx_ctrl_open c"
  "cx_pong_seen (fst (dispatch_all c fs)) \<longleftrightarrow> cx_pong_seen c \<or> answered fs"
  by (induction fs arbitrary: c) (simp_all add: answered_def dispatch_keeps case_prod_beta Let_def disj_assoc)

lemma heartbeat_tick_answered:
  "cx_pong_seen c \<Longrightarrow> cx_ctrl_open c \<Longrightarrow>
   heartbeat_tick c = (True, c\<lparr>cx_pong_seen := False, cx_missed_pings := 0\<rparr>, [out_frame_new Ping 0 0 []])"
  by (simp add: heartbeat_tick_def)

lemma heartbeat_tick_missed:
  assumes "\<not> cx_pong_seen c" "cx_ctrl_open c" "cx_missed_pings c = (if m then 1 else 0)"
  shows "heartbeat_tick c =
    (if m then (False, expire (c\<lparr>cx_pong_seen := False, cx_missed_pings := 2\<rparr>), [])
     else (True, c\<lparr>cx_pong_seen := False, cx_missed_pings := 1\<rparr>, [out_frame_new Ping 0 0 []]))"
  using assms by (simp add: heartbeat_tick_def const_defs Let_def numeral_2_eq_2)

lemma heartbeat_runs:
  assumes "cx_alive c" "cx_ctrl_open c" "\<not> cx_pong_seen c" "cx_missed_pings c = (if m then 1 else 0)"
  shows "(cx_alive (fst (heartbeat c periods)) \<longleftrightarrow> \<not> two_missed m (map answered periods)) \<and>
    (two_missed m (map answered periods) \<or> snd (heartbeat c periods) = replicate (length periods) (out_frame_new Ping 0 0 []))"
  using assms
proof (induction periods arbitrary: c m)
  case (Cons fs periods)
  let ?c = "fst (dispatch_all c fs)"
  have c: "cx_alive ?c" "cx_ctrl_open ?c" "cx_missed_pings ?c = (if m then 1 else 0)" "cx_pong_seen ?c \<longleftrightarrow> answered fs"
    using Cons.prems by (simp_all add: dispatch_all_keeps)
  show ?case
  proof (cases "answered fs")
    case True
    with c Cons.IH [of "?c\<lparr>cx_pong_seen := False, cx_missed_pings := 0\<rparr>" False] show ?thesis
      by (simp add: heartbeat_tick_answered case_prod_beta Let_def)
  next
    case False
    with c heartbeat_tick_missed [of ?c m] Cons.IH [of "?c\<lparr>cx_pong_seen := False, cx_missed_pings := 1\<rparr>" True] show ?thesis
      by (cases m) (simp_all add: expire_def case_prod_beta Let_def)
  qed
qed simp

lemma two_missed_iff: "two_missed m as \<longleftrightarrow> sublist [False, False] ((if m then [False] else []) @ as)"
  by (induction m as rule: two_missed.induct) (auto simp: sublist_Cons_right)

section \<open>Lemmas: sessions\<close>

lemma alloc_keeps_sessions: "wt_alloc_sid c = Some r \<Longrightarrow> cx_sessions (snd r) = cx_sessions c"
  by (erule wt_alloc_sid.raw_induct [rotated]) (fastforce simp: Let_def split: if_splits)

lemma udp_finish_sessions: "cx_sessions (snd (wt_udp_finish c sid reply)) = cx_sessions c"
  by (cases "(c, sid, reply)" rule: wt_udp_finish.cases) auto

lemma udp_begin_sessions: "wt_udp_begin c = Some (r, c', out) \<Longrightarrow> cx_sessions c' = cx_sessions c"
  by (auto simp: wt_udp_begin_def Let_def split: if_splits dest!: alloc_keeps_sessions)

lemma udp_send_sessions: "cx_sessions (snd (wt_udp_send L c sid max_dg send_dg d)) = cx_sessions c"
  by (auto simp: wt_udp_send_def Let_def split: prod.split sum.split)

lemma encode_sessions: "cx_sessions (snd (conn_encode L c ft fl sid p)) = cx_sessions c"
  by (simp add: conn_encode_def split_def Let_def)

lemma tick_sessions: "cx_sessions (fst (snd (heartbeat_tick c))) = cx_sessions c"
  by (simp add: heartbeat_tick_def expire_def Let_def)

lemma exchange_sessions: "cx_sessions (snd (open_exchange L c sid host port pad net)) = cx_sessions c"
  using encode_sessions [of L c Open 0 sid "encode_open host port @ pad"]
  by (auto simp: open_exchange_def split_def Let_def split: sum.split)

lemmas keeps_sessions = udp_finish_sessions udp_begin_sessions udp_send_sessions encode_sessions tick_sessions exchange_sessions dispatch_keeps(4)

lemma size_filter_next:
  assumes "pc \<in># P"
  shows "size (filter_mset Q (P - {#pc#} + (case nxt of None \<Rightarrow> {#} | Some pc' \<Rightarrow> {#pc'#}))) + (if Q pc then 1 else 0) =
    size (filter_mset Q P) + (case nxt of None \<Rightarrow> 0 | Some pc' \<Rightarrow> if Q pc' then 1 else 0)"
  using size_filter_remove [OF assms, of Q] size_filter_pos [OF assms, of Q] by (auto split: option.split)

text \<open>What one action changes of the counter is what it changes of the tasks that hold an increment.\<close>

lemma open_advance_counts:
  assumes "open_advance L host port pad net c pc = Some (nxt, c')"
  shows "pc = Alive \<Longrightarrow> cx_sessions c' = cx_sessions c + 1 \<and> nxt = Some (if cx_sessions c < MAX_PER_CONN_client then Claimed else Full)"
    "pc = Called \<Longrightarrow> cx_sessions c' = cx_sessions c \<and> (nxt = None \<or> nxt = Some Alive)"
    "pc = Full \<or> pc = Failed \<or> pc = Established \<Longrightarrow> cx_sessions c' = cx_sessions c - 1 \<and> nxt = None"
    "pc = Claimed \<or> pc = Allocated sid \<Longrightarrow> cx_sessions c' = cx_sessions c \<and> (\<exists>pc'. nxt = Some pc' \<and> has_session pc' \<and> pc' \<noteq> Full)"
proof -
  show "pc = Alive \<Longrightarrow> cx_sessions c' = cx_sessions c + 1 \<and> nxt = Some (if cx_sessions c < MAX_PER_CONN_client then Claimed else Full)"
    using assms by (auto simp: sessions_add_def)
  show "pc = Called \<Longrightarrow> cx_sessions c' = cx_sessions c \<and> (nxt = None \<or> nxt = Some Alive)"
    using assms by auto
  show "pc = Full \<or> pc = Failed \<or> pc = Established \<Longrightarrow> cx_sessions c' = cx_sessions c - 1 \<and> nxt = None"
    using assms by (auto simp: sessions_sub_def)
  have "pc = Claimed \<Longrightarrow> cx_sessions c' = cx_sessions c \<and> (\<exists>pc'. nxt = Some pc' \<and> has_session pc' \<and> pc' \<noteq> Full)"
    using assms alloc_keeps_sessions [of c] by auto
  moreover have "pc = Allocated sid \<Longrightarrow> cx_sessions c' = cx_sessions c \<and> (\<exists>pc'. nxt = Some pc' \<and> has_session pc' \<and> pc' \<noteq> Full)"
    using assms exchange_sessions [of L c sid host port pad net] by (auto simp: split_def Let_def split: sum.splits)
  ultimately show "pc = Claimed \<or> pc = Allocated sid \<Longrightarrow> cx_sessions c' = cx_sessions c \<and> (\<exists>pc'. nxt = Some pc' \<and> has_session pc' \<and> pc' \<noteq> Full)"
    by blast
qed

lemma advance_tasks_ok:
  assumes "conn_tasks_ok (c, P)" "pc \<in># P" "open_advance L host port pad net c pc = Some (nxt, c')"
  shows "conn_tasks_ok (c', P - {#pc#} + (case nxt of None \<Rightarrow> {#} | Some pc' \<Rightarrow> {#pc'#}))" (is "conn_tasks_ok (c', ?Q)")
proof -
  define h f h' f' where "h = size (filter_mset has_session P)" and "f = size (filter_mset (\<lambda>pc. pc = Full) P)"
    and "h' = size (filter_mset has_session ?Q)" and "f' = size (filter_mset (\<lambda>pc. pc = Full) ?Q)"
  note counts = open_advance_counts [OF assms(3)]
  have nx: "h' + (if has_session pc then 1 else 0) = h + (case nxt of None \<Rightarrow> 0 | Some pc' \<Rightarrow> if has_session pc' then 1 else 0)"
    "f' + (if pc = Full then 1 else 0) = f + (case nxt of None \<Rightarrow> 0 | Some pc' \<Rightarrow> if pc' = Full then 1 else 0)"
    unfolding h_def f_def h'_def f'_def using size_filter_next [OF assms(2)] by blast+
  have inv: "cx_sessions c = h + f" "h \<le> MAX_PER_CONN_client" using assms(1) by (simp_all add: conn_tasks_ok_def h_def f_def)
  have "cx_sessions c' = h' + f' \<and> h' \<le> MAX_PER_CONN_client"
  proof (cases pc)
    case Alive
    then show ?thesis using counts(1) nx inv by (cases "cx_sessions c < MAX_PER_CONN_client") simp_all
  next
    case Called
    then show ?thesis using counts(2) nx inv by auto
  next
    case Claimed
    then obtain pc' where "nxt = Some pc'" "has_session pc'" "pc' \<noteq> Full" "cx_sessions c' = cx_sessions c" using counts(4) by blast
    with Claimed nx inv show ?thesis by simp
  next
    case (Allocated sid)
    then obtain pc' where "nxt = Some pc'" "has_session pc'" "pc' \<noteq> Full" "cx_sessions c' = cx_sessions c" using counts(4) [of sid] by blast
    with Allocated nx inv show ?thesis by simp
  qed (use counts(3) nx inv in simp_all)
  then show ?thesis by (simp add: conn_tasks_ok_def h'_def f'_def)
qed

lemma same_sessions_ok: "conn_tasks_ok (c, P) \<Longrightarrow> cx_sessions c' = cx_sessions c \<Longrightarrow> conn_tasks_ok (c', P)"
  by (simp add: conn_tasks_ok_def)

lemma wt_conn_step_ok:
  assumes "conn_tasks_ok s" "wt_conn_step s t"
  shows "conn_tasks_ok t"
  using assms(2,1)
proof (induction rule: wt_conn_step.induct)
  case (called c P)
  then show ?case by (simp add: conn_tasks_ok_def)
next
  case (advance pc P L host port pad net c nxt c')
  then show ?case by (intro advance_tasks_ok)
next
  case (expired c P)
  then show ?case by (rule same_sessions_ok) (simp add: expire_def)
qed (erule same_sessions_ok; simp add: keeps_sessions)+

interpretation wt_tasks: invariant_system "\<lambda>s. cx_sessions (fst s) = 0 \<and> snd s = {#}" wt_conn_step conn_tasks_ok
proof
  fix s :: conn_tasks
  assume "cx_sessions (fst s) = 0 \<and> snd s = {#}"
  then show "conn_tasks_ok s" by (cases s) (simp add: conn_tasks_ok_def)
qed (rule wt_conn_step_ok)

text \<open>The whole operation is a run of its actions, whatever other tasks there are.\<close>

abbreviation wt_conn_steps :: "conn_tasks \<Rightarrow> conn_tasks \<Rightarrow> bool" where
  "wt_conn_steps \<equiv> wt_conn_step\<^sup>*\<^sup>*"

lemma advance_added:
  assumes "open_advance L host port pad net c pc = Some (nxt, c')"
  shows "wt_conn_step (c, P + {#pc#}) (c', P + (case nxt of None \<Rightarrow> {#} | Some pc' \<Rightarrow> {#pc'#}))"
  using wt_conn_step.advance [OF _ assms, of "P + {#pc#}"] by simp

lemma conn_open_tcp_run:
  assumes "conn_open_tcp L c host port pad net = Some (r, c')"
  shows "wt_conn_steps (c, P) (c', P + (case r of Inr _ \<Rightarrow> {#Established#} | Inl _ \<Rightarrow> {#}))"
proof -
  note adv = advance_added [of L host port pad net]
  have 1: "wt_conn_step (c, P) (c, P + {#Called#})" by (rule wt_conn_step.called)
  show ?thesis
  proof (cases "cx_alive c")
    case False
    then have "wt_conn_step (c, P + {#Called#}) (c, P)" using adv [of c Called None c P] by simp
    with 1 have "wt_conn_steps (c, P) (c, P)" by (meson converse_rtranclp_into_rtranclp rtranclp.rtrancl_refl)
    with False assms show ?thesis by (auto simp: conn_open_tcp_def)
  next
    case True
    obtain old c1 where c1: "sessions_add c = (old, c1)" by fastforce
    have 2: "wt_conn_step (c, P + {#Called#}) (c, P + {#Alive#})" using adv [of c Called "Some Alive" c P] True by simp
    show ?thesis
    proof (cases "old \<ge> MAX_PER_CONN_client")
      case full: True
      have "wt_conn_step (c, P + {#Alive#}) (c1, P + {#Full#})" using adv [of c Alive "Some Full" c1 P] full c1 by simp
      moreover have "wt_conn_step (c1, P + {#Full#}) (sessions_sub c1, P)" using adv [of c1 Full None "sessions_sub c1" P] by simp
      ultimately have "wt_conn_steps (c, P) (sessions_sub c1, P)"
        using 1 2 by (meson converse_rtranclp_into_rtranclp rtranclp.rtrancl_refl)
      then show ?thesis using True full c1 assms by (auto simp: conn_open_tcp_def)
    next
      case room: False
      have 3: "wt_conn_step (c, P + {#Alive#}) (c1, P + {#Claimed#})" using adv [of c Alive "Some Claimed" c1 P] room c1 by simp
      obtain sid c2 r2 c3 where a: "wt_alloc_sid c1 = Some (sid, c2)" "open_exchange L c2 sid host port pad net = (r2, c3)"
        and r: "r = r2" "c' = (case r2 of Inr _ \<Rightarrow> c3 | Inl _ \<Rightarrow> sessions_sub c3)"
        using assms True room c1 by (auto simp: conn_open_tcp_def do_open_tcp_def)
      have 4: "wt_conn_step (c1, P + {#Claimed#}) (c2, P + {#Allocated sid#})" using adv [of c1 Claimed "Some (Allocated sid)" c2 P] a by simp
      have 5: "wt_conn_step (c2, P + {#Allocated sid#}) (c3, P + {#case r2 of Inr _ \<Rightarrow> Established | Inl _ \<Rightarrow> Failed#})"
        using adv [of c2 "Allocated sid" _ c3 P] a(2) by (simp split: sum.split)
      have 6: "wt_conn_step (c3, P + {#Failed#}) (sessions_sub c3, P)" using adv [of c3 Failed None "sessions_sub c3" P] by simp
      have "wt_conn_steps (c, P) (c3, P + {#case r2 of Inr _ \<Rightarrow> Established | Inl _ \<Rightarrow> Failed#})"
        using 1 2 3 4 5 by (meson converse_rtranclp_into_rtranclp rtranclp.rtrancl_refl)
      then show ?thesis using 6 r by (cases r2) (auto intro: rtranclp.rtrancl_into_rtrancl)
    qed
  qed
qed

text \<open>The allocation of identifiers ends as long as one is left, with an identifier that no UDP session uses.\<close>

lemma wt_alloc_reaches:
  "v = cx_next_sid c + of_nat k \<Longrightarrow> v \<noteq> 0 \<Longrightarrow> v \<notin> fst ` set (cx_udp c) \<Longrightarrow>
   \<exists>sid n. wt_alloc_sid c = Some (sid, c\<lparr>cx_next_sid := n\<rparr>) \<and> sid \<noteq> 0 \<and> sid \<notin> fst ` set (cx_udp c)"
proof (induction k arbitrary: c)
  case 0
  then show ?case by (subst wt_alloc_sid.simps) (auto simp: Let_def)
next
  case (Suc k)
  let ?c = "c\<lparr>cx_next_sid := cx_next_sid c + 1\<rparr>"
  show ?case
  proof (cases "cx_next_sid c \<noteq> 0 \<and> cx_next_sid c \<notin> fst ` set (cx_udp c)")
    case True
    then show ?thesis by (subst wt_alloc_sid.simps) (auto simp: Let_def)
  next
    case False
    then have "wt_alloc_sid c = wt_alloc_sid ?c" by (subst wt_alloc_sid.simps) (auto simp: Let_def)
    moreover have "\<exists>sid n. wt_alloc_sid ?c = Some (sid, ?c\<lparr>cx_next_sid := n\<rparr>) \<and> sid \<noteq> 0 \<and> sid \<notin> fst ` set (cx_udp ?c)"
      using Suc by (intro Suc.IH) (simp_all add: add.assoc)
    ultimately show ?thesis by simp
  qed
qed

lemma wt_alloc_fresh:
  assumes "length (cx_udp c) < 2 ^ 32 - 1"
  obtains sid n where "wt_alloc_sid c = Some (sid, c\<lparr>cx_next_sid := n\<rparr>)" "sid \<noteq> 0" "sid \<notin> fst ` set (cx_udp c)"
proof -
  have "card (insert 0 (fst ` set (cx_udp c))) \<le> Suc (length (cx_udp c))"
    using card_image_le [of "set (cx_udp c)" fst] card_length [of "cx_udp c"] by (simp add: card_insert_if)
  also have "\<dots> < card (UNIV :: u32 set)" using assms by (simp add: card_word)
  finally obtain v where "v \<notin> insert 0 (fst ` set (cx_udp c))" by (metis UNIV_eq_I less_irrefl)
  then show thesis
    using wt_alloc_reaches [of v c "unat (v - cx_next_sid c)"] that by auto
qed

lemma conn_encode_too_long: "cx_limit c < length p \<Longrightarrow> fst (conn_encode L c ft fl sid p) = Inl PayloadTooLarge"
  by (simp add: conn_encode_def encode_def encode_into_def)

text \<open>A host that does not fit a frame makes opening fail like a broken transport does.\<close>

lemma long_host_plain_error:
  assumes "cx_alive c" "cx_sessions c < MAX_PER_CONN_client" "length (cx_udp c) < 2 ^ 32 - 1" "cx_limit c < length host"
  obtains c' where "conn_open_tcp L c host port pad net = Some (Inl Plain_Error, c')"
proof -
  let ?c = "c\<lparr>cx_sessions := cx_sessions c + 1\<rparr>"
  have "length (cx_udp ?c) < 2 ^ 32 - 1" using assms(3) by simp
  from wt_alloc_fresh [OF this] obtain sid n where a: "wt_alloc_sid ?c = Some (sid, ?c\<lparr>cx_next_sid := n\<rparr>)" by metis
  have "fst (conn_encode L (?c\<lparr>cx_next_sid := n\<rparr>) Open 0 sid (encode_open host port @ pad)) = Inl PayloadTooLarge"
    using assms(4) by (intro conn_encode_too_long) (simp add: encode_open_def as_bytes_def)
  then obtain c2 where "conn_encode L (?c\<lparr>cx_next_sid := n\<rparr>) Open 0 sid (encode_open host port @ pad) = (Inl PayloadTooLarge, c2)"
    by (metis prod.collapse)
  then obtain c3 where "do_open_tcp L ?c host port pad net = Some (Inl Plain_Error, c3)"
    using a by (cases "sn_open net = Ready") (simp_all add: do_open_tcp_def open_exchange_def)
  then show thesis using assms(1,2) that by (simp add: conn_open_tcp_def sessions_add_def)
qed

lemma wt_auth_frame_exists:
  assumes "aead_total L" "hmac_ok L" "outbound_ok (as_outbound cfg) R"
  shows "\<exists>wire e. wt_auth_frame L cfg R = (Inr wire, e)"
proof -
  let ?e = "\<lparr>enc_cipher = frame_cipher_new (pc_static_key cfg), enc_counters = counter_stream, enc_limit = pc_max_plaintext cfg\<rparr>"
  let ?p = "auth_encode (client_auth L (pc_static_key cfg) (pc_uid cfg) (pc_max_plaintext cfg) R) @ ar_padding R"
  have "length ?p \<le> enc_limit ?e" "enc_limit ?e \<le> MAX_PLAINTEXT_CAP"
    using client_auth_length [OF assms(2,3)] assms(3) by (auto simp: outbound_ok_def)
  from encode_wire [OF assms(1) this, of Auth 0 0] show ?thesis unfolding wt_auth_frame_def by metis
qed

lemma wt_handshake_completes:
  assumes "aead_ok L" "aead_total L" "hmac_ok L" "outbound_ok (as_outbound cfg) R" "wt_auth_frame L cfg R = (Inr wire, e)"
    and "st_static_keys st = ks @ (pc_uid cfg, pc_static_key cfg) # ks'"
    and "\<forall>(u, k) \<in> set ks. \<forall>c. \<exists>e. open_ct L (frame_cipher_new k) c (take 12 wire) (drop HEADER_LEN wire) = Inl e"
    and "fst (check_and_remember_nonce (ae_unix A) st (pc_uid cfg) (ar_nonce R) (ar_ts R))"
    and "unat (ae_unix A) \<le> unat (ar_ts R) + 60" "unat (ar_ts R) \<le> unat (ae_unix A) + 60"
    and "concat chunks = wire" "[] \<notin> set chunks"
  shows "\<exists>wc reply st'. wt_handshake L A (st, g) ip True False (map Inr chunks) True = (Some (wc, reply), st', drop_ip_guard g ip) \<and>
    (\<forall>net rs. wn_connect net = (\<lambda>_ _. Ready) \<and> wn_stream net = Ready \<and> wn_written net \<and> \<not> wn_timed_out net \<and>
       wn_reads net = map Inr rs \<and> concat rs = reply \<and> [] \<notin> set rs \<longrightarrow>
       (\<exists>c d src. wt_connect L cfg B R r net = Inr (c, d, src) \<and> cx_alive c \<and>
          dec_cipher d = Some (enc_cipher (wc_writer wc)) \<and> dec_cipher (wc_reader wc) = Some (cx_cipher c) \<and>
          enc_cipher (cx_dgram_enc c) = enc_cipher (wc_dgram wc) \<and>
          (\<forall>n \<in> {dec_limit d, enc_limit (wc_writer wc), dec_limit (wc_reader wc), enc_limit (cx_dgram_enc c), enc_limit (wc_dgram wc)}.
             n = cx_limit c)))"
proof -
  have "\<not> outside_window (ae_unix A) (ar_ts R) AUTH_WINDOW"
    using assms(9,10) by (simp add: outside_window_iff AUTH_WINDOW_def)
  from server_wt_accepts [OF assms(1-8) this assms(11,12), of g ip]
  obtain wc reply st' n f where h: "wt_handshake L A (st, g) ip True False (map Inr chunks) True = (Some (wc, reply), st', drop_ip_guard g ip)"
    and n: "n = negotiate (of_nat (pc_max_plaintext cfg)) (of_nat (st_max_plaintext st))"
    and wc: "enc_cipher (wc_writer wc) = wt_session_cipher L cfg R" "enc_cipher (wc_dgram wc) = wt_session_cipher L cfg R"
      "dec_cipher (wc_reader wc) = Some (wt_session_cipher L cfg R)" "enc_limit (wc_writer wc) = n" "dec_limit (wc_reader wc) = n" "enc_limit (wc_dgram wc) = n"
    and f: "wire_frame L (wt_session_cipher L cfg R) n f reply" "f_type f = AuthOk" "f_payload f = to_le_bytes (of_nat n :: u32)" .
  have cfg: "MAX_PLAINTEXT \<le> pc_max_plaintext cfg" "pc_max_plaintext cfg \<le> MAX_PLAINTEXT_CAP" "4 \<le> pc_max_plaintext cfg"
    using assms(4) by (auto simp: outbound_ok_def const_defs)
  have again: "negotiate (of_nat n) (of_nat (pc_max_plaintext cfg)) = n"
    using negotiate_again [OF cfg(1,2)] n by simp
  have "\<exists>c d src. wt_connect L cfg B R r net = Inr (c, d, src) \<and> cx_alive c \<and>
          dec_cipher d = Some (enc_cipher (wc_writer wc)) \<and> dec_cipher (wc_reader wc) = Some (cx_cipher c) \<and>
          enc_cipher (cx_dgram_enc c) = enc_cipher (wc_dgram wc) \<and>
          (\<forall>n \<in> {dec_limit d, enc_limit (wc_writer wc), dec_limit (wc_reader wc), enc_limit (cx_dgram_enc c), enc_limit (wc_dgram wc)}.
             n = cx_limit c)"
    if net: "wn_connect net = (\<lambda>_ _. Ready)" "wn_stream net = Ready" "wn_written net" "\<not> wn_timed_out net" "wn_reads net = map Inr rs"
      and rs: "concat rs = reply" "[] \<notin> set rs" for net rs
  proof -
    have "concat rs = reply @ []" using rs(1) by simp
    from wt_connect_reply [OF assms(1) f this rs(2) cfg(3,2) assms(5) net]
    obtain d src where "wt_connect L cfg B R r net = Inr (wt_conn_new (wt_session_cipher L cfg R) (enc_counters e) n r, d, src)"
      "dec_cipher d = Some (wt_session_cipher L cfg R)" "dec_limit d = n" unfolding again .
    then show ?thesis using wc by (simp add: wt_conn_new_def)
  qed
  with h show ?thesis by blast
qed

section \<open>Properties\<close>

text \<open>
  Client and server agree on a WebTransport connection. When the client's user is registered with the client's key and no user tried before it
  has a key that opens the frame, the clocks differ by at most a minute and the nonce is fresh, the server accepts the AUTH frame on the control stream, however it is cut.
  With the server's reply the client's connection is set up: on streams and for datagrams each side seals with the key the other opens with, and all use one frame limit.
\<close>

theorem wt_handshake_agrees:
  assumes "aead_ok L" "aead_total L" "hmac_ok L" "outbound_ok (as_outbound cfg) R" "wt_auth_frame L cfg R = (Inr wire, e)"
    and "st_static_keys st = ks @ (pc_uid cfg, pc_static_key cfg) # ks'"
    and "\<forall>(u, k) \<in> set ks. \<forall>c. \<exists>e. open_ct L (frame_cipher_new k) c (take 12 wire) (drop HEADER_LEN wire) = Inl e"
    and "fst (check_and_remember_nonce (ae_unix A) st (pc_uid cfg) (ar_nonce R) (ar_ts R))"
    and "unat (ae_unix A) \<le> unat (ar_ts R) + 60" "unat (ar_ts R) \<le> unat (ae_unix A) + 60"
    and "concat chunks = wire" "[] \<notin> set chunks"
  shows "\<exists>wc reply st'. wt_handshake L A (st, g) ip True False (map Inr chunks) True = (Some (wc, reply), st', drop_ip_guard g ip) \<and>
    (\<forall>net rs. wn_connect net = (\<lambda>_ _. Ready) \<and> wn_stream net = Ready \<and> wn_written net \<and> \<not> wn_timed_out net \<and>
       wn_reads net = map Inr rs \<and> concat rs = reply \<and> [] \<notin> set rs \<longrightarrow>
       (\<exists>c d src. wt_connect L cfg B R r net = Inr (c, d, src) \<and> cx_alive c \<and>
          dec_cipher d = Some (enc_cipher (wc_writer wc)) \<and> dec_cipher (wc_reader wc) = Some (cx_cipher c) \<and>
          enc_cipher (cx_dgram_enc c) = enc_cipher (wc_dgram wc) \<and>
          (\<forall>n \<in> {dec_limit d, enc_limit (wc_writer wc), dec_limit (wc_reader wc), enc_limit (cx_dgram_enc c), enc_limit (wc_dgram wc)}.
             n = cx_limit c)))"
  using wt_handshake_completes [OF assms] .

definition demo_pool_cfg :: pool_cfg where
  "demo_pool_cfg = \<lparr>pc_url = ''https://proxy.example/'', pc_static_key = [5], pc_uid = ''alice'', pc_size = 1, pc_max_plaintext = MAX_PLAINTEXT\<rparr>"

theorem wt_handshake_agrees_witness:
  "\<exists>wire e wc reply st'. wt_auth_frame demo_lib demo_pool_cfg demo_random = (Inr wire, e) \<and>
     wt_handshake demo_lib demo_accept (demo_auth_server, gate_new 8 2) (IpV4 1) True False [Inr wire] True =
       (Some (wc, reply), st', drop_ip_guard (gate_new 8 2) (IpV4 1))"
proof -
  have ok: "outbound_ok (as_outbound demo_pool_cfg) demo_random"
    using demo_outbound_ok by (simp add: outbound_ok_def as_outbound_def demo_pool_cfg_def demo_outbound_def)
  obtain wire e where w: "wt_auth_frame demo_lib demo_pool_cfg demo_random = (Inr wire, e)"
    using wt_auth_frame_exists [OF demo_lib_ok(2,3) ok] by blast
  obtain f where f: "wire_frame demo_lib (frame_cipher_new (pc_static_key demo_pool_cfg)) (pc_max_plaintext demo_pool_cfg) f wire"
    using wt_auth_wire [OF demo_lib_ok(2,3) ok w] by metis
  have ne: "[] \<notin> set [wire]" using wire_frame_length [OF demo_lib_ok(1) f] by (auto simp: const_defs)
  have k: "st_static_keys demo_auth_server = [] @ (pc_uid demo_pool_cfg, pc_static_key demo_pool_cfg) # [(''bob'', [6])]"
    by (simp add: demo_auth_server_def demo_pool_cfg_def)
  have t: "unat (ae_unix demo_accept) \<le> unat (ar_ts demo_random) + 60" "unat (ar_ts demo_random) \<le> unat (ae_unix demo_accept) + 60"
    by (simp_all add: demo_accept_def demo_random_def)
  have n: "fst (check_and_remember_nonce (ae_unix demo_accept) demo_auth_server (pc_uid demo_pool_cfg) (ar_nonce demo_random) (ar_ts demo_random))"
    using demo_auth_facts(5) by (simp add: demo_accept_def demo_pool_cfg_def demo_outbound_def demo_random_def)
  from wt_handshake_agrees [OF demo_lib_ok ok w k _ n t _ ne, of "gate_new 8 2" "IpV4 1" "(77, [])" 1] w show ?thesis by auto
qed

text \<open>
  C24. Liveness of connections. A connection whose control queue is open is declared dead by its heartbeat exactly when two
  periods in a row bring no answer, whatever other frames arrive; up to then every period sends one ping.
\<close>

theorem heartbeat_exact:
  assumes "cx_alive c" "cx_ctrl_open c" "\<not> cx_pong_seen c" "cx_missed_pings c = 0"
  shows "(if sublist [False, False] (map answered periods) then \<not> cx_alive (fst (heartbeat c periods))
          else cx_alive (fst (heartbeat c periods)) \<and> snd (heartbeat c periods) = replicate (length periods) (out_frame_new Ping 0 0 []))"
  using heartbeat_runs [of c False periods] assms two_missed_iff [of False "map answered periods"] by auto

theorem heartbeat_exact_witness:
  "\<not> cx_alive (fst (heartbeat (wt_conn_new \<lparr>aead_key = [1]\<rparr> counter_stream 16384 7) [[], []]))"
  using heartbeat_exact [of "wt_conn_new \<lparr>aead_key = [1]\<rparr> counter_stream 16384 7" "[[], []]"]
  by (simp add: wt_conn_new_def answered_def) 

text \<open>
  C23. However the tasks of a connection interleave, at most fifty of them hold or open a TCP session at a time; the session counter is the number of
  these and of the refused tasks that have still to undo their increment, so it never wraps below zero and is back at zero when all have ended. Opening a session, with all its
  outcomes, is a sequence of these interleaved actions that leaves a session behind exactly when it succeeds; at capacity it is refused and changes nothing.
\<close>

theorem wt_sessions_capped:
  assumes "wt_conn_step\<^sup>*\<^sup>* (wt_conn_new cipher counters limit r0, {#}) (c, P)"
  shows "size (filter_mset has_session P) \<le> MAX_PER_CONN_client \<and>
    cx_sessions c = size (filter_mset has_session P) + size (filter_mset (\<lambda>pc. pc = Full) P) \<and>
    (\<forall>r c'. conn_open_tcp L c host port pad net = Some (r, c') \<longrightarrow>
       wt_conn_step\<^sup>*\<^sup>* (c, P) (c', P + (case r of Inr _ \<Rightarrow> {#Established#} | Inl _ \<Rightarrow> {#}))) \<and>
    (cx_alive c \<and> MAX_PER_CONN_client \<le> cx_sessions c \<longrightarrow> conn_open_tcp L c host port pad net = Some (Inl (Target_Error Limit), c))"
proof -
  have init: "cx_sessions (fst (wt_conn_new cipher counters limit r0, {#})) = 0 \<and> snd (wt_conn_new cipher counters limit r0, {#}) = ({#} :: open_pc multiset)"
    by (simp add: wt_conn_new_def)
  from wt_tasks.reachable_inv [OF init assms] have "conn_tasks_ok (c, P)" .
  moreover have "cx_alive c \<and> MAX_PER_CONN_client \<le> cx_sessions c \<longrightarrow> conn_open_tcp L c host port pad net = Some (Inl (Target_Error Limit), c)"
    by (simp add: conn_open_tcp_def sessions_add_def sessions_sub_def)
  ultimately show ?thesis using conn_open_tcp_run by (auto simp: conn_tasks_ok_def)
qed

theorem wt_sessions_capped_witness:
  "\<exists>c. wt_conn_step\<^sup>*\<^sup>* (wt_conn_new \<lparr>aead_key = [1]\<rparr> counter_stream 16384 7, {#}) (c, {#Claimed#}) \<and> cx_sessions c = 1"
proof -
  let ?c = "wt_conn_new \<lparr>aead_key = [1]\<rparr> counter_stream 16384 7"
  have 1: "wt_conn_step (?c, {#}) (?c, {#Called#})" using wt_conn_step.called [of ?c "{#}"] by simp
  have 2: "wt_conn_step (?c, {#Called#}) (?c, {#Alive#})"
    using advance_added [of demo_lib "[]" 0 "[]" undefined ?c Called "Some Alive" ?c "{#}"] by (simp add: wt_conn_new_def)
  have 3: "wt_conn_step (?c, {#Alive#}) (snd (sessions_add ?c), {#Claimed#})"
    using advance_added [of demo_lib "[]" 0 "[]" undefined ?c Alive "Some Claimed" "snd (sessions_add ?c)" "{#}"]
    by (simp add: wt_conn_new_def sessions_add_def const_defs)
  have r: "wt_conn_step\<^sup>*\<^sup>* (?c, {#}) (snd (sessions_add ?c), {#Claimed#})" using 1 2 3 by (meson converse_rtranclp_into_rtranclp rtranclp.rtrancl_refl)
  from wt_sessions_capped [OF r] r show ?thesis by auto
qed

end
