(* ===== verification/Client_Pool.thy ===== *)
theory Client_Pool
  imports Client_Wt
begin

text \<open>
  The pool of WebTransport connections (\<open>WtPool\<close> of \<open>src/src/client/wt.rs\<close>): choosing a connection, opening sessions through
  it, and the maintenance task. Connections are shared, so the pool holds their numbers and a heap
  holds their states. Instants and durations are milliseconds; the results of dials are arguments.
\<close>

type_synonym conn_heap = "nat \<Rightarrow> client_conn"

definition BASE_BACKOFF :: nat where [const_defs]: "BASE_BACKOFF = 10000"
definition MAX_BACKOFF :: nat where [const_defs]: "MAX_BACKOFF = 300000"

section \<open>Choosing a connection\<close>

text \<open>\<open>Iterator::min_by_key\<close>: the first of the elements with the least key.\<close>

fun min_by_key :: "('a \<Rightarrow> nat) \<Rightarrow> 'a list \<Rightarrow> 'a option" where
  "min_by_key k [] = None"
| "min_by_key k (x # xs) =
     (case min_by_key k xs of
        None \<Rightarrow> Some x
      | Some y \<Rightarrow> if k x \<le> k y then Some x else Some y)"

definition pick :: "conn_heap \<Rightarrow> nat list \<Rightarrow> nat option" where
  "pick H conns =
     min_by_key (\<lambda>i. cx_sessions (H i)) (filter (\<lambda>i. cx_alive (H i) \<and> cx_sessions (H i) < MAX_PER_CONN_client) conns)"

text \<open>
  \<open>acquire\<close>: a pooled connection, or else a fresh one, whose number is \<open>new_id\<close>; the pool then drops the dead ones. The heap \<open>H'\<close> is
  the one after the dial.
\<close>

definition acquire ::
  "conn_heap \<Rightarrow> nat list \<Rightarrow> conn_heap \<Rightarrow> nat list \<Rightarrow> nat \<Rightarrow> 'e + client_conn \<Rightarrow> ('e + nat) \<times> conn_heap \<times> nat list" where
  "acquire H conns H' conns' new_id dialled =
     (case pick H conns of
        Some i \<Rightarrow> (Inr i, H, conns)
      | None \<Rightarrow>
          (case dialled of
             Inl e \<Rightarrow> (Inl e, H', conns')
           | Inr c \<Rightarrow>
               let H1 = H'(new_id := c) in
               (Inr new_id, H1, filter (\<lambda>i. cx_alive (H1 i)) conns' @ [new_id])))"

text \<open>
  What \<open>open_tcp\<close> and \<open>udp_associate\<close> of the pool do with the result on the connection: only a failure that is
  not a refusal of the target marks it dead.
\<close>

definition retire :: "client_conn \<Rightarrow> client_conn" where
  "retire c = c\<lparr>cx_alive := False, cx_close := True\<rparr>"

definition settle :: "conn_heap \<Rightarrow> nat \<Rightarrow> client_error + 's \<Rightarrow> conn_heap" where
  "settle H i r =
     (case r of
        Inr _ \<Rightarrow> H
      | Inl e \<Rightarrow> if target_error e = None then H(i := retire (H i)) else H)"

section \<open>Maintenance\<close>

fun find_idle :: "conn_heap \<Rightarrow> nat list \<Rightarrow> nat option" where
  "find_idle H [] = None"
| "find_idle H (i # is) = (if cx_sessions (H i) = 0 then Some 0 else map_option Suc (find_idle H is))"

function trim_pool :: "nat \<Rightarrow> conn_heap \<Rightarrow> nat list \<Rightarrow> conn_heap \<times> nat list" where
  "trim_pool want H conns =
     (if length conns \<le> want then (H, conns)
      else (case find_idle H conns of
          None \<Rightarrow> (H, conns)
        | Some idx \<Rightarrow>
            trim_pool want (H(conns ! idx := retire (H (conns ! idx)))) (take idx conns @ drop (idx + 1) conns)))"
  by pat_completeness auto

lemma find_idle_less: "find_idle H conns = Some idx \<Longrightarrow> idx < length conns"
  by (induction conns arbitrary: idx) (auto split: if_splits)

termination trim_pool
  by (relation "measure (\<lambda>(want, H, conns). length conns)") (auto dest!: find_idle_less)

declare trim_pool.simps [simp del]

definition tidy :: "nat \<Rightarrow> conn_heap \<Rightarrow> nat list \<Rightarrow> conn_heap \<times> nat list" where
  "tidy want H conns = trim_pool want H (filter (\<lambda>i. cx_alive (H i)) conns)"

text \<open>The timing of refills: the current backoff and the time of the next attempt.\<close>

record refill =
  rf_backoff :: nat
  rf_next_attempt :: nat

definition refill_new :: "nat \<Rightarrow> refill" where
  "refill_new now = \<lparr>rf_backoff = BASE_BACKOFF, rf_next_attempt = now\<rparr>"

text \<open>The number of connections to dial at a tick.\<close>

definition to_dial :: "nat \<Rightarrow> nat \<Rightarrow> nat \<Rightarrow> refill \<Rightarrow> nat" where
  "to_dial want alive_now now rf =
     (if now < rf_next_attempt rf then 0 else want - alive_now)"

text \<open>
  The end of a tick: \<open>dialled\<close> are the results of the dials, none of them when the pool is full or
  still cooling down.
\<close>

definition refill_update :: "nat \<Rightarrow> nat \<Rightarrow> nat \<Rightarrow> bool list \<Rightarrow> nat \<Rightarrow> refill \<Rightarrow> refill" where
  "refill_update want alive_now now dialled now' rf =
     (if want - alive_now = 0 then \<lparr>rf_backoff = BASE_BACKOFF, rf_next_attempt = now'\<rparr>
      else if now < rf_next_attempt rf then rf
      else if list_ex id dialled then \<lparr>rf_backoff = BASE_BACKOFF, rf_next_attempt = now'\<rparr>
      else
        let backoff = min (rf_backoff rf * 2) MAX_BACKOFF in
        \<lparr>rf_backoff = backoff, rf_next_attempt = now' + backoff\<rparr>)"

text \<open>The connections the dials add, under fresh numbers from \<open>new_id\<close> on.\<close>

fun push_all :: "conn_heap \<Rightarrow> nat list \<Rightarrow> nat \<Rightarrow> client_conn option list \<Rightarrow> conn_heap \<times> nat list" where
  "push_all H conns new_id [] = (H, conns)"
| "push_all H conns new_id (None # ds) = push_all H conns new_id ds"
| "push_all H conns new_id (Some c # ds) = push_all (H(new_id := c)) (conns @ [new_id]) (new_id + 1) ds"

text \<open>
  One tick of the maintenance task, when nothing else changes the pool meanwhile; \<open>dial k\<close> is the result of the \<open>k\<close>-th dial.
\<close>

definition maintenance_tick ::
  "nat \<Rightarrow> nat \<Rightarrow> nat \<Rightarrow> (nat \<Rightarrow> client_conn option) \<Rightarrow> nat \<Rightarrow> conn_heap \<times> nat list \<times> refill \<Rightarrow> conn_heap \<times> nat list \<times> refill" where
  "maintenance_tick want now now' dial new_id s =
     (case s of (H, conns, rf) \<Rightarrow>
      let (H1, conns1) = tidy want H conns;
          alive_now = length conns1;
          dialled = map dial [0..<to_dial want alive_now now rf];
          (H2, conns2) = push_all H1 conns1 new_id dialled
      in (H2, conns2, refill_update want alive_now now (map (\<lambda>d. d \<noteq> None) dialled) now' rf))"

section \<open>Abstract view\<close>

definition idle_in :: "conn_heap \<Rightarrow> nat \<Rightarrow> bool" where
  "idle_in H i \<longleftrightarrow> cx_sessions (H i) = 0"

section \<open>Lemmas\<close>

lemma min_by_key_None: "min_by_key k xs = None \<longleftrightarrow> xs = []"
  by (cases xs) (auto split: option.splits)

lemma min_by_key_Some:
  assumes "min_by_key k xs = Some x"
  shows "x \<in> set xs \<and> (\<forall>y \<in> set xs. k x \<le> k y)"
  using assms
proof (induction xs arbitrary: x)
  case (Cons a xs)
  then show ?case
    by (cases "min_by_key k xs") (fastforce simp: min_by_key_None split: if_splits)+
qed simp

lemma find_idle_None: "find_idle H conns = None \<longleftrightarrow> (\<forall>i \<in> set conns. \<not> idle_in H i)"
  by (induction conns) (auto simp: idle_in_def)

lemma find_idle_Some: "find_idle H conns = Some idx \<Longrightarrow> idle_in H (conns ! idx)"
  by (induction conns arbitrary: idx) (auto simp: idle_in_def split: if_splits)

lemma remove_nth:
  assumes "i < length xs" "distinct xs"
  shows "set (take i xs @ drop (i + 1) xs) = set xs - {xs ! i}"
proof -
  have xs: "xs = take i xs @ xs ! i # drop (i + 1) xs" using id_take_nth_drop [OF assms(1)] by simp
  then have "set xs = insert (xs ! i) (set (take i xs @ drop (i + 1) xs))" by (metis Un_insert_right list.simps(15) set_append)
  moreover have "xs ! i \<notin> set (take i xs @ drop (i + 1) xs)"
    using assms(2) by (subst (asm) xs) (simp del: append_take_drop_id)
  ultimately show ?thesis by auto
qed

lemma distinct_remove: "distinct xs \<Longrightarrow> distinct (take i xs @ drop (i + 1) xs)"
  using set_take_disj_set_drop_if_distinct [of xs i "i + 1"] by simp

lemma subseq_set: "subseq xs ys \<Longrightarrow> set xs \<subseteq> set ys"
  by (induction rule: list_emb.induct) auto

lemma subseq_remove: "subseq (take i xs @ drop (i + 1) xs) xs"
proof -
  have "subseq (drop (i + 1) xs) (drop i xs)" by (metis drop_drop suffix_drop suffix_imp_subseq add.commute)
  then have "subseq (take i xs @ drop (i + 1) xs) (take i xs @ drop i xs)" by (intro list_emb_append_mono) auto
  then show ?thesis by simp
qed

text \<open>What trimming does to the pool and to the connections.\<close>

definition trimmed :: "nat \<Rightarrow> conn_heap \<Rightarrow> nat list \<Rightarrow> conn_heap \<times> nat list \<Rightarrow> bool" where
  "trimmed want H conns r \<longleftrightarrow>
     (case r of (H', conns') \<Rightarrow>
      subseq conns' conns \<and>
      (length conns' \<le> want \<or> (\<forall>i \<in> set conns'. \<not> idle_in H i)) \<and>
      min want (length conns) \<le> length conns' \<and>
      (\<forall>i. H' i = (if i \<in> set conns - set conns' then retire (H i) else H i)) \<and>
      (\<forall>i \<in> set conns - set conns'. idle_in H i))"

lemma trim_pool_trimmed: "distinct conns \<Longrightarrow> trimmed want H conns (trim_pool want H conns)"
proof (induction want H conns rule: trim_pool.induct)
  case (1 want H conns)
  show ?case
  proof (cases "length conns \<le> want \<or> find_idle H conns = None")
    case True
    then have "trim_pool want H conns = (H, conns)" by (auto simp: trim_pool.simps [of want H conns])
    with True show ?thesis by (auto simp: trimmed_def find_idle_None)
  next
    case False
    then obtain idx where idx: "find_idle H conns = Some idx" by auto
    let ?i = "conns ! idx" and ?H = "H(conns ! idx := retire (H (conns ! idx)))" and ?cs = "take idx conns @ drop (idx + 1) conns"
    have lt: "idx < length conns" and idle: "idle_in H ?i" using find_idle_less [OF idx] find_idle_Some [OF idx] by auto
    have cs: "set ?cs = set conns - {?i}" "length ?cs = length conns - 1" "distinct ?cs" "subseq ?cs conns"
      using remove_nth [OF lt 1(2)] lt distinct_remove [OF 1(2)] subseq_remove by simp_all
    have "trimmed want ?H ?cs (trim_pool want ?H ?cs)" using 1(1) [OF _ idx cs(3)] False by blast
    moreover have "trim_pool want H conns = trim_pool want ?H ?cs" using False idx by (simp add: trim_pool.simps [of want H conns])
    ultimately obtain H' conns' where r: "trim_pool want H conns = (H', conns')" "trimmed want ?H ?cs (H', conns')"
      by (metis prod.collapse)
    have sub: "subseq conns' ?cs" "set conns' \<subseteq> set conns - {?i}"
      using r(2) subseq_set [of conns' ?cs] cs(1) by (auto simp: trimmed_def)
    have keep: "idle_in ?H j = idle_in H j" for j by (simp add: idle_in_def retire_def)
    have "?i \<in> set conns" using lt by simp
    with r(2) sub cs idle keep False lt subseq_order.order_trans [OF sub(1) cs(4)] show ?thesis
      unfolding r(1) by (auto simp: trimmed_def)
  qed
qed

lemma pick_Some:
  assumes "pick H conns = Some i"
  shows "i \<in> set conns \<and> cx_alive (H i) \<and> cx_sessions (H i) < MAX_PER_CONN_client \<and>
    (\<forall>j \<in> set conns. cx_alive (H j) \<longrightarrow> cx_sessions (H i) \<le> cx_sessions (H j))"
  using min_by_key_Some [OF assms [unfolded pick_def]] by (auto simp: not_less intro: le_trans [OF less_imp_le])

lemma pick_None: "pick H conns = None \<longleftrightarrow> (\<forall>i \<in> set conns. cx_alive (H i) \<longrightarrow> MAX_PER_CONN_client \<le> cx_sessions (H i))"
  by (auto simp: pick_def min_by_key_None filter_empty_conv not_less)

text \<open>A fresh connection joins the pool; a pooled one is only taken when it is alive and has room.\<close>

lemma acquire_usable:
  assumes "acquire H conns H' conns' new_id dialled = (Inr i, H2, conns2)" "\<And>c. dialled = Inr c \<Longrightarrow> cx_alive c \<and> cx_sessions c = 0"
  shows "i \<in> set conns2 \<and> cx_alive (H2 i) \<and> cx_sessions (H2 i) < MAX_PER_CONN_client"
proof (cases "pick H conns")
  case None
  with assms show ?thesis by (cases dialled) (auto simp: acquire_def Let_def const_defs)
next
  case (Some j)
  with assms(1) pick_Some [OF Some] show ?thesis by (simp add: acquire_def)
qed

text \<open>
  A host that does not fit a frame costs the connection: the pool retires it with all its sessions.
\<close>

lemma long_host_retires:
  assumes "cx_alive (H i)" "cx_sessions (H i) < MAX_PER_CONN_client" "length (cx_udp (H i)) < 2 ^ 32 - 1" "cx_limit (H i) < length host"
  shows "\<exists>c. conn_open_tcp L (H i) host port pad net = Some (Inl Plain_Error, c) \<and>
    \<not> cx_alive (settle (H(i := c)) i (Inl Plain_Error :: client_error + unit) i)"
  using long_host_plain_error [OF assms, of L port pad net] by (auto simp: settle_def retire_def)

text \<open>The backoff doubles with every failed round up to its maximum.\<close>

lemma backoff_doubles:
  assumes "alive_now < want" "rf_backoff rf = min (BASE_BACKOFF * 2 ^ k) MAX_BACKOFF" "rf_next_attempt rf \<le> now" "\<not> list_ex id ds"
  shows "refill_update want alive_now now ds now' rf =
    \<lparr>rf_backoff = min (BASE_BACKOFF * 2 ^ Suc k) MAX_BACKOFF, rf_next_attempt = now' + min (BASE_BACKOFF * 2 ^ Suc k) MAX_BACKOFF\<rparr>"
  using assms by (auto simp: refill_update_def Let_def const_defs min_def)

lemma backoff_resets:
  "want \<le> alive_now \<or> (rf_next_attempt rf \<le> now \<and> list_ex id ds) \<Longrightarrow> rf_backoff (refill_update want alive_now now ds now' rf) = BASE_BACKOFF"
  by (auto simp: refill_update_def)

lemma push_all_length: "length (snd (push_all H conns new_id ds)) = length conns + length (filter (\<lambda>d. d \<noteq> None) ds)"
  by (induction H conns new_id ds rule: push_all.induct) (simp_all del: fun_upd_apply)

lemma refill_never_overfills:
  "length (fst (snd (maintenance_tick want now now' dial new_id (H, conns, rf)))) \<le> max want (length (snd (tidy want H conns)))"
proof -
  obtain H1 c1 where t: "tidy want H conns = (H1, c1)" by fastforce
  let ?ds = "map dial [0..<to_dial want (length c1) now rf]"
  have "length (filter (\<lambda>d. d \<noteq> None) ?ds) \<le> want - length c1"
    using length_filter_le [of "\<lambda>d. d \<noteq> None" ?ds] by (auto simp: to_dial_def split: if_splits)
  then show ?thesis
    using push_all_length [of H1 c1 new_id ?ds] t by (simp add: maintenance_tick_def case_prod_beta Let_def)
qed

section \<open>Properties\<close>



text \<open>
  UDP sessions are not counted: a surplus connection that carries only UDP sessions is taken for idle and closed under them.
\<close>

lemma udp_connection_retired:
  assumes "cx_alive (H 0)" "cx_alive (H 1)" "cx_sessions (H 0) = 0" "cx_udp (H 0) \<noteq> []"
  shows "tidy 1 H [0, 1] = (H(0 := retire (H 0)), [1])"
  using assms by (simp add: tidy_def trim_pool.simps)

end
