(* ===== verification/Sock_Io.thy ===== *)
theory Sock_Io
  imports Outbound
begin

text \<open>
  A local connection of the client's inbounds (SOCKS5, HTTP proxy) and the operations on it as a state and error monad:
  what the peer sends, how the reads deliver it, what has been written, and how many writes the peer still accepts.
  Also the comparison of credentials (\<open>src/src/client/mod.rs\<close>).
\<close>

section \<open>Connections\<close>

text \<open>
  Successive reads deliver the given numbers of bytes (at least one, and never more than asked for), or fail where there is no number;
  when the sizes are used up, a read delivers all it may. A write that fails writes nothing.
\<close>

record sock =
  sk_in :: bytes
  sk_sizes :: "nat option list"
  sk_out :: bytes
  sk_room :: nat

datatype proxy_error =
    UnexpectedEof
  | BrokenPipe
  | IoError
  | ParseIntError
  | Bail string
  | OpenFailed client_error

type_synonym 'a io = "sock \<Rightarrow> (proxy_error + 'a) \<times> sock"

definition return_io :: "'a \<Rightarrow> 'a io" where
  "return_io a s = (Inr a, s)"

definition fail_io :: "proxy_error \<Rightarrow> 'a io" where
  "fail_io e s = (Inl e, s)"

definition bind_io :: "'a io \<Rightarrow> ('a \<Rightarrow> 'b io) \<Rightarrow> 'b io" where
  "bind_io m f s = (case m s of (Inl e, s') \<Rightarrow> (Inl e, s') | (Inr a, s') \<Rightarrow> f a s')"

definition lift_io :: "proxy_error + 'a \<Rightarrow> 'a io" where
  "lift_io r s = (r, s)"

definition ensure_io :: "string \<Rightarrow> bool \<Rightarrow> unit io" where
  "ensure_io e b = (if b then return_io () else fail_io (Bail e))"

definition read_exact :: "nat \<Rightarrow> bytes io" where
  "read_exact n s =
     (if n \<le> length (sk_in s) then (Inr (take n (sk_in s)), s\<lparr>sk_in := drop n (sk_in s)\<rparr>)
      else (Inl UnexpectedEof, s\<lparr>sk_in := []\<rparr>))"

definition read_some :: "nat \<Rightarrow> bytes io" where
  "read_some k s =
     (case sk_sizes s of
        None # ms \<Rightarrow> (Inl IoError, s\<lparr>sk_sizes := ms\<rparr>)
      | ms \<Rightarrow>
          let n = (case ms of Some m # _ \<Rightarrow> min k (max 1 m) | _ \<Rightarrow> k) in
          (Inr (take n (sk_in s)), s\<lparr>sk_in := drop n (sk_in s), sk_sizes := tl ms\<rparr>))"

definition write_all :: "bytes \<Rightarrow> unit io" where
  "write_all bs s =
     (if sk_room s = 0 then (Inl BrokenPipe, s)
      else (Inr (), s\<lparr>sk_out := sk_out s @ bs, sk_room := sk_room s - 1\<rparr>))"

text \<open>A write whose result is ignored\<close>

definition try_write :: "bytes \<Rightarrow> unit io" where
  "try_write bs s = (Inr (), snd (write_all bs s))"

section \<open>Credentials\<close>

text \<open>The loop over the zipped bytes is the one of \<^const>\<open>ct_diff\<close>.\<close>

definition constant_time_eq :: "bytes \<Rightarrow> bytes \<Rightarrow> bool" where
  "constant_time_eq a b = (if length a \<noteq> length b then False else ct_diff a b = 0)"

section \<open>Lemmas\<close>

lemma io_simps [simp]:
  "return_io a s = (Inr a, s)" "fail_io e s = (Inl e, s)" "lift_io r s = (r, s)"
  "ensure_io msg b s = (if b then Inr () else Inl (Bail msg), s)"
  by (simp_all add: return_io_def fail_io_def lift_io_def ensure_io_def)

lemma bind_io_Inr: "bind_io m f s = (Inr b, s') \<longleftrightarrow> (\<exists>a s1. m s = (Inr a, s1) \<and> f a s1 = (Inr b, s'))"
  by (auto simp: bind_io_def split: prod.splits sum.splits)

lemma bind_io_eq [simp]: "m s = (Inr a, s1) \<Longrightarrow> bind_io m f s = f a s1" "m s = (Inl e, s1) \<Longrightarrow> bind_io m f s = (Inl e, s1)"
  by (simp_all add: bind_io_def)

lemma read_exact_Inr:
  "read_exact n s = (Inr bs, s') \<longleftrightarrow> (\<exists>r. length bs = n \<and> sk_in s = bs @ r \<and> s' = s\<lparr>sk_in := r\<rparr>)"
  by (auto simp: read_exact_def split: if_splits intro: exI [of _ "drop n (sk_in s)"])

lemma constant_time_eq_iff [simp]: "constant_time_eq a b \<longleftrightarrow> a = b"
  by (auto simp: constant_time_eq_def ct_diff_zero_iff)

end
