(* ===== verification/Http_Proxy.thy ===== *)
theory Http_Proxy
  imports Sock_Io
begin

text \<open>
  The HTTP proxy inbound (\<open>src/src/client/http_proxy.rs\<close>): reading the head of a request, Basic authentication, CONNECT tunnels
  and forwarding in origin form. The decoder of Base64 and what the outbound answers are arguments.
\<close>

section \<open>Text\<close>

text \<open>\<open>String::from_utf8_lossy\<close>: a sequence that cannot be continued to a character is replaced by U+FFFD.\<close>

definition utf8_second :: "u8 \<Rightarrow> u8 \<Rightarrow> bool" where
  "utf8_second b c \<longleftrightarrow>
     utf8_cont c \<and> (b = 0xE0 \<longrightarrow> 0xA0 \<le> c) \<and> (b = 0xED \<longrightarrow> c \<le> 0x9F) \<and> (b = 0xF0 \<longrightarrow> 0x90 \<le> c) \<and> (b = 0xF4 \<longrightarrow> c \<le> 0x8F)"

definition utf8_head :: "u8 \<Rightarrow> bytes \<Rightarrow> bool \<times> nat" where
  "utf8_head b r =
     (let c = (\<lambda>k. if k < length r then r ! k else 0) in
      if b < 0x80 then (True, 1)
      else if 0xC2 \<le> b \<and> b \<le> 0xDF then (if utf8_cont (c 0) then (True, 2) else (False, 1))
      else if 0xE0 \<le> b \<and> b \<le> 0xEF then
        (if \<not> utf8_second b (c 0) then (False, 1) else if utf8_cont (c 1) then (True, 3) else (False, 2))
      else if 0xF0 \<le> b \<and> b \<le> 0xF4 then
        (if \<not> utf8_second b (c 0) then (False, 1)
         else if \<not> utf8_cont (c 1) then (False, 2)
         else if utf8_cont (c 2) then (True, 4) else (False, 3))
      else (False, 1))"

function from_utf8_lossy :: "bytes \<Rightarrow> string" where
  "from_utf8_lossy [] = []"
| "from_utf8_lossy (b # r) =
     (let (valid, n) = utf8_head b r in
      (if valid then map char_of_byte (take n (b # r)) else map char_of_byte [0xEF, 0xBF, 0xBD]) @
      from_utf8_lossy (drop (n - 1) r))"
  by pat_completeness auto

termination from_utf8_lossy
  by (relation "measure length") auto

fun split_crlf :: "string \<Rightarrow> string list" where
  "split_crlf [] = [[]]"
| "split_crlf [x] = [[x]]"
| "split_crlf (x # y # r) =
     (if x = carriage_return \<and> y = newline then [] # split_crlf r
      else (case split_crlf (y # r) of [] \<Rightarrow> [[x]] | w # ws \<Rightarrow> (x # w) # ws))"

function words_from :: "string \<Rightarrow> string \<Rightarrow> string list" where
  "words_from s cur =
     (if s = [] then (if cur = [] then [] else [cur])
      else if ws_len s = 0 then words_from (tl s) (cur @ [hd s])
      else (if cur = [] then [] else [cur]) @ words_from (drop (ws_len s) s) [])"
  by pat_completeness auto

termination words_from
  by (relation "measure (\<lambda>(s, _). length s)") (auto simp: neq_Nil_conv intro!: diff_less Nat.gr0I)

declare words_from.simps [simp del]

definition split_whitespace :: "string \<Rightarrow> string list" where
  "split_whitespace s = words_from s []"

definition crlf :: string where "crlf = [carriage_return, newline]"

section \<open>Heads\<close>

definition MAX_HEAD :: nat where [const_defs]: "MAX_HEAD = 16 * 1024"

fun find_double_crlf :: "bytes \<Rightarrow> nat option" where
  "find_double_crlf [] = None"
| "find_double_crlf (b # bs) = (if take 4 (b # bs) = [13, 10, 13, 10] then Some 0 else map_option Suc (find_double_crlf bs))"

function read_head :: "bytes \<Rightarrow> (bytes \<times> nat) io" where
  "read_head buf s =
     (case read_some 4096 s of
        (Inl e, s') \<Rightarrow> (Inl e, s')
      | (Inr chunk, s') \<Rightarrow>
          if chunk = [] then (Inl (Bail ''client closed before sending request''), s')
          else
            let buf' = buf @ chunk in
            if length buf' > MAX_HEAD then (Inl (Bail ''request head too large''), s')
            else (case find_double_crlf buf' of
                Some pos \<Rightarrow> (Inr (buf', pos), s')
              | None \<Rightarrow> read_head buf' s'))"
  by pat_completeness auto

termination read_head
  by (relation "measure (\<lambda>(_, s). length (sk_in s))") (auto simp: read_some_def Let_def split: list.splits option.splits)

declare read_head.simps [simp del]

definition request_line :: "string \<Rightarrow> proxy_error + string \<times> string \<times> string" where
  "request_line head =
     (case split_whitespace (hd (split_crlf head)) of
        [] \<Rightarrow> Inl (Bail ''missing method'')
      | [_] \<Rightarrow> Inl (Bail ''missing target'')
      | [_, _] \<Rightarrow> Inl (Bail ''missing HTTP version'')
      | [m, target, version] \<Rightarrow>
          if version = ''HTTP/1.0'' \<or> version = ''HTTP/1.1'' then Inr (m, target, version)
          else Inl (Bail ''malformed HTTP request line'')
      | _ \<Rightarrow> Inl (Bail ''malformed HTTP request line''))"

fun position :: "u8 \<Rightarrow> bytes \<Rightarrow> nat option" where
  "position x [] = None"
| "position x (b # bs) = (if b = x then Some 0 else map_option Suc (position x bs))"

text \<open>The credentials a header line carries, once its name is known to match\<close>

definition basic_credentials :: "(string \<Rightarrow> bytes option) \<Rightarrow> string \<Rightarrow> (bytes \<times> bytes) option" where
  "basic_credentials b64_decode v =
     (case split_once (CHR '' '') (trim v) of
        None \<Rightarrow> None
      | Some (scheme, b64) \<Rightarrow>
          if \<not> eq_ignore_ascii_case scheme ''basic'' then None
          else (case b64_decode (trim b64) of
              None \<Rightarrow> None
            | Some raw \<Rightarrow>
                (case position 58 raw of
                   None \<Rightarrow> None
                 | Some pos \<Rightarrow> Some (take pos raw, drop (pos + 1) raw))))"

fun auth_lines_ok :: "(string \<Rightarrow> bytes option) \<Rightarrow> string list \<Rightarrow> string \<Rightarrow> string \<Rightarrow> bool" where
  "auth_lines_ok b64_decode [] user pass = False"
| "auth_lines_ok b64_decode (line # ls) user pass =
     (case split_once (CHR '':'') line of
        None \<Rightarrow> auth_lines_ok b64_decode ls user pass
      | Some (name, v) \<Rightarrow>
          if \<not> eq_ignore_ascii_case (trim name) ''proxy-authorization'' then auth_lines_ok b64_decode ls user pass
          else (case basic_credentials b64_decode v of
              None \<Rightarrow> False
            | Some (u, p) \<Rightarrow> constant_time_eq u (as_bytes user) \<and> constant_time_eq p (as_bytes pass)))"

definition proxy_auth_ok :: "(string \<Rightarrow> bytes option) \<Rightarrow> string \<Rightarrow> string \<Rightarrow> string \<Rightarrow> bool" where
  "proxy_auth_ok b64_decode head user pass = auth_lines_ok b64_decode (tl (split_crlf head)) user pass"

definition keep_line :: "string \<Rightarrow> bool" where
  "keep_line line \<longleftrightarrow>
     (case split_once (CHR '':'') line of
        None \<Rightarrow> False
      | Some (name, _) \<Rightarrow>
          \<not> (eq_ignore_ascii_case name ''proxy-authorization'' \<or> eq_ignore_ascii_case name ''proxy-connection''))"

definition forward_http_head :: "string \<Rightarrow> string \<Rightarrow> string \<Rightarrow> string \<Rightarrow> string" where
  "forward_http_head head m origin version =
     m @ '' '' @ origin @ '' '' @ version @ crlf @
     concat (map (\<lambda>line. line @ crlf) (filter keep_line (tl (split_crlf head)))) @ crlf"

definition parse_u16 :: "string \<Rightarrow> proxy_error + u16" where
  "parse_u16 s = (case parse_uint 16 s of None \<Rightarrow> Inl ParseIntError | Some n \<Rightarrow> Inr (of_nat n))"

definition parse_host_port :: "string \<Rightarrow> u16 \<Rightarrow> proxy_error + string \<times> u16" where
  "parse_host_port s0 default_port =
     (let s = trim s0 in
      if s = [] then Inl (Bail ''empty target'')
      else (case strip_prefix ''['' s of
          Some stripped \<Rightarrow>
            (case find_char (CHR '']'') stripped of
               None \<Rightarrow> Inl (Bail ''bad ipv6 target'')
             | Some e \<Rightarrow>
                 (case strip_prefix '':'' (drop (e + 1) stripped) of
                    None \<Rightarrow> Inr (take e stripped, default_port)
                  | Some p \<Rightarrow> and_then (parse_u16 p) (\<lambda>port. Inr (take e stripped, port))))
        | None \<Rightarrow>
            (case rsplit_once (CHR '':'') s of
               Some (h, p) \<Rightarrow>
                 if CHR '':'' \<notin> set h then and_then (parse_u16 p) (\<lambda>port. Inr (h, port)) else Inr (s, default_port)
             | None \<Rightarrow> Inr (s, default_port))))"

section \<open>Handling a connection\<close>

definition reply_error :: "string \<Rightarrow> bytes" where
  "reply_error tag =
     (let body = ''newppp error: '' @ tag @ [newline] in
      as_bytes (''HTTP/1.1 502 Bad Gateway'' @ crlf @ ''Content-Type: text/plain'' @ crlf @ ''X-Newppp-Error: '' @ tag @ crlf @
        ''Content-Length: '' @ show_dec (length body) @ crlf @ ''Connection: close'' @ crlf @ crlf @ body))"

definition reply_407 :: bytes where
  "reply_407 =
     as_bytes (''HTTP/1.1 407 Proxy Authentication Required'' @ crlf @
       ''Proxy-Authenticate: Basic realm='' @ [char_of (34 :: nat)] @ ''newppp'' @ [char_of (34 :: nat)] @ crlf @
       ''Content-Length: 0'' @ crlf @ ''Connection: close'' @ crlf @ crlf)"

definition reply_200 :: bytes where
  "reply_200 = as_bytes (''HTTP/1.1 200 Connection Established'' @ crlf @ crlf)"

text \<open>
  What a connection leads to: a tunnel whose local side first replays the pending bytes, or a forwarded request with what is written to the remote stream before the two are
  joined (the second write only if the first succeeds).
\<close>

datatype 's http_served = Connect_Tunnel 's bytes | Forwarded 's bytes bytes

text \<open>The position of the first \<open>/\<close> or \<open>?\<close>, or the length\<close>

definition authority_end :: "string \<Rightarrow> nat" where
  "authority_end s = length (takeWhile (\<lambda>c. c \<noteq> CHR ''/'' \<and> c \<noteq> CHR ''?'') s)"

definition origin_form :: "string \<Rightarrow> string" where
  "origin_form suffix =
     (if suffix = [] then ''/'' else if starts_with ''?'' suffix then ''/'' @ suffix else suffix)"

definition open_or_reply :: "client_error + 's \<Rightarrow> 's io" where
  "open_or_reply r =
     (case r of
        Inr remote \<Rightarrow> return_io remote
      | Inl e \<Rightarrow> bind_io (try_write (reply_error (error_tag e))) (\<lambda>_. fail_io (OpenFailed e)))"

definition check_auth :: "(string \<Rightarrow> bytes option) \<Rightarrow> (string \<times> string) option \<Rightarrow> string \<Rightarrow> unit io" where
  "check_auth b64_decode auth head =
     (case auth of
        None \<Rightarrow> return_io ()
      | Some (user, pass) \<Rightarrow>
          if \<not> proxy_auth_ok b64_decode head user pass
          then bind_io (try_write reply_407) (\<lambda>_. fail_io (Bail ''proxy authentication required''))
          else return_io ())"

definition http_handle ::
  "(string \<Rightarrow> bytes option) \<Rightarrow> (string \<Rightarrow> u16 \<Rightarrow> client_error + 's) \<Rightarrow> (string \<times> string) option \<Rightarrow> 's http_served io" where
  "http_handle b64_decode open_tcp auth =
     bind_io (read_head []) (\<lambda>(buf, head_end).
     let head = from_utf8_lossy (take head_end buf) in
     bind_io (lift_io (request_line head)) (\<lambda>(m, target, version).
     bind_io (check_auth b64_decode auth head) (\<lambda>_.
     if eq_ignore_ascii_case m ''CONNECT'' then
       bind_io (lift_io (parse_host_port target 443)) (\<lambda>(host, port).
       bind_io (open_or_reply (open_tcp host port)) (\<lambda>remote.
       bind_io (write_all reply_200) (\<lambda>_. return_io (Connect_Tunnel remote (drop (head_end + 4) buf)))))
     else
       bind_io (lift_io (ok_or (Bail ''only http:// and CONNECT supported'') (strip_prefix ''http://'' target))) (\<lambda>hostport.
       let e = authority_end hostport in
       bind_io (lift_io (parse_host_port (take e hostport) 80)) (\<lambda>(host, port).
       bind_io (open_or_reply (open_tcp host port)) (\<lambda>remote.
       return_io (Forwarded remote (as_bytes (forward_http_head head m (origin_form (drop e hostport)) version))
         (drop (head_end + 4) buf))))))))"

section \<open>The replaying stream\<close>

record pipe =
  pp_inner :: sock
  pp_pending :: bytes

definition pipe_poll_read :: "nat \<Rightarrow> pipe \<Rightarrow> (proxy_error + bytes) \<times> pipe" where
  "pipe_poll_read remaining p =
     (if pp_pending p \<noteq> [] then
        let n = min (length (pp_pending p)) remaining in
        (Inr (take n (pp_pending p)), p\<lparr>pp_pending := drop n (pp_pending p)\<rparr>)
      else let (r, s') = read_some remaining (pp_inner p) in (r, p\<lparr>pp_inner := s'\<rparr>))"

section \<open>Abstract view\<close>

definition pipe_content :: "pipe \<Rightarrow> bytes" where
  "pipe_content p = pp_pending p @ sk_in (pp_inner p)"

definition auth_header :: "string \<Rightarrow> bool" where
  "auth_header line \<longleftrightarrow>
     (case split_once (CHR '':'') line of
        None \<Rightarrow> False
      | Some (name, _) \<Rightarrow> eq_ignore_ascii_case (trim name) ''proxy-authorization'')"

text \<open>The Base64 text of a header \<open>Basic\<close>\<close>

definition basic_text :: "string \<Rightarrow> string option" where
  "basic_text line =
     (case split_once (CHR '':'') line of
        None \<Rightarrow> None
      | Some (_, v) \<Rightarrow>
          (case split_once (CHR '' '') (trim v) of
             None \<Rightarrow> None
           | Some (scheme, b64) \<Rightarrow> if eq_ignore_ascii_case scheme ''basic'' then Some (trim b64) else None))"

text \<open>The header lines that are for the proxy only: their name is what stands before the colon, in any letter case.\<close>

definition for_proxy :: "string \<Rightarrow> bool" where
  "for_proxy line \<longleftrightarrow>
     to_ascii_lowercase (takeWhile (\<lambda>c. c \<noteq> CHR '':'') line) \<in> {''proxy-authorization'', ''proxy-connection''}"

text \<open>The host and the port an authority names: a name or IPv4 address with an optional port, or an IPv6 address.\<close>

definition names_target :: "string \<Rightarrow> u16 \<Rightarrow> string \<Rightarrow> u16 \<Rightarrow> bool" where
  "names_target a default_port host port \<longleftrightarrow>
     (\<exists>p. a = host @ '':'' @ p \<and> CHR '':'' \<notin> set host \<and> CHR '':'' \<notin> set p \<and> parse_uint 16 p = Some (unat port)) \<or>
     (a = host \<and> port = default_port \<and> length (filter (\<lambda>c. c = CHR '':'') a) \<noteq> 1) \<or>
     (\<exists>p. a = ''['' @ host @ '']:'' @ p \<and> CHR '']'' \<notin> set host \<and> parse_uint 16 p = Some (unat port)) \<or>
     (\<exists>r. a = ''['' @ host @ '']'' @ r \<and> CHR '']'' \<notin> set host \<and> \<not> starts_with '':'' r \<and> port = default_port)"

section \<open>Lemmas: text\<close>

lemma utf8_second_cont: "utf8_second b c \<Longrightarrow> utf8_cont c"
  by (simp add: utf8_second_def)

lemma word_gaps: "(0xE0 :: u8) \<le> b \<Longrightarrow> \<not> b < 0x80" "(0xE0 :: u8) \<le> b \<Longrightarrow> \<not> b \<le> 0xDF" "(0xC2 :: u8) \<le> b \<Longrightarrow> \<not> b < 0x80"
  "(0xF0 :: u8) \<le> b \<Longrightarrow> \<not> b \<le> 0xEF" "(0xF0 :: u8) \<le> b \<Longrightarrow> \<not> b \<le> 0xDF" "(0xF0 :: u8) \<le> b \<Longrightarrow> \<not> b < 0x80"
  by (auto simp: word_le_nat_alt word_less_nat_alt)

lemma utf8_valid_head:
  assumes "utf8_valid (b # r)"
  shows "\<exists>n. utf8_head b r = (True, Suc n) \<and> utf8_valid (drop n r)"
proof -
  consider "b < 0x80" | "0xC2 \<le> b" "b \<le> 0xDF" | "0xE0 \<le> b" "b \<le> 0xEF" | "0xF0 \<le> b" "b \<le> 0xF4"
    using assms by (auto split: if_splits)
  then show ?thesis
  proof cases
    case 1
    with assms show ?thesis by (simp add: utf8_head_def)
  next
    case 2
    with assms obtain c r' where "r = c # r'" "utf8_cont c" "utf8_valid r'"
      by (auto simp: word_gaps split: list.splits)
    with 2 show ?thesis by (simp add: utf8_head_def word_gaps)
  next
    case 3
    then have "b \<noteq> 0xF0" "b \<noteq> 0xF4" by auto
    with 3 assms obtain c d r' where "r = c # d # r'" "utf8_second b c" "utf8_cont d" "utf8_valid r'"
      by (auto simp: word_gaps utf8_second_def split: list.splits)
    with 3 show ?thesis by (auto simp: utf8_head_def word_gaps)
  next
    case 4
    then have "b \<noteq> 0xE0" "b \<noteq> 0xED" by auto
    with 4 assms obtain c d e r' where "r = c # d # e # r'" "utf8_second b c" "utf8_cont d" "utf8_cont e" "utf8_valid r'"
      by (auto simp: word_gaps utf8_second_def split: list.splits)
    with 4 show ?thesis by (auto simp: utf8_head_def word_gaps)
  qed
qed

text \<open>A head that is valid UTF-8 is taken as it is.\<close>

lemma lossy_valid: "utf8_valid bs \<Longrightarrow> from_utf8_lossy bs = map char_of_byte bs"
proof (induction bs rule: from_utf8_lossy.induct)
  case (2 b r)
  from utf8_valid_head [OF 2(2)] obtain n where "utf8_head b r = (True, Suc n)" "utf8_valid (drop n r)" by auto
  with 2(1) show ?case by (simp flip: map_append)
qed simp

lemma lossy_str: "is_str s \<Longrightarrow> from_utf8_lossy (as_bytes s) = s"
  using from_utf8_as_bytes [of s] by (simp add: lossy_valid is_str_def from_utf8_def)

lemma split_crlf_nonempty [simp]: "split_crlf s \<noteq> []"
  by (induction s rule: split_crlf.induct) (auto split: list.splits)

lemma split_crlf_hd: "split_crlf (y # r) = w # ws \<Longrightarrow> w = [] \<or> (\<exists>w'. w = y # w')"
  by (cases r) (auto split: if_splits list.splits)

lemma split_crlf_line: "w \<in> set (split_crlf s) \<Longrightarrow> split_crlf w = [w]"
proof (induction s arbitrary: w rule: split_crlf.induct)
  case (3 x y r)
  show ?case
  proof (cases "x = carriage_return \<and> y = newline")
    case True
    with 3 show ?thesis by auto
  next
    case False
    obtain v vs where v: "split_crlf (y # r) = v # vs" by (meson neq_Nil_conv split_crlf_nonempty)
    with False 3 have "split_crlf v = [v]" "w = x # v \<or> split_crlf w = [w]" by auto
    with False split_crlf_hd [OF v] show ?thesis by auto
  qed
qed auto

lemma crlf_neq: "carriage_return \<noteq> newline"
  by (simp add: carriage_return_def newline_def)

lemma newline_neq: "newline \<noteq> CHR '' ''" "newline \<noteq> CHR ''/''"
  by code_simp+

lemma split_crlf_cons: "split_crlf l = [l] \<Longrightarrow> split_crlf (l @ crlf @ r) = l # split_crlf r"
proof (induction l rule: split_crlf.induct)
  case (3 x y l)
  then have "\<not> (x = carriage_return \<and> y = newline)" by auto
  moreover from this 3(3) have "split_crlf (y # l) = [y # l]" by (auto split: list.splits)
  ultimately show ?case using 3 by auto
qed (use crlf_neq in \<open>auto simp: crlf_def\<close>)

lemma no_newline_line: "newline \<notin> set s \<Longrightarrow> split_crlf s = [s]"
  by (induction s rule: split_crlf.induct) auto

lemma split_joined: 
  "list_all (\<lambda>l. split_crlf l = [l]) ls \<Longrightarrow> split_crlf (concat (map (\<lambda>l. l @ crlf) ls) @ r) = ls @ split_crlf r"
  by (induction ls) (auto simp: split_crlf_cons)

lemma ws_len_newline: "ws_len (newline # s) = 1"
proof -
  have "of_char newline = (10 :: nat)" by (simp add: newline_def)
  then show ?thesis
    unfolding ws_len_def by (cases "map of_char (take 3 (newline # s)) :: nat list" rule: ws_code.cases) auto
qed

lemma words_no_newline: "newline \<notin> set cur \<Longrightarrow> w \<in> set (words_from s cur) \<Longrightarrow> newline \<notin> set w"
proof (induction s cur rule: words_from.induct)
  case (1 s cur)
  show ?case
  proof (cases "s = []")
    case False
    then obtain c s' where s: "s = c # s'" by (cases s) auto
    then have "ws_len s = 0 \<Longrightarrow> c \<noteq> newline" using ws_len_newline [of s'] by auto
    with 1 False s words_from.simps [of s cur] show ?thesis by (cases "ws_len s = 0") (auto split: if_splits)
  qed (use 1 in \<open>simp add: words_from.simps split: if_splits\<close>)
qed

section \<open>Lemmas: reading\<close>

lemma find_double_crlf_append:
  "find_double_crlf buf = Some pos \<Longrightarrow> find_double_crlf (buf @ r) = Some pos \<and> pos + 4 \<le> length buf"
proof (induction buf arbitrary: pos)
  case (Cons b buf)
  show ?case
  proof (cases "take 4 (b # buf) = [13, 10, 13, 10]")
    case True
    then have "length (take 4 (b # buf)) = 4" by simp
    then have len: "4 \<le> length (b # buf)" by simp
    then have "take 4 ((b # buf) @ r) = take 4 (b # buf)" by simp
    with True Cons.prems len show ?thesis by simp
  next
    case False
    with Cons.prems obtain p where p: "find_double_crlf buf = Some p" "pos = Suc p" by auto
    with Cons.IH have "p + 4 \<le> length buf" "find_double_crlf (buf @ r) = Some p" by auto
    moreover from this have "take 4 ((b # buf) @ r) = take 4 (b # buf)" by simp
    ultimately show ?thesis using False p by simp
  qed
qed simp

lemma find_double_crlf_prefix:
  assumes "find_double_crlf (buf @ r) = Some pos" "pos + 4 \<le> length buf"
  shows "find_double_crlf buf = Some pos"
  using assms
proof (induction buf arbitrary: pos)
  case (Cons b buf)
  have "take 4 ((b # buf) @ r) = take 4 (b # buf)" using Cons.prems(2) by simp
  with Cons show ?case by (auto split: if_splits)
qed simp

lemma read_some_split:
  assumes "read_some k s = (Inr bs, s')"
  shows "bs @ sk_in s' = sk_in s" "length bs \<le> k" "sk_out s' = sk_out s" "sk_room s' = sk_room s"
    and "0 < k \<Longrightarrow> sk_in s \<noteq> [] \<Longrightarrow> bs \<noteq> []"
  using assms by (auto simp: read_some_def Let_def split: list.splits option.splits)

lemma read_head_sound:
  assumes "read_head buf s = (Inr (buf', pos), s')"
  shows "buf' @ sk_in s' = buf @ sk_in s \<and> find_double_crlf (buf @ sk_in s) = Some pos \<and> pos + 4 \<le> length buf' \<and>
    sk_out s' = sk_out s \<and> sk_room s' = sk_room s"
  using assms
proof (induction buf s rule: read_head.induct)
  case (1 buf s)
  obtain chunk s1 where r: "read_some 4096 s = (Inr chunk, s1)"
    using 1(2) by (auto simp: read_head.simps [of buf s] split: prod.splits sum.splits)
  note split = read_some_split [OF r]
  show ?case
  proof (cases "find_double_crlf (buf @ chunk)")
    case None
    have "read_head (buf @ chunk) s1 = (Inr (buf', pos), s')" "chunk \<noteq> []" "length (buf @ chunk) \<le> MAX_HEAD"
      using 1(2) None r by (auto simp: read_head.simps [of buf s] Let_def split: if_splits)
    with 1(1) [OF r [symmetric] refl _ refl _ None] split(1,3,4) show ?thesis by (auto simp: not_less)
  next
    case (Some p)
    with 1(2) r have "buf' = buf @ chunk" "p = pos" "s' = s1"
      by (auto simp: read_head.simps [of buf s] Let_def split: if_splits)
    with Some find_double_crlf_append [OF Some, of "sk_in s1"] split show ?thesis by simp
  qed
qed

text \<open>A head that leaves room for one more read within the limit is always found, however it is delivered, unless a read fails.\<close>

lemma read_some_succeeds:
  assumes "None \<notin> set (sk_sizes s)"
  obtains bs s' where "read_some k s = (Inr bs, s')" "None \<notin> set (sk_sizes s')"
proof (cases "sk_sizes s")
  case Nil
  with that show thesis by (simp add: read_some_def Let_def)
next
  case (Cons m ms)
  with assms that show thesis by (cases m) (auto simp: read_some_def Let_def)
qed

lemma read_head_complete:
  assumes "find_double_crlf (buf @ sk_in s) = Some pos" "find_double_crlf buf = None" "pos + 4099 \<le> MAX_HEAD" "None \<notin> set (sk_sizes s)"
  shows "\<exists>buf' s'. read_head buf s = (Inr (buf', pos), s')"
  using assms
proof (induction buf s rule: read_head.induct)
  case (1 buf s)
  obtain chunk s1 where r: "read_some 4096 s = (Inr chunk, s1)" "None \<notin> set (sk_sizes s1)" using read_some_succeeds [OF 1(5)] .
  note split = read_some_split [OF r(1)]
  have short: "length buf < pos + 4" using find_double_crlf_prefix [OF 1(2)] 1(3) by (metis not_le option.distinct(1))
  have "sk_in s \<noteq> []" using 1(2,3) by auto
  then have chunk: "chunk \<noteq> []" "length (buf @ chunk) \<le> MAX_HEAD" using split(2,5) short 1(4) by auto
  show ?case
  proof (cases "find_double_crlf (buf @ chunk)")
    case None
    with 1(1) [OF r(1) [symmetric] refl _ refl _ None] chunk 1(2,4) split(1) r(2) show ?thesis
      using r(1) by (auto simp: read_head.simps [of buf s] Let_def not_less)
  next
    case (Some p)
    then have "p = pos" using find_double_crlf_append [OF Some, of "sk_in s1"] 1(2) split(1) by simp
    with Some chunk r show ?thesis by (simp add: read_head.simps [of buf s] Let_def not_less)
  qed
qed

lemma pipe_replays:
  assumes "pipe_poll_read k p = (Inr bs, p')"
  shows "bs @ pipe_content p' = pipe_content p" "0 < k \<Longrightarrow> pipe_content p \<noteq> [] \<Longrightarrow> bs \<noteq> []"
  using assms by (auto simp: pipe_poll_read_def pipe_content_def read_some_def Let_def min_def split: if_splits list.splits option.splits)

section \<open>Lemmas: authentication\<close>

lemma position_split:
  "(\<exists>n. position x raw = Some n \<and> u = take n raw \<and> p = drop (n + 1) raw) \<longleftrightarrow> raw = u @ x # p \<and> x \<notin> set u"
proof (induction raw arbitrary: u)
  case (Cons y raw)
  show ?case
  proof (cases "y = x")
    case True
    then show ?thesis by (auto simp: Cons_eq_append_conv)
  next
    case False
    with Cons.IH [of "tl u"] show ?thesis by (cases u) auto
  qed
qed simp

lemma basic_credentials_iff:
  assumes "split_once (CHR '':'') line = Some (name, v)"
  shows "basic_credentials b64 v = Some (u, p) \<longleftrightarrow>
    58 \<notin> set u \<and> (\<exists>t. basic_text line = Some t \<and> b64 t = Some (u @ 58 # p))"
proof -
  have raw: "(case position 58 raw of None \<Rightarrow> None | Some pos \<Rightarrow> Some (take pos raw, drop (pos + 1) raw)) = Some (u, p) \<longleftrightarrow>
      raw = u @ 58 # p \<and> 58 \<notin> set u" for raw
    unfolding position_split [symmetric] by (auto split: option.splits)
  have "basic_credentials b64 v = Some (u, p) \<longleftrightarrow> (\<exists>t. basic_text line = Some t \<and>
      (\<exists>raw. b64 t = Some raw \<and>
        (case position 58 raw of None \<Rightarrow> None | Some pos \<Rightarrow> Some (take pos raw, drop (pos + 1) raw)) = Some (u, p)))"
  proof (cases "split_once (CHR '' '') (trim v)")
    case None
    with assms show ?thesis by (simp add: basic_credentials_def basic_text_def del: split_once_None)
  next
    case (Some sb)
    with assms show ?thesis
      by (cases sb; cases "b64 (trim (snd sb))") (simp_all add: basic_credentials_def basic_text_def del: split_once_None)
  qed
  then show ?thesis unfolding raw by blast
qed

lemma auth_lines_iff:
  "auth_lines_ok b64 ls user pass \<longleftrightarrow>
   58 \<notin> set (as_bytes user) \<and>
   (\<exists>line t. find auth_header ls = Some line \<and> basic_text line = Some t \<and> b64 t = Some (as_bytes user @ 58 # as_bytes pass))"
proof (induction ls)
  case (Cons line ls)
  show ?case
  proof (cases "auth_header line")
    case True
    then obtain name v where "split_once (CHR '':'') line = Some (name, v)"
      by (auto simp: auth_header_def split: option.splits)
    moreover from this True have "auth_lines_ok b64 (line # ls) user pass \<longleftrightarrow>
        basic_credentials b64 v = Some (as_bytes user, as_bytes pass)"
      by (auto simp: auth_header_def split: option.splits)
    ultimately show ?thesis using True by (simp add: basic_credentials_iff)
  next
    case False
    then have "auth_lines_ok b64 (line # ls) user pass = auth_lines_ok b64 ls user pass"
      by (cases "split_once (CHR '':'') line") (auto simp: auth_header_def [of line] simp del: split_once_None)
    with Cons False show ?thesis by simp
  qed
qed simp

section \<open>Lemmas: forwarding\<close>

lemma request_line_words:
  assumes "request_line head = Inr (m, target, version)"
  shows "newline \<notin> set m" "newline \<notin> set target" "newline \<notin> set version"
proof -
  have "split_whitespace (hd (split_crlf head)) = [m, target, version]"
    using assms by (auto simp: request_line_def split: list.splits if_splits)
  then have "w \<in> {m, target, version} \<Longrightarrow> newline \<notin> set w" for w
    using words_no_newline [of "[]" w "hd (split_crlf head)"] by (auto simp: split_whitespace_def)
  then show "newline \<notin> set m" "newline \<notin> set target" "newline \<notin> set version" by auto
qed

lemma forwarded_lines:
  assumes "newline \<notin> set m" "newline \<notin> set origin" "newline \<notin> set version"
  shows "split_crlf (forward_http_head head m origin version) =
    (m @ '' '' @ origin @ '' '' @ version) # filter keep_line (tl (split_crlf head)) @ [[], []]"
proof -
  have first: "split_crlf (m @ '' '' @ origin @ '' '' @ version) = [m @ '' '' @ origin @ '' '' @ version]"
    using assms by (intro no_newline_line) (simp add: newline_neq)
  have "list_all (\<lambda>l. split_crlf l = [l]) (filter keep_line (tl (split_crlf head)))"
    by (auto simp: list_all_iff intro!: split_crlf_line [of _ head] list.set_sel(2))
  then have "split_crlf (concat (map (\<lambda>l. l @ crlf) (filter keep_line (tl (split_crlf head)))) @ crlf) =
      filter keep_line (tl (split_crlf head)) @ [[], []]"
    using split_joined split_crlf_cons [of "[]" "[]"] by simp
  with split_crlf_cons [OF first] show ?thesis by (simp add: forward_http_head_def)
qed

lemma origin_newline: "newline \<notin> set s \<Longrightarrow> newline \<notin> set (origin_form s)"
  by (simp add: origin_form_def newline_neq)

lemma bind_io_InrE:
  assumes "bind_io m f s = (Inr b, s')"
  obtains a s1 where "m s = (Inr a, s1)" "f a s1 = (Inr b, s')"
  using assms unfolding bind_io_Inr by blast

lemma lift_io_InrE:
  assumes "bind_io (lift_io r) f s = (Inr b, s')"
  obtains a where "r = Inr a" "f a s = (Inr b, s')"
  using assms by (auto simp: bind_io_def split: sum.splits)

lemma check_auth_state: "check_auth b64 auth head s = (Inr x, s') \<Longrightarrow> s' = s"
  by (auto simp: check_auth_def bind_io_def try_write_def split: option.splits if_splits)

lemma open_or_reply_Inr: "open_or_reply r s = (Inr x, s') \<longleftrightarrow> r = Inr x \<and> s' = s"
  by (auto simp: open_or_reply_def bind_io_def try_write_def split: sum.splits)

lemma ok_or_Inr: "ok_or e v = Inr x \<longleftrightarrow> v = Some x"
  by (cases v) auto

lemma http_handle_forwarded:
  assumes "http_handle b64 open_tcp auth s = (Inr (Forwarded remote h rest), s')"
  obtains buf pos m target version hostport host port where
    "read_head [] s = (Inr (buf, pos), s')" "request_line (from_utf8_lossy (take pos buf)) = Inr (m, target, version)"
    "strip_prefix ''http://'' target = Some hostport"
    "parse_host_port (take (authority_end hostport) hostport) 80 = Inr (host, port)" "open_tcp host port = Inr remote"
    "h = as_bytes (forward_http_head (from_utf8_lossy (take pos buf)) m (origin_form (drop (authority_end hostport) hostport)) version)"
    "rest = drop (pos + 4) buf"
proof -
  from assms show thesis
    unfolding http_handle_def Let_def
    by (auto elim!: bind_io_InrE split: if_splits simp: open_or_reply_Inr ok_or_Inr dest!: check_auth_state) (rule that, assumption+)
qed

lemma served_drop: "buf @ r = inp \<Longrightarrow> n \<le> length buf \<Longrightarrow> drop n buf @ r = drop n inp \<and> take n inp = take n buf"
  by auto

lemma takeWhile_sep: "c \<notin> set a \<Longrightarrow> takeWhile (\<lambda>x. x \<noteq> c) (a @ c # b) = a"
  by (induction a) auto

lemma keep_line_iff: "keep_line l \<longleftrightarrow> CHR '':'' \<in> set l \<and> \<not> for_proxy l"
proof (cases "split_once (CHR '':'') l")
  case None
  then have "CHR '':'' \<notin> set l" by simp
  with None show ?thesis by (simp add: keep_line_def del: split_once_None)
next
  case (Some p)
  then obtain name v where p: "p = (name, v)" "l = name @ CHR '':'' # v" "CHR '':'' \<notin> set name"
    by (cases p) (auto simp: split_once_Some)
  have "to_ascii_lowercase ''proxy-authorization'' = ''proxy-authorization''" "to_ascii_lowercase ''proxy-connection'' = ''proxy-connection''"
    by code_simp+
  with Some p show ?thesis
    by (simp add: keep_line_def for_proxy_def takeWhile_sep eq_ignore_ascii_case_def)
qed

lemma authority_split:
  obtains "s = take (authority_end s) s @ drop (authority_end s) s" "set (take (authority_end s) s) \<inter> {CHR ''/'', CHR ''?''} = {}"
    "drop (authority_end s) s = [] \<or> hd (drop (authority_end s) s) \<in> {CHR ''/'', CHR ''?''}"
proof -
  let ?P = "\<lambda>c. c \<noteq> CHR ''/'' \<and> c \<noteq> CHR ''?''"
  have t: "take (authority_end s) s = takeWhile ?P s" "drop (authority_end s) s = dropWhile ?P s"
    unfolding authority_end_def by (simp_all add: takeWhile_eq_take [symmetric] dropWhile_eq_drop [symmetric])
  have "set (takeWhile ?P s) \<inter> {CHR ''/'', CHR ''?''} = {}" using set_takeWhileD [of _ ?P s] by blast
  moreover have "dropWhile ?P s = [] \<or> hd (dropWhile ?P s) \<in> {CHR ''/'', CHR ''?''}"
    using hd_dropWhile [of ?P s] by auto
  ultimately show thesis using that unfolding t by simp
qed

lemma origin_form_eq:
  "suffix = [] \<or> hd suffix \<in> {CHR ''/'', CHR ''?''} \<Longrightarrow> origin_form suffix = (if starts_with ''/'' suffix then suffix else ''/'' @ suffix)"
  by (cases suffix) (auto simp: origin_form_def starts_with_def)

lemma find_char_split: "find_char c s = Some i \<Longrightarrow> s = take i s @ c # drop (i + 1) s \<and> c \<notin> set (take i s)"
  by (induction s arbitrary: i) (auto split: if_splits)

lemma strip_prefix_Some: "strip_prefix p s = Some r \<longleftrightarrow> s = p @ r"
  by (auto simp: strip_prefix_def) (metis append_take_drop_id)

lemma parse_u16_Inr: "parse_u16 p = Inr port \<Longrightarrow> parse_uint 16 p = Some (unat port)"
  using parse_uint_less [of 16 p] by (auto simp: parse_u16_def unat_of_nat take_bit_nat_eq_self_iff split: option.splits)

lemma rsplit_once_Some:
  assumes "rsplit_once c s = Some (h, p)"
  shows "s = h @ c # p \<and> c \<notin> set p"
proof -
  obtain x y where xy: "split_once c (rev s) = Some (x, y)" "h = rev y" "p = rev x"
    using assms by (auto simp: rsplit_once_def split: option.splits)
  then have "rev s = x @ c # y" "c \<notin> set x" by (simp_all add: split_once_Some)
  then have "s = rev (x @ c # y)" by (metis rev_rev_ident)
  with xy \<open>c \<notin> set x\<close> show ?thesis by simp
qed

lemma one_char_split:
  assumes "length (filter (\<lambda>x. x = c) s) = 1"
  obtains h p where "s = h @ c # p" "c \<notin> set h" "c \<notin> set p"
proof -
  have "filter (\<lambda>x. x = c) s \<noteq> []" using assms by auto
  then have "c \<in> set s" by (auto simp: filter_empty_conv)
  then obtain h p where s: "s = h @ c # p" "c \<notin> set h" by (meson split_list_first)
  have "filter (\<lambda>x. x = c) h = []" using s(2) by (auto simp: filter_empty_conv)
  then have "filter (\<lambda>x. x = c) p = []" using assms s(1) by simp
  then have "c \<notin> set p" by (auto simp: filter_empty_conv)
  with s that show thesis by blast
qed

lemma bracket_target:
  assumes "strip_prefix ''['' (trim a) = Some stripped" "parse_host_port a d = Inr (host, port)"
  shows "names_target (trim a) d host port"
proof -
  have s: "trim a = ''['' @ stripped" using assms(1) by (simp add: strip_prefix_Some)
  obtain e where e: "find_char (CHR '']'') stripped = Some e"
    using assms s by (cases "find_char (CHR '']'') stripped") (simp_all add: parse_host_port_def)
  note f = find_char_split [OF e]
  let ?r = "drop (e + 1) stripped"
  have p: "(case strip_prefix '':'' ?r of None \<Rightarrow> Inr (take e stripped, d)
      | Some p \<Rightarrow> and_then (parse_u16 p) (\<lambda>port. Inr (take e stripped, port))) = Inr (host, port)"
    using assms s e by (simp add: parse_host_port_def)
  show ?thesis
  proof (cases "strip_prefix '':'' ?r")
    case None
    then have "\<not> starts_with '':'' ?r" by (simp add: strip_prefix_def starts_with_def split: if_splits)
    moreover have "host = take e stripped" "port = d" using p None by simp_all
    moreover from this have "trim a = ''['' @ host @ '']'' @ ?r" using s f by simp
    ultimately show ?thesis unfolding names_target_def using f by blast
  next
    case (Some q)
    then have q: "?r = '':'' @ q" by (simp add: strip_prefix_Some)
    have h: "host = take e stripped" "parse_u16 q = Inr port" using p Some by auto
    have "trim a = ''['' @ host @ '']:'' @ q" using s f q h by simp
    then show ?thesis unfolding names_target_def using parse_u16_Inr [OF h(2)] f h by blast
  qed
qed

lemma plain_target:
  assumes "strip_prefix ''['' (trim a) = None" "parse_host_port a d = Inr (host, port)"
  shows "names_target (trim a) d host port"
proof -
  let ?c = "CHR '':''"
  have p: "(case rsplit_once ?c (trim a) of
      Some (h, p) \<Rightarrow> if ?c \<notin> set h then and_then (parse_u16 p) (\<lambda>port. Inr (h, port)) else Inr (trim a, d)
    | None \<Rightarrow> Inr (trim a, d)) = Inr (host, port)"
    using assms by (simp add: parse_host_port_def Let_def split: if_splits)
  show ?thesis
  proof (cases "\<exists>h q. rsplit_once ?c (trim a) = Some (h, q) \<and> ?c \<notin> set h")
    case True
    then obtain h q where r: "rsplit_once ?c (trim a) = Some (h, q)" "?c \<notin> set h" by blast
    with p have "h = host" "parse_u16 q = Inr port" by auto
    with r rsplit_once_Some [OF r(1)] parse_u16_Inr show ?thesis unfolding names_target_def by auto
  next
    case False
    with p have h: "host = trim a" "port = d" by (auto split: option.splits)
    have "length (filter (\<lambda>c. c = ?c) (trim a)) \<noteq> 1"
    proof
      assume "length (filter (\<lambda>c. c = ?c) (trim a)) = 1"
      from one_char_split [OF this] obtain x y where "trim a = x @ ?c # y" "?c \<notin> set x" "?c \<notin> set y" .
      with False show False by simp
    qed
    with h show ?thesis unfolding names_target_def by blast
  qed
qed

lemma parse_host_port_names: "parse_host_port a d = Inr (host, port) \<Longrightarrow> names_target (trim a) d host port"
  using bracket_target [of a _ d host port] plain_target [of a d host port] by (cases "strip_prefix ''['' (trim a)") blast+

section \<open>Properties\<close>

text \<open>
  C20. With credentials configured, the HTTP proxy serves a request only if the first
  \<open>Proxy-Authorization\<close> header of its head is a Basic one that encodes exactly the configured user name and password; any other well-formed request is
  answered with status 407 and nothing else.
\<close>

theorem http_needs_auth:
  assumes "read_head [] s = (Inr (buf, pos), s1)" "request_line (from_utf8_lossy (take pos buf)) = Inr req"
    and "\<nexists>line t. find auth_header (tl (split_crlf (from_utf8_lossy (take pos buf)))) = Some line \<and> basic_text line = Some t \<and>
      b64 t = Some (as_bytes user @ 58 # as_bytes pass)"
  shows "http_handle b64 open_tcp (Some (user, pass)) s =
    (Inl (Bail ''proxy authentication required''), snd (write_all reply_407 s1))"
proof -
  have "\<not> proxy_auth_ok b64 (from_utf8_lossy (take pos buf)) user pass"
    unfolding proxy_auth_ok_def auth_lines_iff using assms(3) by blast
  then have c: "check_auth b64 (Some (user, pass)) (from_utf8_lossy (take pos buf)) s1 =
      (Inl (Bail ''proxy authentication required''), snd (write_all reply_407 s1))"
    by (simp add: check_auth_def bind_io_def try_write_def)
  obtain m target version where req: "req = (m, target, version)" by (cases req) auto
  have l: "lift_io (request_line (from_utf8_lossy (take pos buf))) s1 = (Inr (m, target, version), s1)"
    using assms(2) req by simp
  show ?thesis
    unfolding http_handle_def bind_io_eq(1) [of "read_head []", OF assms(1)] prod.case Let_def
      bind_io_eq(1) [of "lift_io _", OF l] bind_io_eq(2) [of "check_auth _ _ _", OF c] ..
qed

definition demo_head :: string where
  "demo_head = ''GET http://a.b/c HTTP/1.1'' @ crlf @ ''Proxy-Authorization: x'' @ crlf @ ''Host: a.b''"

definition demo_request :: sock where
  "demo_request = \<lparr>sk_in = as_bytes (demo_head @ crlf @ crlf @ ''hi''), sk_sizes = [Some 7], sk_out = [], sk_room = 5\<rparr>"

lemma demo_bytes:
  "as_bytes demo_head = [71, 69, 84, 32, 104, 116, 116, 112, 58, 47, 47, 97, 46, 98, 47, 99, 32, 72, 84, 84, 80, 47, 49, 46, 49,
     13, 10, 80, 114, 111, 120, 121, 45, 65, 117, 116, 104, 111, 114, 105, 122, 97, 116, 105, 111, 110, 58, 32, 120,
     13, 10, 72, 111, 115, 116, 58, 32, 97, 46, 98]"
  "as_bytes (crlf @ crlf @ ''hi'') = [13, 10, 13, 10, 104, 105]" "is_str demo_head"
  by code_simp+

lemma demo_lossy: "from_utf8_lossy (take 60 (sk_in demo_request)) = demo_head"
proof -
  have "take 60 (sk_in demo_request) = as_bytes demo_head" by (simp add: demo_request_def demo_bytes(1))
  then show ?thesis using lossy_str [OF demo_bytes(3)] by simp
qed

lemma demo_request_facts:
  "read_head [] demo_request = (Inr (sk_in demo_request, 60), demo_request\<lparr>sk_in := [], sk_sizes := []\<rparr>)"
  "request_line (from_utf8_lossy (take 60 (sk_in demo_request))) = Inr (''GET'', ''http://a.b/c'', ''HTTP/1.1'')"
  "tl (split_crlf (from_utf8_lossy (take 60 (sk_in demo_request)))) = [''Proxy-Authorization: x'', ''Host: a.b'']"
proof -
  have sk: "sk_in demo_request = as_bytes demo_head @ as_bytes (crlf @ crlf @ ''hi'')" by (simp add: demo_request_def)
  have "find_double_crlf (sk_in demo_request) = Some 60" "find_double_crlf (take 7 (sk_in demo_request)) = None"
    unfolding sk demo_bytes by simp_all
  moreover have "length (sk_in demo_request) = 66" "sk_sizes demo_request = [Some 7]"
    unfolding sk demo_bytes by (simp_all add: demo_request_def)
  moreover from this have "take 7 (sk_in demo_request) \<noteq> []" "drop 7 (sk_in demo_request) \<noteq> []" by auto
  ultimately show "read_head [] demo_request = (Inr (sk_in demo_request, 60), demo_request\<lparr>sk_in := [], sk_sizes := []\<rparr>)"
    by (simp add: read_head.simps read_some_def const_defs)
  show "request_line (from_utf8_lossy (take 60 (sk_in demo_request))) = Inr (''GET'', ''http://a.b/c'', ''HTTP/1.1'')"
    unfolding demo_lossy by code_simp
  show "tl (split_crlf (from_utf8_lossy (take 60 (sk_in demo_request)))) = [''Proxy-Authorization: x'', ''Host: a.b'']"
    unfolding demo_lossy by code_simp
qed

theorem http_needs_auth_witness:
  "http_handle (\<lambda>_. None) (\<lambda>h p. Inr ()) (Some (''me'', ''pw'')) demo_request =
   (Inl (Bail ''proxy authentication required''), snd (write_all reply_407 (demo_request\<lparr>sk_in := [], sk_sizes := []\<rparr>)))"
  by (rule http_needs_auth [OF demo_request_facts(1,2)]) simp


lemma demo_for_proxy: "filter (\<lambda>l. CHR '':'' \<in> set l \<and> \<not> for_proxy l) [''Proxy-Authorization: x'', ''Host: a.b''] = [''Host: a.b'']"
  by code_simp


text \<open>
  A header name with a blank before the colon is accepted as credentials for the proxy and is forwarded to the destination.
\<close>

lemma spaced_credentials_forwarded:
  "auth_header ''Proxy-Authorization : Basic bWU6cHc='' \<and> keep_line ''Proxy-Authorization : Basic bWU6cHc=''"
  by code_simp

end
