(* ===== verification/Clock.thy ===== *)
theory Clock
  imports Http_Proxy "HOL-Library.Signed_Division"
begin

text \<open>
  The calibrated clock (\<open>src/src/clock.rs\<close>): the offset to the system clock, the rounds that measure it, the query of a
  \<open>Date\<close> header and its parser. An \<open>i64\<close> is an integer; the parser bounds every component before it computes,
  and the bounds are proved to keep all values within 64 bits. The system clock, the resolver and the
  connection are arguments: a connected peer is a function from the request to the results of the reads.
\<close>

section \<open>The clock\<close>

definition SYNC_ATTEMPTS :: nat where [const_defs]: "SYNC_ATTEMPTS = 3"

text \<open>Seconds since the epoch, 0 for a system clock set before it\<close>

definition sys_secs :: "int \<Rightarrow> int" where
  "sys_secs t = (if t < 0 then 0 else t)"

definition now_unix :: "int \<Rightarrow> int \<Rightarrow> u64" where
  "now_unix t off = word_of_int (max (sys_secs t + off) 0)"

text \<open>One round: the offset of the first attempt that succeeds, the old offset when none does.\<close>

fun sync_from :: "(nat \<Rightarrow> 'e + int) \<Rightarrow> nat list \<Rightarrow> int \<Rightarrow> int" where
  "sync_from query [] off = off"
| "sync_from query (attempt # attempts) off =
     (case query attempt of
        Inr off' \<Rightarrow> off'
      | Inl e \<Rightarrow> sync_from query attempts off)"

definition sync_round :: "(nat \<Rightarrow> 'e + int) \<Rightarrow> int \<Rightarrow> int" where
  "sync_round query off = sync_from query [1..<SYNC_ATTEMPTS + 1] off"

text \<open>The offset after the given rounds of the background task\<close>

definition clock_task :: "(nat \<Rightarrow> 'e + int) list \<Rightarrow> int" where
  "clock_task rounds = foldl (\<lambda>off query. sync_round query off) 0 rounds"

section \<open>Dates\<close>

definition MONTHS :: "(string \<times> int) list" where
  "MONTHS =
     [(''Jan'', 1), (''Feb'', 2), (''Mar'', 3), (''Apr'', 4), (''May'', 5), (''Jun'', 6),
      (''Jul'', 7), (''Aug'', 8), (''Sep'', 9), (''Oct'', 10), (''Nov'', 11), (''Dec'', 12)]"

text \<open>\<open>str::parse::<i64>\<close>\<close>

definition parse_i64 :: "string \<Rightarrow> int option" where
  "parse_i64 s =
     (case s of
        [] \<Rightarrow> None
      | c # r \<Rightarrow>
          if c = CHR ''-'' then
            (if r = [] \<or> \<not> list_all is_ascii_digit r \<or> dec_value r > 2 ^ 63 then None else Some (- int (dec_value r)))
          else map_option int (parse_uint 63 s))"

text \<open>Seconds since the epoch of a date and a time of day; \<open>/\<close> and \<open>%\<close> round towards zero.\<close>

definition civil_days :: "int \<Rightarrow> int \<Rightarrow> int \<Rightarrow> int" where
  "civil_days year month day =
     (let y = (if month \<le> 2 then year - 1 else year);
          era = (if y \<ge> 0 then y else y - 399) sdiv 400;
          yoe = y - era * 400;
          mp = (month + 9) smod 12;
          doy = (153 * mp + 2) sdiv 5 + day - 1;
          doe = yoe * 365 + yoe sdiv 4 - yoe sdiv 100 + doy
      in era * 146097 + doe - 719468)"

definition parse_http_date :: "string \<Rightarrow> int option" where
  "parse_http_date s =
     (let t = split_whitespace s in
      if length t < 6 \<or> \<not> ends_with '','' (t ! 0) then None
      else
        Option.bind (parse_i64 (t ! 1)) (\<lambda>day.
        Option.bind (map_of MONTHS (t ! 2)) (\<lambda>month.
        Option.bind (parse_i64 (t ! 3)) (\<lambda>year.
          if \<not> (1 \<le> year \<and> year \<le> 9999) \<or> \<not> (1 \<le> day \<and> day \<le> 31) then None
          else
            (case split_on (CHR '':'') (t ! 4) of
               [a, b, c] \<Rightarrow>
                 Option.bind (parse_i64 a) (\<lambda>h.
                 Option.bind (parse_i64 b) (\<lambda>mi.
                 Option.bind (parse_i64 c) (\<lambda>sec.
                   if \<not> (0 \<le> h \<and> h \<le> 23) \<or> \<not> (0 \<le> mi \<and> mi \<le> 59) \<or> \<not> (0 \<le> sec \<and> sec \<le> 60) then None
                   else Some (civil_days year month day * 86400 + h * 3600 + mi * 60 + sec))))
             | _ \<Rightarrow> None)))))"

section \<open>The query\<close>

datatype clock_error = BadScheme | BadClockPort | EmptyHost | NoConnection | SendFailed | ReadFailed | NoDate | BadDate string

definition parse_time_url :: "string \<Rightarrow> clock_error + string \<times> u16 \<times> string \<times> bool" where
  "parse_time_url url =
     and_then
       (case strip_prefix ''https://'' url of
          Some r \<Rightarrow> Inr (True, r)
        | None \<Rightarrow> (case strip_prefix ''http://'' url of Some r \<Rightarrow> Inr (False, r) | None \<Rightarrow> Inl BadScheme))
       (\<lambda>(tls, rest).
     let (authority, path) = (case find_char (CHR ''/'') rest of Some i \<Rightarrow> (take i rest, drop i rest) | None \<Rightarrow> (rest, ''/'')) in
     and_then
       (case rsplit_once (CHR '':'') authority of
          Some (h, p) \<Rightarrow> (case parse_uint 16 p of Some n \<Rightarrow> Inr (h, of_nat n) | None \<Rightarrow> Inl BadClockPort)
        | None \<Rightarrow> Inr (authority, if tls then 443 else 80))
       (\<lambda>(host, port).
     if host = [] then Inl EmptyHost else Inr (host, port, path, tls)))"

definition date_request :: "string \<Rightarrow> string \<Rightarrow> string" where
  "date_request host path =
     ''HEAD '' @ path @ '' HTTP/1.1'' @ crlf @ ''Host: '' @ host @ crlf @ ''User-Agent: '' @ USER_AGENT @ crlf @
     ''Connection: close'' @ crlf @ crlf"

text \<open>The loop that reads the head: it stops at the end of the head, beyond 16 KiB, or at the end of the stream.\<close>

fun read_date_head :: "bytes \<Rightarrow> (clock_error + bytes) list \<Rightarrow> clock_error + bytes" where
  "read_date_head buf [] = Inr buf"
| "read_date_head buf (r # rs) =
     (if find_double_crlf buf \<noteq> None \<or> length buf > 16 * 1024 then Inr buf
      else (case r of
          Inl e \<Rightarrow> Inl e
        | Inr chunk \<Rightarrow> if chunk = [] then Inr buf else read_date_head (buf @ chunk) rs))"

definition date_of_line :: "string \<Rightarrow> string option" where
  "date_of_line l =
     (case split_once (CHR '':'') l of
        None \<Rightarrow> None
      | Some (k, v) \<Rightarrow> if eq_ignore_ascii_case k ''date'' then Some (trim v) else None)"

fun find_map :: "('a \<Rightarrow> 'b option) \<Rightarrow> 'a list \<Rightarrow> 'b option" where
  "find_map f [] = None"
| "find_map f (x # xs) = (case f x of Some y \<Rightarrow> Some y | None \<Rightarrow> find_map f xs)"

definition date_header :: "bytes \<Rightarrow> string option" where
  "date_header buf = find_map date_of_line (lines (from_utf8_lossy buf))"

type_synonym date_peer = "bytes \<Rightarrow> clock_error + (clock_error + bytes) list"

definition http_date_query :: "(string \<Rightarrow> u16 \<Rightarrow> bool \<Rightarrow> clock_error + date_peer) \<Rightarrow> int \<Rightarrow> string \<Rightarrow> clock_error + int" where
  "http_date_query connect sys url =
     and_then (parse_time_url url) (\<lambda>(host, port, path, tls).
     and_then (connect host port tls) (\<lambda>peer.
     and_then (peer (as_bytes (date_request host path))) (\<lambda>rs.
     and_then (read_date_head [] rs) (\<lambda>buf.
       (case date_header buf of
          None \<Rightarrow> Inl NoDate
        | Some date \<Rightarrow>
            (case parse_http_date date of
               None \<Rightarrow> Inl (BadDate date)
             | Some server_ts \<Rightarrow> Inr (server_ts - sys_secs sys)))))))"

section \<open>The calendar\<close>

text \<open>The Gregorian calendar, by counting: the days of a month and of a year, and the days from 1 January of the year 1 to a date.\<close>

definition leap :: "nat \<Rightarrow> bool" where
  "leap y \<longleftrightarrow> y mod 4 = 0 \<and> (y mod 100 \<noteq> 0 \<or> y mod 400 = 0)"

definition month_days :: "nat \<Rightarrow> nat \<Rightarrow> nat" where
  "month_days y m = (if m = 2 then (if leap y then 29 else 28) else if m \<in> {4, 6, 9, 11} then 30 else 31)"

definition day_number :: "nat \<Rightarrow> nat \<Rightarrow> nat \<Rightarrow> nat" where
  "day_number y m d =
     sum_list (map (\<lambda>y'. sum_list (map (month_days y') [1..<13])) [1..<y]) + sum_list (map (month_days y) [1..<m]) + (d - 1)"

definition unix_seconds :: "nat \<Rightarrow> nat \<Rightarrow> nat \<Rightarrow> nat \<Rightarrow> nat \<Rightarrow> nat \<Rightarrow> int" where
  "unix_seconds y m d h mi s = (int (day_number y m d) - int (day_number 1970 1 1)) * 86400 + int (h * 3600 + mi * 60 + s)"

definition valid_date :: "nat \<Rightarrow> nat \<Rightarrow> nat \<Rightarrow> nat \<Rightarrow> nat \<Rightarrow> nat \<Rightarrow> bool" where
  "valid_date y m d h mi s \<longleftrightarrow>
     1 \<le> y \<and> y \<le> 9999 \<and> 1 \<le> m \<and> m \<le> 12 \<and> 1 \<le> d \<and> d \<le> month_days y m \<and> h < 24 \<and> mi < 60 \<and> s \<le> 60"

text \<open>An IMF-fixdate\<close>

definition two_digits :: "nat \<Rightarrow> string" where
  "two_digits n = [digit_char (n div 10), digit_char (n mod 10)]"

definition imf_fixdate :: "string \<Rightarrow> nat \<Rightarrow> nat \<Rightarrow> nat \<Rightarrow> nat \<Rightarrow> nat \<Rightarrow> nat \<Rightarrow> string" where
  "imf_fixdate wd y m d h mi s =
     wd @ '', '' @ two_digits d @ '' '' @ fst (MONTHS ! (m - 1)) @ '' '' @ two_digits (y div 100) @ two_digits (y mod 100) @ '' '' @
     two_digits h @ '':'' @ two_digits mi @ '':'' @ two_digits s @ '' GMT''"

section \<open>Lemmas\<close>

lemma year_days: "sum_list (map (month_days y) [1..<13]) = (if leap y then 366 else 365)"
  by (simp add: upt_rec month_days_def)

lemma leap_mods: "(n :: nat) mod 400 = 0 \<Longrightarrow> n mod 100 = 0" "(n :: nat) mod 100 = 0 \<Longrightarrow> n mod 4 = 0"
  by (auto simp flip: dvd_eq_mod_eq_0 elim!: dvd_trans [rotated])

text \<open>The days of the first \<open>n\<close> years\<close>

definition years_days :: "nat \<Rightarrow> int" where
  "years_days n = 365 * int n + int n div 4 - int n div 100 + int n div 400"

lemma years_days_Suc: "years_days (Suc n) = years_days n + (if leap (Suc n) then 366 else 365)"
proof -
  let ?c = "\<lambda>k. if Suc n mod k = 0 then 1 else 0 :: int"
  have d: "int (Suc n) div int k = int n div int k + ?c k" for k
    by (simp add: div_Suc [of n k] flip: zdiv_int del: of_nat_Suc)
  have sums: "365 * int (Suc n) + a' - b' + c' = 365 * int n + a - b + c + l"
    if "a' = a + x" "b' = b + y" "c' = c + z" "l = 365 + x - y + z" for a a' b b' c c' x y z l :: int
    using that by simp
  have "(if leap (Suc n) then 366 else 365) = 365 + ?c 4 - ?c 100 + ?c 400"
    using leap_mods [of "Suc n"] unfolding leap_def by auto
  then show ?thesis
    unfolding years_days_def by (rule sums [OF d [of 4, simplified of_nat_numeral] d [of 100, simplified of_nat_numeral] d [of 400, simplified of_nat_numeral]])
qed

lemma years_days_sum: "int (sum_list (map (\<lambda>y. sum_list (map (month_days y) [1..<13])) [1..<Suc n])) = years_days n"
proof (induction n)
  case (Suc n)
  have "[1..<Suc (Suc n)] = [1..<Suc n] @ [Suc n]" by simp
  with Suc show ?case by (simp only: map_append sum_list_append of_nat_add) (simp add: years_days_Suc year_days [simplified])
qed (simp add: years_days_def)

lemma day_number_years: "1 \<le> y \<Longrightarrow> int (day_number y m d) = years_days (y - 1) + int (sum_list (map (month_days y) [1..<m])) + int (d - 1)"
  using years_days_sum [of "y - 1"] by (simp add: day_number_def)

lemma sdiv_pos: "a sdiv b = a div b" if "0 \<le> a" "0 < b" for a b :: int
  using that
  by (cases "a = 0") (simp_all add: signed_divide_int_def sgn_if)

lemma smod_pos: "a smod b = a mod b" if "0 \<le> a" "0 < b" for a b :: int
  using that
  by (cases "a = 0") (simp_all add: signed_modulo_int_def sgn_if)

text \<open>The era and the year of the era count the same days.\<close>

lemma era_days:
  "int n div 400 * 146097 + ((int n - int n div 400 * 400) * 365 + (int n - int n div 400 * 400) div 4 - (int n - int n div 400 * 400) div 100) = years_days n"
proof -
  define e r where "e = int n div 400" and "r = int n mod 400"
  have n: "int n = 400 * e + r" by (simp add: e_def r_def)
  have "int n div 4 = 100 * e + r div 4" "int n div 100 = 4 * e + r div 100"
    unfolding n using div_mult_self1 [of 4 r "100 * e"] div_mult_self1 [of 100 r "4 * e"] by (simp_all add: algebra_simps)
  then show ?thesis unfolding years_days_def e_def [symmetric] by (simp add: n)
qed

lemma civil_days_march:
  assumes "1 \<le> m" "1 \<le> y"
  shows "civil_days (int y) (int m) d =
    years_days (if m \<le> 2 then y - 1 else y) + (153 * ((int m + 9) mod 12) + 2) div 5 + d - 719469"
proof -
  define n where "n = (if m \<le> 2 then y - 1 else y)"
  have n: "(if int m \<le> 2 then int y - 1 else int y) = int n" using assms(2) by (simp add: n_def of_nat_diff)
  have "0 \<le> int n - int n div 400 * 400" by (simp add: minus_div_mult_eq_mod)
  then show ?thesis
    unfolding civil_days_def n n_def [symmetric] Let_def using era_days [of n] by (simp add: sdiv_pos smod_pos)
qed

lemma months_before:
  assumes "1 \<le> m" "m \<le> 12"
  shows "int (sum_list (map (month_days y) [1..<m])) =
    (153 * ((int m + 9) mod 12) + 2) div 5 + (if m \<le> 2 then - 306 else if leap y then 60 else 59)"
proof -
  have "m = 1 \<or> m = 2 \<or> m = 3 \<or> m = 4 \<or> m = 5 \<or> m = 6 \<or> m = 7 \<or> m = 8 \<or> m = 9 \<or> m = 10 \<or> m = 11 \<or> m = 12"
    using assms by arith
  then show ?thesis by (elim disjE) (simp_all add: upt_rec month_days_def)
qed

lemma civil_days_exact:
  assumes "1 \<le> y" "1 \<le> m" "m \<le> 12" "1 \<le> d"
  shows "civil_days (int y) (int m) (int d) = int (day_number y m d) - int (day_number 1970 1 1)"
proof -
  have e: "int (day_number 1970 1 1) = 719162" by (simp add: day_number_years years_days_def)
  obtain n where n: "y = Suc n" using assms(1) by (cases y) auto
  show ?thesis
    unfolding e civil_days_march [OF assms(2,1)] day_number_years [OF assms(1)] months_before [OF assms(2,3)]
    using assms(4) years_days_Suc [of n] by (simp add: n of_nat_diff)
qed

text \<open>Tokens and numbers of a date\<close>

definition date_token :: "string \<Rightarrow> bool" where
  "date_token w \<longleftrightarrow> w \<noteq> [] \<and> list_all graphic w"

lemma words_from_token: "list_all graphic w \<Longrightarrow> words_from (w @ s) cur = words_from s (cur @ w)"
proof (induction w arbitrary: cur)
  case (Cons c w)
  then show ?case using ws_len_graphic [of c "w @ s"] by (simp add: words_from.simps [of "c # w @ s"])
qed simp

lemma ws_len_space: "ws_len (CHR '' '' # s) = 1"
  by (cases "take 2 s" rule: remdups_adj.cases) (auto simp: ws_len_def numeral_3_eq_3 numeral_2_eq_2)

lemma split_whitespace_token: "date_token w \<Longrightarrow> split_whitespace (w @ CHR '' '' # s) = w # split_whitespace s"
  by (simp add: split_whitespace_def date_token_def words_from_token words_from.simps [of "CHR '' '' # s"] ws_len_space)

lemma split_whitespace_last: "date_token w \<Longrightarrow> split_whitespace w = [w]"
  using words_from_token [of w "[]" "[]"] by (simp add: split_whitespace_def date_token_def words_from.simps [of "[]"])

lemma graphic_digit [simp]: "d < 10 \<Longrightarrow> graphic (digit_char d)"
  by (simp add: graphic_def of_char_digit_char)

lemma digit_char_sign: "d < 10 \<Longrightarrow> digit_char d \<noteq> CHR ''+'' \<and> digit_char d \<noteq> CHR ''-'' \<and> digit_char d \<noteq> CHR '':''"
  using of_char_digit_char [of d] by (auto simp: is_ascii_digit_def Let_def)

lemma two_digits_token: "n < 100 \<Longrightarrow> list_all graphic (two_digits n)"
  by (simp add: two_digits_def)

lemma parse_two_digits: "n < 100 \<Longrightarrow> parse_i64 (two_digits n) = Some (int n)"
  using digit_char_sign [of "n div 10"]
  by (simp add: parse_i64_def parse_uint_def two_digits_def Let_def dec_value_def of_char_digit_char)

lemma parse_four_digits:
  assumes "y < 10000"
  shows "parse_i64 (two_digits (y div 100) @ two_digits (y mod 100)) = Some (int y)"
proof -
  have *: "parse_i64 [digit_char a, digit_char b, digit_char c, digit_char d] = Some (int (10 * (10 * (10 * a + b) + c) + d))"
    if "a < 10" "b < 10" "c < 10" "d < 10" for a b c d
    using that digit_char_sign [of a] by (simp add: parse_i64_def parse_uint_def Let_def dec_value_def of_char_digit_char)
  have "y div 100 < 100" "y mod 100 < 100" using assms by simp_all
  moreover have "10 * (10 * (10 * (q div 10) + q mod 10) + r div 10) + r mod 10 = 100 * q + r" for q r :: nat
    by simp
  ultimately show ?thesis using * [of "y div 100 div 10" "y div 100 mod 10" "y mod 100 div 10" "y mod 100 mod 10"]
    by (simp add: two_digits_def)
qed

lemma month_name:
  assumes "1 \<le> m" "m \<le> 12"
  shows "date_token (fst (MONTHS ! (m - 1)))" "map_of MONTHS (fst (MONTHS ! (m - 1))) = Some (int m)"
proof -
  have "m = 1 \<or> m = 2 \<or> m = 3 \<or> m = 4 \<or> m = 5 \<or> m = 6 \<or> m = 7 \<or> m = 8 \<or> m = 9 \<or> m = 10 \<or> m = 11 \<or> m = 12"
    using assms by arith
  then show "date_token (fst (MONTHS ! (m - 1)))" "map_of MONTHS (fst (MONTHS ! (m - 1))) = Some (int m)"
    by (elim disjE; simp add: MONTHS_def date_token_def graphic_def)+
qed

lemma digit_char_no_colon: "d < 10 \<Longrightarrow> CHR '':'' \<noteq> digit_char d"
  using of_char_digit_char [of d] by (auto dest: arg_cong [of _ _ "of_char :: char \<Rightarrow> nat"])

lemma two_digits_no_colon: "n < 100 \<Longrightarrow> CHR '':'' \<notin> set (two_digits n)"
  by (simp add: two_digits_def digit_char_no_colon)

lemma split_time:
  assumes "h < 100" "mi < 100" "s < 100"
  shows "split_on (CHR '':'') (two_digits h @ '':'' @ two_digits mi @ '':'' @ two_digits s) = [two_digits h, two_digits mi, two_digits s]"
  using assms two_digits_no_colon by simp

lemma imf_tokens:
  assumes "valid_date y m d h mi s" "date_token wd"
  shows "split_whitespace (imf_fixdate wd y m d h mi s) =
    [wd @ '','', two_digits d, fst (MONTHS ! (m - 1)), two_digits (y div 100) @ two_digits (y mod 100),
     two_digits h @ '':'' @ two_digits mi @ '':'' @ two_digits s, ''GMT'']"
proof -
  have d: "d < 100" "y div 100 < 100" "y mod 100 < 100" "h < 100" "mi < 100" "s < 100"
    using assms(1) by (auto simp: valid_date_def month_days_def split: if_splits)
  have "date_token (wd @ '','')" using assms(2) by (simp add: date_token_def graphic_def)
  moreover have "date_token (fst (MONTHS ! (m - 1)))" using assms(1) month_name by (simp add: valid_date_def)
  moreover have "date_token (two_digits d)" "date_token (two_digits (y div 100) @ two_digits (y mod 100))"
      "date_token (two_digits h @ '':'' @ two_digits mi @ '':'' @ two_digits s)" "date_token ''GMT''"
    using d two_digits_token by (auto simp: date_token_def graphic_def) (auto simp: two_digits_def)
  ultimately have "split_whitespace ((wd @ '','') @ CHR '' '' # two_digits d @ CHR '' '' # fst (MONTHS ! (m - 1)) @ CHR '' '' #
      (two_digits (y div 100) @ two_digits (y mod 100)) @ CHR '' '' # (two_digits h @ '':'' @ two_digits mi @ '':'' @ two_digits s) @ CHR '' '' # ''GMT'') =
    [wd @ '','', two_digits d, fst (MONTHS ! (m - 1)), two_digits (y div 100) @ two_digits (y mod 100),
     two_digits h @ '':'' @ two_digits mi @ '':'' @ two_digits s, ''GMT'']"
    by (simp only: split_whitespace_token split_whitespace_last)
  then show ?thesis by (simp add: imf_fixdate_def)
qed

text \<open>The head is read whole, however it is cut into reads and whatever follows it.\<close>

lemma read_date_head_whole:
  assumes "find_double_crlf (buf @ concat chunks) = Some pos" "length (buf @ concat chunks) = pos + 4" "pos + 4 \<le> 16 * 1024" "[] \<notin> set chunks"
  shows "read_date_head buf (map Inr chunks @ rs) = Inr (buf @ concat chunks)"
  using assms
proof (induction chunks arbitrary: buf)
  case Nil
  then show ?case by (cases rs) auto
next
  case (Cons c chunks)
  have "find_double_crlf buf = None"
  proof (rule ccontr)
    assume "find_double_crlf buf \<noteq> None"
    then obtain p where "find_double_crlf buf = Some p" by auto
    from find_double_crlf_append [OF this, of "concat (c # chunks)"] Cons.prems(1) have "pos + 4 \<le> length buf" by auto
    moreover have "length buf + length c + length (concat chunks) = pos + 4" using Cons.prems(2) by simp
    ultimately have "length c = 0" by linarith
    with Cons.prems(4) show False by simp
  qed
  moreover have "length buf \<le> 16 * 1024" using Cons.prems by simp
  ultimately show ?case using Cons.IH [of "buf @ c"] Cons.prems by auto
qed

lemma sync_from_first:
  assumes "list_all (\<lambda>j. \<exists>e. query j = Inl e) as" "query k = Inr off'"
  shows "sync_from query (as @ k # bs) off = off'"
  using assms by (induction as) auto

lemma sync_round_first:
  assumes "1 \<le> k" "k \<le> SYNC_ATTEMPTS" "\<And>j. 1 \<le> j \<Longrightarrow> j < k \<Longrightarrow> \<exists>e. query j = Inl e" "query k = Inr off'"
  shows "sync_round query off = off'"
proof -
  have "[1..<SYNC_ATTEMPTS + 1] = [1..<k] @ k # [Suc k..<SYNC_ATTEMPTS + 1]"
    using assms(1,2) upt_add_eq_append [of 1 k "SYNC_ATTEMPTS + 1 - k"] by (simp add: upt_conv_Cons)
  then show ?thesis unfolding sync_round_def using sync_from_first [of query "[1..<k]" k off'] assms(3,4) by (simp add: list_all_iff)
qed

lemma sync_round_fails: "(\<And>j. 1 \<le> j \<Longrightarrow> j \<le> SYNC_ATTEMPTS \<Longrightarrow> \<exists>e. query j = Inl e) \<Longrightarrow> sync_round query off = off"
proof -
  have "list_all (\<lambda>j. \<exists>e. query j = Inl e) as \<Longrightarrow> sync_from query as off = off" for as by (induction as) auto
  then show "sync_round query off = off" if "\<And>j. 1 \<le> j \<Longrightarrow> j \<le> SYNC_ATTEMPTS \<Longrightarrow> \<exists>e. query j = Inl e"
    using that by (simp add: sync_round_def list_all_iff)
qed

lemma years_days_bounds: "0 \<le> years_days n" "years_days n \<le> 366 * int n"
proof -
  have "int n div 100 \<le> int n" "int n div 400 \<le> int n div 100" by (auto intro: zdiv_mono2 order_trans [OF zdiv_mono2 [of _ 1]])
  moreover have "0 \<le> int n div 4" "0 \<le> int n div 400" "int n div 4 \<le> int n" by simp_all
  ultimately show "0 \<le> years_days n" "years_days n \<le> 366 * int n" unfolding years_days_def by linarith+
qed

lemma civil_days_bounds:
  assumes "1 \<le> year" "year \<le> 9999" "1 \<le> day" "day \<le> 31" "1 \<le> month \<and> month \<le> 12"
  shows "-800000 \<le> civil_days year month day \<and> civil_days year month day \<le> 4000000"
proof -
  define y m where "y = nat year" and "m = nat month"
  have ym: "year = int y" "month = int m" "1 \<le> m" "1 \<le> y" using assms by (auto simp: y_def m_def)
  define n where "n = (if m \<le> 2 then y - 1 else y)"
  have "int n \<le> 9999" using ym assms(2) by (auto simp: n_def)
  moreover have "0 \<le> (153 * ((int m + 9) mod 12) + 2) div 5" "(153 * ((int m + 9) mod 12) + 2) div 5 \<le> 338" by simp_all
  ultimately show ?thesis
    unfolding ym(1,2) civil_days_march [OF ym(3,4)] n_def [symmetric] using years_days_bounds [of n] assms(3,4) by linarith
qed

text \<open>The components of an accepted date keep the arithmetic far within 64 bits.\<close>

lemma parse_http_date_bounds:
  assumes "parse_http_date s = Some ts"
  shows "\<bar>ts\<bar> < 2 ^ 39"
proof -
  have "\<bar>civil_days year month day * 86400 + h * 3600 + mi * 60 + sec\<bar> < 2 ^ 39"
    if "map_of MONTHS w = Some month" "1 \<le> year" "year \<le> 9999" "1 \<le> day" "day \<le> 31"
      "0 \<le> h" "h \<le> 23" "0 \<le> mi" "mi \<le> 59" "0 \<le> sec" "sec \<le> 60" for w year month day h mi sec
  proof -
    have "1 \<le> month \<and> month \<le> 12" using map_of_SomeD [OF that(1)] by (auto simp: MONTHS_def)
    from civil_days_bounds [OF that(2-5) this] that(6-11) show ?thesis by auto
  qed
  with assms show ?thesis
    unfolding parse_http_date_def Let_def by (auto split: if_splits bind_splits list.splits)
qed

lemma parse_date_exact:
  assumes "valid_date y m d h mi s" "date_token wd"
  shows "parse_http_date (imf_fixdate wd y m d h mi s) = Some (unix_seconds y m d h mi s)"
proof -
  have v: "1 \<le> y" "y \<le> 9999" "1 \<le> m" "m \<le> 12" "1 \<le> d" "d \<le> 31" "h < 24" "mi < 60" "s \<le> 60"
    using assms(1) by (auto simp: valid_date_def month_days_def split: if_splits)
  have "ends_with '','' (wd @ '','')" by (simp add: ends_with_def)
  then show ?thesis
    using v civil_days_exact [OF v(1,3,4,5)] month_name(2) [OF v(3,4)] parse_four_digits [of y] split_time [of h mi s]
    unfolding parse_http_date_def imf_tokens [OF assms] Let_def
    by (simp add: parse_two_digits unix_seconds_def del: append.simps)
qed

text \<open>Days that a month does not have and other zones than GMT are accepted.\<close>

lemma lenient_date: "parse_http_date ''Foo, 31 Feb 2026 00:00:00 PST'' = Some (unix_seconds 2026 3 3 0 0 0)"
proof -
  have "split_whitespace ''Foo, 31 Feb 2026 00:00:00 PST'' = [''Foo,'', ''31'', ''Feb'', ''2026'', ''00:00:00'', ''PST'']" "ends_with '','' ''Foo,''"
      "split_on (CHR '':'') ''00:00:00'' = [''00'', ''00'', ''00'']"
      "map_of MONTHS ''Feb'' = Some 2"
    by code_simp+
  moreover have "parse_i64 ''31'' = Some 31" "parse_i64 ''2026'' = Some 2026" "parse_i64 ''00'' = Some 0"
    by (simp_all add: parse_i64_def parse_uint_def Let_def is_ascii_digit_def dec_value_def)
  moreover have "civil_days 2026 2 31 = civil_days (int 2026) (int 3) (int 3)" by (simp add: civil_days_def sdiv_pos smod_pos)
  ultimately show ?thesis
    using civil_days_exact [of 2026 3 3] by (simp only: parse_http_date_def Let_def) (simp add: unix_seconds_def)
qed

section \<open>A response\<close>

definition demo_response :: bytes where
  "demo_response = as_bytes (''HTTP/1.1 200 OK'' @ crlf @ ''Date: Sat, 29 Feb 2020 12:00:00 GMT'' @ crlf @ crlf)"

lemma demo_date: "imf_fixdate ''Sat'' 2020 2 29 12 0 0 = ''Sat, 29 Feb 2020 12:00:00 GMT''" "unix_seconds 2020 2 29 12 0 0 = 1582977600"
  by code_simp (simp add: unix_seconds_def day_number_years years_days_def upt_rec month_days_def)

lemma demo_head_end: "find_double_crlf demo_response = Some 52" "length demo_response = 56"
  by code_simp+

lemma demo_header: "date_header demo_response = Some (imf_fixdate ''Sat'' 2020 2 29 12 0 0)"
  by code_simp

section \<open>Properties\<close>

text \<open>
  C28. The parser of dates is exact. An IMF-fixdate of a valid date of the years 1 to 9999 and a time of day parses to its seconds since 1 January 1970 in the
  Gregorian calendar, leap days and centuries included, counted day by day.
\<close>

theorem http_date_exact:
  "valid_date y m d h mi s \<Longrightarrow> date_token wd \<Longrightarrow> parse_http_date (imf_fixdate wd y m d h mi s) = Some (unix_seconds y m d h mi s)"
  by (rule parse_date_exact)

theorem http_date_exact_witness:
  "parse_http_date ''Sat, 29 Feb 2020 12:00:00 GMT'' = Some 1582977600"
proof -
  have "valid_date 2020 2 29 12 0 0" "date_token ''Sat''"
    by (simp_all add: valid_date_def month_days_def leap_def date_token_def graphic_def)
  from http_date_exact [OF this] demo_date show ?thesis by simp
qed

text \<open>
  C27. A round of calibration sets the clock to the server's time. When an attempt of the round gets a response whose first \<open>Date\<close> header is an IMF-fixdate,
  then however the head is cut into reads, whatever the offset was and however wrong the system clock is, the clock reads the date's seconds
  plus the time the system clock has advanced since.
\<close>

theorem clock_synced:
  assumes "parse_time_url url = Inr (host, port, path, tls)" "connect host port tls = Inr peer"
    and "peer (as_bytes (date_request host path)) = Inr (map Inr chunks @ rs)" "[] \<notin> set chunks"
    and "find_double_crlf (concat chunks) = Some pos" "length (concat chunks) = pos + 4" "pos + 4 \<le> 16 * 1024"
    and "date_header (concat chunks) = Some (imf_fixdate wd y m d h mi s)" "valid_date y m d h mi s" "date_token wd"
    and "1 \<le> k" "k \<le> SYNC_ATTEMPTS" "\<And>j. 1 \<le> j \<Longrightarrow> j < k \<Longrightarrow> \<exists>e. query j = Inl e"
    and "query k = http_date_query connect t url" "0 \<le> t" "0 \<le> dt" "0 \<le> unix_seconds y m d h mi s"
  shows "now_unix (t + dt) (sync_round query off) = word_of_int (unix_seconds y m d h mi s + dt)"
proof -
  have "read_date_head [] (map Inr chunks @ rs) = Inr (concat chunks)"
    using read_date_head_whole [of "[]" chunks pos] assms(4-7) by simp
  then have "http_date_query connect t url = Inr (unix_seconds y m d h mi s - sys_secs t)"
    using assms(1-3,8) parse_date_exact [OF assms(9,10)] by (simp add: http_date_query_def)
  then have "sync_round query off = unix_seconds y m d h mi s - sys_secs t"
    using sync_round_first [OF assms(11-13)] assms(14) by simp
  then show ?thesis using assms(15-17) by (simp add: now_unix_def sys_secs_def)
qed

theorem clock_synced_witness:
  "now_unix 1005 (sync_round (\<lambda>_. http_date_query (\<lambda>host port tls. Inr (\<lambda>req. Inr [Inr demo_response, Inl ReadFailed])) 1000 ''http://t'') 7) =
   word_of_int 1582977605"
proof -
  have "parse_time_url ''http://t'' = Inr (''t'', 80, ''/'', False)" by code_simp
  moreover have "valid_date 2020 2 29 12 0 0" "date_token ''Sat''" "unix_seconds 2020 2 29 12 0 0 = 1582977600"
    using demo_date by (simp_all add: valid_date_def month_days_def leap_def date_token_def graphic_def)
  moreover have "find_double_crlf (concat [demo_response]) = Some 52" "length (concat [demo_response]) = 52 + 4"
      "date_header (concat [demo_response]) = Some (imf_fixdate ''Sat'' 2020 2 29 12 0 0)" "[] \<notin> set [demo_response]"
    using demo_head_end demo_header by (auto dest: arg_cong [of _ _ length])
  ultimately have "now_unix (1000 + 5) (sync_round (\<lambda>_. http_date_query (\<lambda>host port tls. Inr (\<lambda>req. Inr [Inr demo_response, Inl ReadFailed])) 1000 ''http://t'') 7) =
      word_of_int (unix_seconds 2020 2 29 12 0 0 + 5)"
    by (intro clock_synced [where chunks = "[demo_response]" and rs = "[Inl ReadFailed]" and k = 1]) (auto simp: const_defs)
  then show ?thesis unfolding demo_date by simp
qed

end
