(* ===== verification/Health.thy ===== *)
theory Health
  imports Clock
begin

text \<open>
  The health endpoint and the \<open>healthcheck\<close> subcommand that queries it (\<open>src/src/health.rs\<close>), and the transport label of the server
  (\<open>src/src/server/mod.rs\<close>). Instants are milliseconds; the resolver and the connection are arguments, a connected peer
  being a function from the request to the results of the reads.
\<close>

section \<open>The snapshot\<close>

datatype ('p, 'h) source =
    Source_Server server_state string
  | Source_Client "('p, 'h) outbound"

record ('p, 'h) health =
  h_started :: nat
  h_source :: "('p, 'h) source"

text \<open>The label \<open>run_with_shutdown\<close> gives the server\<close>

definition server_transport :: "server_cfg \<Rightarrow> string" where
  "server_transport cfg =
     (case (sc_listen cfg \<noteq> None, sc_fallback_listen cfg \<noteq> None \<or> sc_http_listen cfg \<noteq> None) of
        (True, True) \<Rightarrow> ''mixed''
      | (True, False) \<Rightarrow> ''wt''
      | (False, True) \<Rightarrow> ''fallback''
      | (False, False) \<Rightarrow> ''none'')"

definition health_transport :: "('p, 'h) health \<Rightarrow> string" where
  "health_transport h =
     (case h_source h of
        Source_Server st transport \<Rightarrow> transport
      | Source_Client ob \<Rightarrow> (case ob of Wt _ \<Rightarrow> ''wt'' | Http _ \<Rightarrow> ''fallback'' | Both _ _ _ \<Rightarrow> ''mixed''))"

definition health_circuit :: "nat \<Rightarrow> ('p, 'h) health \<Rightarrow> string" where
  "health_circuit now h =
     (case h_source h of
        Source_Server _ _ \<Rightarrow> ''closed''
      | Source_Client ob \<Rightarrow> (case ob of Both _ _ cb \<Rightarrow> if \<not> can_try now cb then ''open'' else ''closed'' | _ \<Rightarrow> ''closed''))"

definition quote :: char where "quote = CHR 0x22"

definition json_field :: "string \<Rightarrow> string \<Rightarrow> string" where
  "json_field k v = quote # k @ quote # '':'' @ v"

definition json_string :: "string \<Rightarrow> string" where
  "json_string s = quote # s @ [quote]"

text \<open>What \<open>note_fallback\<close> stores in \<open>LAST_FALLBACK_MILLIS\<close> at a system time in milliseconds\<close>

definition note_fallback :: "int \<Rightarrow> int" where
  "note_fallback t = (if t < 0 then 0 else t)"

definition show_i64 :: "int \<Rightarrow> string" where
  "show_i64 n = (if n < 0 then CHR ''-'' # show_dec (nat (- n)) else show_dec (nat n))"

text \<open>\<open>millis\<close> is the value of \<open>LAST_FALLBACK_MILLIS\<close>; \<open>now\<close> and \<open>now'\<close> are the readings of the clock by the uptime and by the breaker.\<close>

definition snapshot :: "nat \<Rightarrow> nat \<Rightarrow> int \<Rightarrow> ('p, 'h) health \<Rightarrow> string" where
  "snapshot now now' millis h =
     (let uptime = (now - h_started h) div 1000;
          (active_sessions, wt_conns) =
            (case h_source h of
               Source_Server st _ \<Rightarrow> (unat (st_active_sessions st), length (st_conns st))
             | Source_Client _ \<Rightarrow> (0, 0));
          last_fallback_at = (if millis = 0 then ''null'' else show_i64 millis)
      in ''{'' @ json_field ''uptime'' (show_dec uptime) @ '','' @
         json_field ''active_sessions'' (show_dec active_sessions) @ '','' @
         json_field ''wt_conns'' (show_dec wt_conns) @ '','' @
         json_field ''transport'' (json_string (health_transport h)) @ '','' @
         json_field ''circuit'' (json_string (health_circuit now' h)) @ '','' @
         json_field ''last_fallback_at'' last_fallback_at @ ''}'')"

text \<open>The status, the headers and the body of the answer\<close>

definition healthz :: "nat \<Rightarrow> nat \<Rightarrow> int \<Rightarrow> ('p, 'h) health \<Rightarrow> nat \<times> (string \<times> string) list \<times> string" where
  "healthz now now' millis h =
     (200, [(''content-type'', ''application/json''), (''cache-control'', ''no-store'')], snapshot now now' millis h)"

section \<open>The check\<close>

datatype health_error =
    NotHttpUrl
  | BadHealthPort
  | NeedsHost
  | HealthConnect
  | HealthWrite
  | HealthRead
  | ResponseTooLarge
  | BadStatus string
  | NoSnapshot

definition MAX_RESP :: nat where [const_defs]: "MAX_RESP = 64 * 1024"

definition parse_health_url :: "string \<Rightarrow> health_error + string \<times> u16 \<times> string" where
  "parse_health_url url =
     (case strip_prefix ''http://'' url of
        None \<Rightarrow> Inl NotHttpUrl
      | Some rest \<Rightarrow>
          let (hostport, path0) = (case split_once (CHR ''/'') rest of Some (h, p) \<Rightarrow> (h, CHR ''/'' # p) | None \<Rightarrow> (rest, ''/''));
              path = (if path0 = ''/'' then ''/healthz'' else path0) in
          and_then
            (case rsplit_once (CHR '':'') hostport of
               Some (h, p) \<Rightarrow> (case parse_uint 16 p of Some n \<Rightarrow> Inr (h, of_nat n) | None \<Rightarrow> Inl BadHealthPort)
             | None \<Rightarrow> Inr (hostport, 80))
            (\<lambda>(host, port). if host = [] then Inl NeedsHost else Inr (trim host, port, path)))"

definition health_request :: "string \<Rightarrow> u16 \<Rightarrow> string \<Rightarrow> string" where
  "health_request host port path =
     (let target = host @ '':'' @ show_dec (unat port);
          host_header = (if port = 80 then host else target)
      in ''GET '' @ path @ '' HTTP/1.1'' @ crlf @ ''Host: '' @ host_header @ crlf @ ''User-Agent: newppp-healthcheck/1'' @ crlf @
         ''Connection: close'' @ crlf @ crlf)"

fun read_response :: "bytes \<Rightarrow> (health_error + bytes) list \<Rightarrow> health_error + bytes" where
  "read_response resp [] = Inr resp"
| "read_response resp (Inl e # rs) = Inl e"
| "read_response resp (Inr chunk # rs) =
     (if chunk = [] then Inr resp
      else if length (resp @ chunk) > MAX_RESP then Inl ResponseTooLarge
      else read_response (resp @ chunk) rs)"

definition snapshot_of_response :: "string \<Rightarrow> health_error + string" where
  "snapshot_of_response t =
     (let status = (case lines t of [] \<Rightarrow> [] | l # _ \<Rightarrow> l) in
      if \<not> contains_str '' 200 '' status then Inl (BadStatus status)
      else if \<not> contains_str ''uptime'' t then Inl NoSnapshot
      else
        Inr (case find (starts_with ''{'') (filter (\<lambda>l. l \<noteq> []) (lines t)) of Some l \<Rightarrow> l | None \<Rightarrow> []))"

type_synonym health_peer = "bytes \<Rightarrow> health_error + (health_error + bytes) list"

definition healthcheck_once :: "(string \<Rightarrow> health_error + health_peer) \<Rightarrow> string \<Rightarrow> health_error + string" where
  "healthcheck_once connect url =
     and_then (parse_health_url url) (\<lambda>(host, port, path).
     and_then (connect (host @ '':'' @ show_dec (unat port))) (\<lambda>peer.
     and_then (peer (as_bytes (health_request host port path))) (\<lambda>rs.
     and_then (read_response [] rs) (\<lambda>resp.
       snapshot_of_response (from_utf8_lossy resp)))))"

definition healthcheck :: "(string \<Rightarrow> health_error + health_peer) \<Rightarrow> string \<Rightarrow> int" where
  "healthcheck connect url = (case healthcheck_once connect url of Inr _ \<Rightarrow> 0 | Inl _ \<Rightarrow> 1)"

section \<open>Abstract view\<close>

text \<open>A response on the wire: the status line, the header lines, an empty line and the body.\<close>

definition response_text :: "string \<Rightarrow> string list \<Rightarrow> string \<Rightarrow> string" where
  "response_text status hs body = status @ crlf @ concat (map (\<lambda>l. l @ crlf) hs) @ crlf @ body"

definition plain_line :: "string \<Rightarrow> bool" where
  "plain_line l \<longleftrightarrow> list_all (\<lambda>c. of_char c < (128 :: nat) \<and> of_char c \<noteq> (10 :: nat)) l"

section \<open>Lemmas\<close>

lemma plain_line_append [simp]: "plain_line (a @ b) \<longleftrightarrow> plain_line a \<and> plain_line b"
  by (simp add: plain_line_def)

lemma plain_line_Cons [simp]: "plain_line (c # a) \<longleftrightarrow> of_char c < (128 :: nat) \<and> of_char c \<noteq> (10 :: nat) \<and> plain_line a"
  by (simp add: plain_line_def)

lemma plain_line_Nil [simp]: "plain_line []"
  by (simp add: plain_line_def)

lemma plain_show_dec [simp]: "plain_line (show_dec n)"
  using show_dec_digits [of n] by (auto simp: plain_line_def list_all_iff is_ascii_digit_def Let_def)

lemma plain_transport: "h_source h = Source_Server st (server_transport cfg) \<or> h_source h = Source_Client ob \<Longrightarrow> plain_line (health_transport h)"
  by (auto simp: health_transport_def server_transport_def split: outbound.splits bool.splits)

lemma plain_circuit: "plain_line (health_circuit now h)"
  by (auto simp: health_circuit_def split: source.splits outbound.splits)

lemma plain_snapshot:
  assumes "plain_line (health_transport h)"
  shows "plain_line (snapshot now now' millis h)"
  using assms plain_circuit [of now' h]
  by (auto simp: snapshot_def json_field_def json_string_def quote_def show_i64_def Let_def split: prod.splits)

lemma snapshot_shape: "\<exists>s. snapshot now now' millis h = ''{'' @ [quote] @ ''uptime'' @ s"
  by (auto simp: snapshot_def json_field_def Let_def split: prod.splits)

lemma lines_line: "newline \<notin> set l \<Longrightarrow> lines (l @ crlf @ r) = l # lines r"
proof -
  assume "newline \<notin> set l"
  then have "split_on newline ((l @ [carriage_return]) @ newline # r) = (l @ [carriage_return]) # split_on newline r"
    by (intro split_on_sep) (auto simp: newline_def carriage_return_def)
  moreover have "split_on newline r \<noteq> []" by (induction r) (auto split: list.splits)
  ultimately show ?thesis by (simp add: lines_def crlf_def strip_cr_def Let_def)
qed

lemma lines_last: "newline \<notin> set l \<Longrightarrow> l \<noteq> [] \<Longrightarrow> lines l = [l]"
  by (simp add: lines_def)

lemma plain_no_newline: "plain_line l \<Longrightarrow> newline \<notin> set l"
  by (auto simp: plain_line_def list_all_iff newline_def)

lemma lines_response:
  assumes "plain_line status" "list_all plain_line hs" "plain_line body" "body \<noteq> []"
  shows "lines (response_text status hs body) = status # hs @ [[], body]"
proof -
  have body: "lines (crlf @ body) = [[], body]"
    using lines_line [of "[]" body] lines_last [OF plain_no_newline [OF assms(3)] assms(4)] by simp
  have "lines (concat (map (\<lambda>l. l @ crlf) hs) @ crlf @ body) = hs @ [[], body]"
    using assms(2) by (induction hs) (auto simp: body lines_line plain_no_newline)
  then show ?thesis using lines_line [OF plain_no_newline [OF assms(1)]] by (simp add: response_text_def)
qed

lemma response_is_str:
  assumes "plain_line status" "list_all plain_line hs" "plain_line body"
  shows "is_str (response_text status hs body)"
proof (rule ascii_is_str)
  have "list_all (\<lambda>c. of_char c < (128 :: nat)) l" if "plain_line l" for l using that by (simp add: plain_line_def list_all_iff)
  moreover have "list_all (\<lambda>c. of_char c < (128 :: nat)) crlf" by (simp add: crlf_def newline_def carriage_return_def)
  ultimately show "list_all (\<lambda>c. of_char c < (128 :: nat)) (response_text status hs body)"
    using assms by (fastforce simp: response_text_def list_all_iff)
qed

lemma contains_str_mid: "contains_str p (a @ p @ b)"
proof (induction a)
  case Nil
  show ?case
  proof (cases "p @ b")
    case (Cons c r)
    have "starts_with p (p @ b)" by simp
    then show ?thesis unfolding append_Nil Cons by simp
  qed simp
qed simp

lemma read_response_whole:
  "[] \<notin> set chunks \<Longrightarrow> length (buf @ concat chunks) \<le> MAX_RESP \<Longrightarrow> read_response buf (map Inr chunks) = Inr (buf @ concat chunks)"
  by (induction chunks arbitrary: buf) auto

lemma read_response_bounded: "read_response buf rs = Inr resp \<Longrightarrow> length buf \<le> MAX_RESP \<Longrightarrow> length resp \<le> MAX_RESP"
  by (induction buf rs rule: read_response.induct) (auto split: if_splits)

text \<open>Any other status than 200 is unhealthy.\<close>

lemma bad_status_unhealthy:
  assumes "lines t = status # ls" "\<not> contains_str '' 200 '' status"
  shows "snapshot_of_response t = Inl (BadStatus status)"
  using assms by (simp add: snapshot_of_response_def)

lemma circuit_open_iff:
  "health_circuit now h = ''open'' \<longleftrightarrow> (\<exists>p f cb. h_source h = Source_Client (Both p f cb) \<and> breaker_is_open now cb)"
  by (auto simp: health_circuit_def breaker_is_open_def split: source.splits outbound.splits)

lemma find_snapshot:
  assumes "list_all (\<lambda>l. \<not> starts_with ''{'' l) ls" "starts_with ''{'' body"
  shows "find (starts_with ''{'') (filter (\<lambda>l. l \<noteq> []) (ls @ [[], body])) = Some body"
  using assms by (induction ls) (auto simp: starts_with_def)

lemma response_accepted:
  assumes "list_all plain_line hs" "list_all (\<lambda>l. \<not> starts_with ''{'' l) hs" "plain_line body" "body = ''{'' @ [quote] @ ''uptime'' @ r"
  shows "snapshot_of_response (response_text ''HTTP/1.1 200 OK'' hs body) = Inr body"
proof -
  let ?s = "''HTTP/1.1 200 OK''"
  have l: "lines (response_text ?s hs body) = (?s # hs) @ [[], body]"
    using lines_response [of ?s hs body] assms by simp
  have "contains_str '' 200 '' ?s" using contains_str_mid [of "'' 200 ''" "''HTTP/1.1''" "''OK''"] by simp
  moreover have "contains_str ''uptime'' (response_text ?s hs body)"
    using contains_str_mid [of "''uptime''" "?s @ crlf @ concat (map (\<lambda>l. l @ crlf) hs) @ crlf @ ''{'' @ [quote]" r]
    by (simp only: response_text_def assms(4) append_assoc)
  moreover have "list_all (\<lambda>l. \<not> starts_with ''{'' l) (?s # hs)" "starts_with ''{'' body"
    using assms(2,4) by (simp_all add: starts_with_def)
  ultimately show ?thesis
    unfolding snapshot_of_response_def l Let_def using find_snapshot [of "?s # hs" body] by simp
qed

section \<open>Properties\<close>

text \<open>
  C37. A healthy process passes its own check. When the peer that the check connects to answers the request with status 200 and the snapshot of a
  server or client as its body, then however the response is cut into reads and whatever its other header lines are, the check returns exactly
  that snapshot and exits with 0.
\<close>

theorem healthcheck_sees_snapshot:
  assumes "parse_health_url url = Inr (host, port, path)" "connect (host @ '':'' @ show_dec (unat port)) = Inr peer"
    and "peer (as_bytes (health_request host port path)) = Inr (map Inr chunks)" "[] \<notin> set chunks"
    and "concat chunks = as_bytes (response_text ''HTTP/1.1 200 OK'' hs (snapshot now now' millis h))" "length (concat chunks) \<le> MAX_RESP"
    and "list_all plain_line hs" "list_all (\<lambda>l. \<not> starts_with ''{'' l) hs"
    and "h_source h = Source_Server st (server_transport cfg) \<or> h_source h = Source_Client ob"
  shows "healthcheck_once connect url = Inr (snapshot now now' millis h) \<and> healthcheck connect url = 0"
proof -
  let ?body = "snapshot now now' millis h" and ?s = "''HTTP/1.1 200 OK''"
  obtain r where body: "?body = ''{'' @ [quote] @ ''uptime'' @ r" using snapshot_shape by blast
  have plain: "plain_line ?body" using plain_snapshot [OF plain_transport [OF assms(9)]] by blast
  have "read_response [] (map Inr chunks) = Inr (as_bytes (response_text ?s hs ?body))"
    using read_response_whole [of chunks "[]"] assms(4,5,6) by simp
  moreover have "from_utf8_lossy (as_bytes (response_text ?s hs ?body)) = response_text ?s hs ?body"
    using response_is_str [of ?s hs ?body] assms(7) plain by (intro lossy_str) simp
  ultimately have "healthcheck_once connect url = Inr ?body"
    using assms(1-3) response_accepted [OF assms(7,8) plain body] by (simp add: healthcheck_once_def)
  then show ?thesis by (simp add: healthcheck_def)
qed

theorem healthcheck_sees_snapshot_witness:
  "let h = \<lparr>h_started = 0, h_source = Source_Client (Http ())\<rparr> :: (unit, unit) health in
   healthcheck_once (\<lambda>_. Inr (\<lambda>_. Inr [Inr (as_bytes (response_text ''HTTP/1.1 200 OK'' [''x: y''] (snapshot 5000 5000 0 h)))])) ''http://h'' =
     Inr (snapshot 5000 5000 0 h)"
proof -
  let ?h = "\<lparr>h_started = 0, h_source = Source_Client (Http ())\<rparr> :: (unit, unit) health"
  let ?t = "response_text ''HTTP/1.1 200 OK'' [''x: y''] (snapshot 5000 5000 0 ?h)"
  have url: "parse_health_url ''http://h'' = Inr (''h'', 80, ''/healthz'')" by code_simp
  have n: "length (snapshot 5000 5000 0 ?h) \<le> 200"
    by (simp add: snapshot_def json_field_def json_string_def health_transport_def health_circuit_def show_dec.simps)
  have len: "length (concat [as_bytes ?t]) \<le> MAX_RESP" and ne: "[] \<notin> set [as_bytes ?t]"
    using n by (auto simp: response_text_def as_bytes_def const_defs crlf_def)
  show ?thesis
    using healthcheck_sees_snapshot [OF url, where connect = "\<lambda>_. Inr (\<lambda>_. Inr [Inr (as_bytes ?t)])" and chunks = "[as_bytes ?t]" and h = ?h
        and hs = "[''x: y'']" and now = 5000 and now' = 5000 and millis = 0] len ne
    by (simp add: starts_with_def)
qed

end
