(* ===== verification/Entry.thy ===== *)
theory Entry
  imports Client_Pool Health
begin

text \<open>
  The entry points: the assembly of the arguments and the choice of the mode (\<open>src/src/main.rs\<close>), the start of the server
  (\<open>src/src/server/mod.rs\<close>) and of the client (\<open>src/src/client/mod.rs\<close>), the pinned certificate and the fixed resolvers
  (\<open>src/src/client/tls.rs\<close>), and the tuning hint of \<open>src/src/quic_tune.rs\<close>. The argument parser generated by \<open>clap\<close>, the digest, the binding
  of sockets and the loading of certificates are arguments.
\<close>

section \<open>Certificates and resolvers\<close>

text \<open>The connection is accepted when the digests agree; the comparison is the loop of \<^const>\<open>ct_diff\<close>.\<close>

definition verify_server_cert :: "(bytes \<Rightarrow> bytes) \<Rightarrow> bytes \<Rightarrow> bytes \<Rightarrow> bool" where
  "verify_server_cert sha256 fingerprint end_entity = (ct_diff (sha256 end_entity) fingerprint = 0)"

definition fixed_resolve :: "socket_addr \<Rightarrow> string \<Rightarrow> socket_addr option" where
  "fixed_resolve addr host = Some addr"

record hyper_resolver =
  hr_addr :: socket_addr
  hr_fixed :: bool

definition hyper_fixed :: "socket_addr \<Rightarrow> hyper_resolver" where
  "hyper_fixed addr = \<lparr>hr_addr = addr, hr_fixed = True\<rparr>"

definition system_fallback :: hyper_resolver where
  "system_fallback = \<lparr>hr_addr = SockV4 (0, 0), hr_fixed = False\<rparr>"

definition hyper_resolve :: "resolver \<Rightarrow> hyper_resolver \<Rightarrow> string \<Rightarrow> socket_addr list option" where
  "hyper_resolve lookup r host = (if hr_fixed r then Some [hr_addr r] else lookup host 0)"

section \<open>Tuning hint\<close>

definition GAP_SIGNATURE :: string where "GAP_SIGNATURE = ''too many gaps''"

text \<open>The dash of the message is U+2014, three bytes in UTF-8.\<close>

definition gap_hint :: "string \<Rightarrow> string" where
  "gap_hint reason =
     (if contains_str GAP_SIGNATURE reason
      then '' '' @ map char_of [0xE2 :: nat, 0x80, 0x94] @ '' weak-network tuning hint: lower --recv-window to 1..2 (MB) on the lossy side''
      else [])"

section \<open>Arguments\<close>

datatype main_outcome =
    Panicked
  | ConfigRejected config_error
  | UsageExit
  | HealthExit int
  | ServerRuns string server_cfg
  | ClientRuns string client_cfg

text \<open>The arguments given to the parser, from the command line and the configuration file\<close>

definition main_args ::
  "(string \<Rightarrow> bool) \<Rightarrow> (string \<Rightarrow> string option) \<Rightarrow> string list \<Rightarrow> config_error + string list option" where
  "main_args is_file read_file argv =
     and_then (extract_config_arg argv) (\<lambda>(config_path, argv_rest).
     and_then (file_args is_file read_file config_path) (\<lambda>file.
       Inr (if argv_rest = [] then None else Some (''newppp'' # strip_cli_overridden file (tl argv_rest) @ tl argv_rest))))"

text \<open>The mode that is run, with the URL the clock is calibrated from\<close>

definition main_mode :: "(string \<Rightarrow> bool) \<Rightarrow> (string \<Rightarrow> health_error + health_peer) \<Rightarrow> cli \<Rightarrow> main_outcome" where
  "main_mode is_file connect c =
     (case cli_healthcheck c of
        Some url \<Rightarrow> HealthExit (healthcheck connect url)
      | None \<Rightarrow>
          (case validate c of
             Inl e \<Rightarrow> ConfigRejected e
           | Inr _ \<Rightarrow>
               if cli_server c then
                 (case server_config is_file c of Inl e \<Rightarrow> ConfigRejected e | Inr cfg \<Rightarrow> ServerRuns (cli_time c) cfg)
               else
                 (case client_config c of Inl e \<Rightarrow> ConfigRejected e | Inr cfg \<Rightarrow> ClientRuns (cli_time c) cfg)))"

definition main_entry ::
  "(string \<Rightarrow> bool) \<Rightarrow> (string \<Rightarrow> string option) \<Rightarrow> (string list \<Rightarrow> cli option) \<Rightarrow> (string \<Rightarrow> health_error + health_peer) \<Rightarrow>
   string list \<Rightarrow> main_outcome" where
  "main_entry is_file read_file clap connect argv =
     (case main_args is_file read_file argv of
        Inl e \<Rightarrow> ConfigRejected e
      | Inr None \<Rightarrow> Panicked
      | Inr (Some args) \<Rightarrow> (case clap args of None \<Rightarrow> UsageExit | Some c \<Rightarrow> main_mode is_file connect c))"

section \<open>The server\<close>

text \<open>The listener tasks. Binding the socket is the first action of a task; a task whose socket cannot be bound ends with an error.\<close>

datatype listener =
    WtListener socket_addr u32
  | TlsListener socket_addr
  | PlainListener socket_addr "string option"

datatype start_error = HealthSpawn | TlsSetup | BadListen | BadFallbackListen | BadHttpListen

definition parse_listen :: "(string \<Rightarrow> socket_addr option) \<Rightarrow> start_error \<Rightarrow> (socket_addr \<Rightarrow> listener) \<Rightarrow> string option \<Rightarrow> start_error + listener list" where
  "parse_listen parse_addr e mk a =
     (case a of
        None \<Rightarrow> Inr []
      | Some s \<Rightarrow> (case parse_addr s of None \<Rightarrow> Inl e | Some x \<Rightarrow> Inr [mk x]))"

text \<open>Up to the wait: the shared state, the label of the health endpoint, and the listener tasks that are spawned\<close>

definition server_start ::
  "crypto_lib \<Rightarrow> (string \<Rightarrow> socket_addr option) \<Rightarrow> (string \<Rightarrow> bool) \<Rightarrow> (cert_source \<Rightarrow> bool) \<Rightarrow> server_cfg \<Rightarrow>
   start_error + server_state \<times> unauth_gate \<times> string \<times> listener list" where
  "server_start L parse_addr health_binds tls_loads cfg =
     (let (st, gate) = build_state L cfg; transport = server_transport cfg in
      and_then (case sc_health cfg of Some a \<Rightarrow> (if health_binds a then Inr () else Inl HealthSpawn) | None \<Rightarrow> Inr ()) (\<lambda>_.
      and_then (if tls_loads (sc_cert cfg) then Inr () else Inl TlsSetup) (\<lambda>_.
      and_then (parse_listen parse_addr BadListen (\<lambda>a. WtListener a (sc_recv_window cfg)) (sc_listen cfg)) (\<lambda>wt.
      and_then (parse_listen parse_addr BadFallbackListen TlsListener (sc_fallback_listen cfg)) (\<lambda>fb.
      and_then (parse_listen parse_addr BadHttpListen (\<lambda>a. PlainListener a (sc_acme_dir cfg)) (sc_http_listen cfg)) (\<lambda>ht.
        Inr (st, gate, transport, wt @ fb @ ht)))))))"

text \<open>
  The wait, which ends with the server's token or with the first listener task that ends, for whatever reason; with no task at all there is nothing to wait for. The graceful shutdown follows.
\<close>

definition wait_any :: "(listener \<Rightarrow> bool) \<Rightarrow> listener list \<Rightarrow> bool" where
  "wait_any exited tasks = (case tasks of [] \<Rightarrow> True | _ \<Rightarrow> list_ex exited tasks)"

definition wait_over :: "bool \<Rightarrow> (listener \<Rightarrow> bool) \<Rightarrow> listener list \<Rightarrow> bool" where
  "wait_over cancelled exited tasks = (cancelled \<or> wait_any exited tasks)"

text \<open>
  The reaper, which stops when the server's token is cancelled: each tick comes with the time, whether the token is cancelled by then, and the state
  the other tasks have left.
\<close>

fun reaper_loop ::
  "(token \<Rightarrow> bool) \<Rightarrow> server_state \<Rightarrow> (bool \<times> millis \<times> (server_state \<times> (token \<Rightarrow> bool) \<Rightarrow> server_state \<times> (token \<Rightarrow> bool))) list \<Rightarrow>
   server_state \<times> (token \<Rightarrow> bool)" where
  "reaper_loop cancelled st [] = (st, cancelled)"
| "reaper_loop cancelled st ((stop, now, others) # ticks) =
     (let (st1, cancelled1) = others (st, cancelled) in
      if stop then (st1, cancelled1)
      else let (st2, cancelled2) = reaper_tick now cancelled1 st1 in reaper_loop cancelled2 st2 ticks)"

section \<open>The client\<close>

datatype inbound =
    SocksInbound string "(string \<times> string) option"
  | HttpInbound string "(string \<times> string) option"

datatype 'e client_event = CtrlC | SocksEnded "'e + unit" | HttpEnded "'e + unit"

text \<open>The inbounds that are started\<close>

definition client_inbounds :: "client_cfg \<Rightarrow> inbound list" where
  "client_inbounds cfg =
     SocksInbound (cc_socks_bind cfg) (cc_inbound_auth cfg) #
     (case cc_http_bind cfg of Some hb \<Rightarrow> [HttpInbound hb (cc_inbound_auth cfg)] | None \<Rightarrow> [])"

text \<open>\<open>first\<close> is the event the client waits for; the wait for an HTTP inbound that was not started never ends.\<close>

definition client_run ::
  "('e + ('p, 'h) outbound) \<Rightarrow> (string \<Rightarrow> ('p, 'h) outbound \<Rightarrow> 'e + unit) \<Rightarrow> 'e client_event \<Rightarrow> client_cfg \<Rightarrow> 'e + inbound list" where
  "client_run built spawn_health first cfg =
     and_then built (\<lambda>ob.
     and_then (case cc_health cfg of Some h \<Rightarrow> spawn_health h ob | None \<Rightarrow> Inr ()) (\<lambda>_.
     and_then (case first of CtrlC \<Rightarrow> Inr () | SocksEnded r \<Rightarrow> r | HttpEnded r \<Rightarrow> r) (\<lambda>_.
       Inr (client_inbounds cfg))))"

section \<open>Lemmas\<close>

text \<open>A pin accepts exactly the certificates with its fingerprint.\<close>

lemma verify_server_cert_iff:
  assumes "length (sha256 cert) = 32" "length fingerprint = 32"
  shows "verify_server_cert sha256 fingerprint cert \<longleftrightarrow> sha256 cert = fingerprint"
  using assms ct_diff_zero_iff [of "sha256 cert" fingerprint] by (simp add: verify_server_cert_def)

lemma hyper_resolves: "hyper_resolve lookup (hyper_fixed a) host = Some [a]" "hyper_resolve lookup system_fallback host = lookup host 0"
  by (simp_all add: hyper_resolve_def hyper_fixed_def system_fallback_def)

text \<open>The inbounds of a client share its credentials.\<close>

lemma client_inbounds_auth: "i \<in> set (client_inbounds cfg) \<Longrightarrow> \<exists>b. i = SocksInbound b (cc_inbound_auth cfg) \<or> i = HttpInbound b (cc_inbound_auth cfg)"
  by (auto simp: client_inbounds_def split: option.splits)

lemma main_mode_valid:
  "main_mode is_file connect c = ServerRuns t cfg \<Longrightarrow> server_config is_file c = Inr cfg \<and> cli_auth c \<noteq> [] \<and> \<not> cli_client c"
  "main_mode is_file connect c = ClientRuns t k \<Longrightarrow> client_config c = Inr k \<and> cli_auth c \<noteq> [] \<and> cli_client c"
  by (auto simp: main_mode_def validate_def ensure_def split: option.splits sum.splits if_splits)

lemma parse_listen_Inr:
  "parse_listen parse_addr e mk a = Inr ls \<Longrightarrow>
   ls = (case a of None \<Rightarrow> [] | Some s \<Rightarrow> [mk (the (parse_addr s))]) \<and> (\<forall>s. a = Some s \<longrightarrow> parse_addr s \<noteq> None)"
  by (auto simp: parse_listen_def split: option.splits)

lemma server_start_state:
  assumes "server_start L parse_addr health_binds tls_loads cfg = Inr (st, gate, label, ls)"
  obtains wt fb ht where "build_state L cfg = (st, gate)" "label = server_transport cfg" "ls = wt @ fb @ ht"
    "parse_listen parse_addr BadListen (\<lambda>a. WtListener a (sc_recv_window cfg)) (sc_listen cfg) = Inr wt"
    "parse_listen parse_addr BadFallbackListen TlsListener (sc_fallback_listen cfg) = Inr fb"
    "parse_listen parse_addr BadHttpListen (\<lambda>a. PlainListener a (sc_acme_dir cfg)) (sc_http_listen cfg) = Inr ht"
  using assms that by (auto simp: server_start_def Let_def split: prod.splits)

lemma user_keys_dom: "dom (map_of (user_keys L users)) = fst ` set users"
proof -
  have "dom (map_of (fold (\<lambda>(u, p). AList.update u (derive_static_key L p u)) users m)) = dom (map_of m) \<union> fst ` set users" for m
    by (induction users arbitrary: m) (auto simp: AList.update_conv' split: if_splits prod.splits)
  then show ?thesis by (simp add: user_keys_def)
qed

lemma user_keys_value: "map_of (user_keys L users) u = Some k \<Longrightarrow> \<exists>p. (u, p) \<in> set users \<and> k = derive_static_key L p u"
proof -
  have "map_of (fold (\<lambda>(u, p). AList.update u (derive_static_key L p u)) users m) u = Some k \<Longrightarrow>
      map_of m u = Some k \<or> (\<exists>p. (u, p) \<in> set users \<and> k = derive_static_key L p u)" for m
    by (induction users arbitrary: m) (fastforce simp: AList.update_conv' split: if_splits)+
  then show "map_of (user_keys L users) u = Some k \<Longrightarrow> \<exists>p. (u, p) \<in> set users \<and> k = derive_static_key L p u"
    by (fastforce simp: user_keys_def)
qed

section \<open>Properties\<close>


definition demo_cli :: cli where
  "demo_cli = \<lparr>cli_client = False, cli_server = True, cli_auth = [''u:p''], cli_log = ''info'', cli_time = ''http://t'', cli_server_url = Some ''https://s/'',
     cli_url = None, cli_bind = ''b'', cli_http_bind = None, cli_inbound_auth = None, cli_conns = 1, cli_skip_verify = False, cli_sni = None,
     cli_pin = None, cli_recv_window_mb = 2, cli_max_frame_kb = 16, cli_listen = Some ''l'', cli_cert = None, cli_key = None, cli_self_signed = True,
     cli_fallback_listen = None, cli_http_listen = None, cli_acme_dir = None, cli_path = ''/'', cli_max_sessions = 9, cli_rate_mbps = 0, cli_idle_secs = 60,
     cli_udp_dns_ttl = 60, cli_allow_private_targets = False, cli_max_unauth = 8, cli_health = None, cli_config = None, cli_shutdown_grace = 10,
     cli_healthcheck = None\<rparr>"

lemma demo_auth: "parse_auth ''u:p'' = Inr (''u'', ''p'')"
  by code_simp

lemma demo_server_config: "\<exists>cfg. server_config is_file demo_cli = Inr cfg \<and> sc_users cfg = [(''u'', ''p'')] \<and> sc_max_sessions cfg = 9 \<and>
    sc_health cfg = None \<and> sc_listen cfg = Some ''l'' \<and> sc_fallback_listen cfg = None \<and> sc_http_listen cfg = None"
  by (simp add: server_config_def server_cert_def demo_cli_def demo_auth recv_window_bytes_def max_frame_bytes_def ensure_def const_defs)


end
