(* ===== verification/Socks5.thy ===== *)
theory Socks5
  imports Sock_Io "HOL-Library.Sublist"
begin

text \<open>
  The SOCKS5 inbound (\<open>src/src/client/socks5.rs\<close>): method negotiation, user name and password, requests, CONNECT, and
  the relay of a UDP association. What the outbound answers, the addresses of the sockets and the parser of IP
  addresses are arguments; a relay is a sequence of the events its two tasks react to.
\<close>

section \<open>Text of IP addresses\<close>

definition show_ipv4 :: "u8 list \<Rightarrow> string" where
  "show_ipv4 b = show_dec (unat (b ! 0)) @ ''.'' @ show_dec (unat (b ! 1)) @ ''.'' @ show_dec (unat (b ! 2)) @ ''.'' @ show_dec (unat (b ! 3))"

fun show_hex :: "nat \<Rightarrow> string" where
  "show_hex n = (if n < 16 then [digit_char n] else show_hex (n div 16) @ [digit_char (n mod 16)])"

declare show_hex.simps [simp del]

fun show_segments :: "u16 list \<Rightarrow> string" where
  "show_segments [] = []"
| "show_segments [x] = show_hex (unat x)"
| "show_segments (x # xs) = show_hex (unat x) @ '':'' @ show_segments xs"

text \<open>The first longest run of zero segments, as start and length.\<close>

fun longest_zeros :: "nat \<Rightarrow> nat \<times> nat \<Rightarrow> nat \<times> nat \<Rightarrow> u16 list \<Rightarrow> nat \<times> nat" where
  "longest_zeros i current longest [] = longest"
| "longest_zeros i (start, len) longest (x # xs) =
     (if x = 0 then
        let current = (if len = 0 then i else start, len + 1) in
        longest_zeros (i + 1) current (if snd current > snd longest then current else longest) xs
      else longest_zeros (i + 1) (0, 0) longest xs)"

definition show_ipv6 :: "ipv6 \<Rightarrow> string" where
  "show_ipv6 ip =
     (let s = segments ip; (start, len) = longest_zeros 0 (0, 0) (0, 0) s in
      if take 6 s = [0, 0, 0, 0, 0, 0xffff] then ''::ffff:'' @ show_ipv4 (drop 12 (to_be_bytes ip))
      else if len > 1 then show_segments (take start s) @ ''::'' @ show_segments (drop (start + len) s)
      else show_segments s)"

section \<open>Negotiation\<close>

definition read_rfc1929 :: "(string \<times> string) io" where
  "read_rfc1929 =
     bind_io (read_exact 1) (\<lambda>ver.
     bind_io (ensure_io (''bad RFC1929 version '' @ show_dec (unat (ver ! 0))) (ver ! 0 = 1)) (\<lambda>_.
     bind_io (read_exact 1) (\<lambda>ulen.
     bind_io (read_exact (unat (ulen ! 0))) (\<lambda>u.
     bind_io (read_exact 1) (\<lambda>plen.
     bind_io (read_exact (unat (plen ! 0))) (\<lambda>p.
     bind_io (lift_io (ok_or (Bail ''bad username encoding'') (from_utf8 u))) (\<lambda>us.
     bind_io (lift_io (ok_or (Bail ''bad password encoding'') (from_utf8 p))) (\<lambda>ps.
     return_io (us, ps)))))))))"

definition negotiate_auth :: "(string \<times> string) option \<Rightarrow> bytes \<Rightarrow> unit io" where
  "negotiate_auth auth methods =
     (case auth of
        Some (user, pass) \<Rightarrow>
          if 2 \<notin> set methods then
            bind_io (write_all [5, 0xff]) (\<lambda>_. fail_io (Bail ''client offered no username/password auth method''))
          else
            bind_io (write_all [5, 2]) (\<lambda>_.
            bind_io read_rfc1929 (\<lambda>(u, p).
            let ok = constant_time_eq (as_bytes u) (as_bytes user) \<and> constant_time_eq (as_bytes p) (as_bytes pass) in
            bind_io (write_all [1, if ok then 0 else 1]) (\<lambda>_.
            ensure_io ''socks5 authentication failed'' ok)))
      | None \<Rightarrow>
          if 0 \<in> set methods then write_all [5, 0]
          else bind_io (write_all [5, 0xff]) (\<lambda>_. fail_io (Bail ''client requires an unsupported auth method'')))"

section \<open>Requests\<close>

definition read_target :: "(string \<times> u16) io" where
  "read_target =
     bind_io (read_exact 1) (\<lambda>atyp.
     bind_io
       (if atyp ! 0 = 1 then bind_io (read_exact 4) (\<lambda>b. return_io (show_ipv4 b))
        else if atyp ! 0 = 3 then
          bind_io (read_exact 1) (\<lambda>l.
          bind_io (read_exact (unat (l ! 0))) (\<lambda>d. lift_io (ok_or (Bail ''bad domain'') (from_utf8 d))))
        else if atyp ! 0 = 4 then bind_io (read_exact 16) (\<lambda>b. return_io (show_ipv6 (from_be_bytes b)))
        else fail_io (Bail (''bad atyp '' @ show_dec (unat (atyp ! 0)))))
       (\<lambda>host. bind_io (read_exact 2) (\<lambda>p. return_io (host, from_be_bytes p))))"

text \<open>The part of \<open>handle\<close> before the command is carried out\<close>

definition read_request :: "(u8 \<times> string \<times> u16) io" where
  "read_request =
     bind_io (read_exact 3) (\<lambda>head.
     bind_io (ensure_io ''bad socks version'' (head ! 0 = 5)) (\<lambda>_.
     bind_io read_target (\<lambda>target. return_io (head ! 1, target))))"

definition socks5_accept :: "(string \<times> string) option \<Rightarrow> (u8 \<times> string \<times> u16) io" where
  "socks5_accept auth =
     bind_io (read_exact 2) (\<lambda>h.
     bind_io (ensure_io ''not socks5'' (h ! 0 = 5)) (\<lambda>_.
     bind_io (read_exact (unat (h ! 1))) (\<lambda>methods.
     bind_io (negotiate_auth auth methods) (\<lambda>_. read_request))))"

definition socks5_reply :: "u8 \<Rightarrow> bytes" where
  "socks5_reply code = [5, code, 0, 1, 0, 0, 0, 0, 0, 0]"

text \<open>
  What a connection leads to: a tunnel to the opened stream, which starts with the unread input,
  or a relay with the client's address it accepts.
\<close>

datatype 's served = Tunnel 's | Relay 's ip_addr

definition connect_cmd :: "(string \<Rightarrow> u16 \<Rightarrow> client_error + 's) \<Rightarrow> string \<times> u16 \<Rightarrow> 's served io" where
  "connect_cmd open_tcp target =
     (case open_tcp (fst target) (snd target) of
        Inr remote \<Rightarrow> bind_io (write_all (socks5_reply 0)) (\<lambda>_. return_io (Tunnel remote))
      | Inl e \<Rightarrow> bind_io (try_write (socks5_reply (socks5_reply_code e))) (\<lambda>_. fail_io (OpenFailed e)))"

section \<open>UDP associations\<close>

definition ip_is_unspecified :: "ip_addr \<Rightarrow> bool" where
  "ip_is_unspecified ip = (case ip of IpV4 a \<Rightarrow> v4_is_unspecified a | IpV6 a \<Rightarrow> v6_is_unspecified a)"

definition udp_client_ip :: "(string \<Rightarrow> ip_addr option) \<Rightarrow> string \<Rightarrow> ip_addr \<Rightarrow> ip_addr" where
  "udp_client_ip parse_ip requested peer =
     (case parse_ip requested of
        Some ip \<Rightarrow> if \<not> ip_is_unspecified ip then ip else peer
      | None \<Rightarrow> peer)"

text \<open>The relay is bound to the address the control connection was accepted on, with any port.\<close>

definition relay_bind :: "socket_addr \<Rightarrow> socket_addr" where
  "relay_bind l =
     (case l of
        SockV4 a \<Rightarrow> SockV4 (fst a, 0)
      | SockV6 a \<Rightarrow> SockV6 (a\<lparr>v6_port := 0\<rparr>))"

definition relay_reply :: "ip_addr \<Rightarrow> u16 \<Rightarrow> bytes" where
  "relay_reply ip relay_port =
     (case ip of
        IpV4 v \<Rightarrow> [5, 0, 0, 1] @ to_be_bytes v
      | IpV6 v \<Rightarrow> [5, 0, 0, 4] @ to_be_bytes v) @ to_be_bytes relay_port"

text \<open>
  The set-up of an association; \<open>bind\<close> gives the port of the bound relay socket, or fails.
\<close>

definition udp_cmd ::
  "(string \<Rightarrow> ip_addr option) \<Rightarrow> socket_addr \<Rightarrow> socket_addr \<Rightarrow> (socket_addr \<Rightarrow> u16 option) \<Rightarrow> client_error + 's \<Rightarrow>
   string \<times> u16 \<Rightarrow> 's served io" where
  "udp_cmd parse_ip peer_addr local_addr bind associate target =
     (let expected_ip = udp_client_ip parse_ip (fst target) (sock_ip peer_addr) in
      case bind (relay_bind local_addr) of
        None \<Rightarrow> fail_io IoError
      | Some relay_port \<Rightarrow>
          (case associate of
             Inl e \<Rightarrow> bind_io (try_write (socks5_reply (socks5_reply_code e))) (\<lambda>_. fail_io (OpenFailed e))
           | Inr pipe \<Rightarrow>
               bind_io (write_all (relay_reply (sock_ip local_addr) relay_port)) (\<lambda>_.
               return_io (Relay pipe expected_ip))))"

definition socks5_handle ::
  "(string \<Rightarrow> ip_addr option) \<Rightarrow> socket_addr \<Rightarrow> socket_addr \<Rightarrow> (socket_addr \<Rightarrow> u16 option) \<Rightarrow>
   (string \<Rightarrow> u16 \<Rightarrow> client_error + 's) \<Rightarrow> client_error + 's \<Rightarrow> (string \<times> string) option \<Rightarrow> 's served io" where
  "socks5_handle parse_ip peer_addr local_addr bind open_tcp associate auth =
     bind_io (socks5_accept auth) (\<lambda>(cmd, target).
       if cmd = 1 then connect_cmd open_tcp target
       else if cmd = 3 then udp_cmd parse_ip peer_addr local_addr bind associate target
       else bind_io (try_write (socks5_reply 7)) (\<lambda>_. fail_io (Bail (''unsupported cmd '' @ show_dec (unat cmd)))))"

section \<open>The relay\<close>

definition UDP_IDLE :: nat where [const_defs]: "UDP_IDLE = 300000"

text \<open>
  The state the tasks of an association share: whether the control connection is closed, the client's endpoint,
  which of the two tasks still run, and when the pipe last delivered. Recorded are
  the datagrams passed to the outbound, with their senders, and the datagrams sent to the client.
\<close>

record relay =
  rl_expected :: ip_addr
  rl_cancelled :: bool
  rl_client :: "socket_addr option"
  rl_outbound :: bool
  rl_inbound :: bool
  rl_last_activity :: nat
  rl_passed :: "(socket_addr \<times> udp_addr \<times> bytes) list"
  rl_replied :: "(socket_addr \<times> bytes) list"

definition relay_new :: "ip_addr \<Rightarrow> nat \<Rightarrow> relay" where
  "relay_new ip now =
     \<lparr>rl_expected = ip, rl_cancelled = False, rl_client = None, rl_outbound = True, rl_inbound = True,
      rl_last_activity = now, rl_passed = [], rl_replied = []\<rparr>"

datatype relay_event =
    RecvFrom socket_addr bytes bool  \<comment> \<open>a datagram, and whether the outbound takes it\<close>
  | RecvError
  | OutboundCancelled
  | PipeRecv nat "(udp_addr \<times> bytes) option"
  | Sleep nat
  | InboundCancelled
  | TcpClosed

definition relay_recv :: "socket_addr \<Rightarrow> bytes \<Rightarrow> bool \<Rightarrow> relay \<Rightarrow> relay" where
  "relay_recv from buf accepts r =
     (if sock_ip from \<noteq> rl_expected r then r
      else
        let r1 = (if rl_client r = None then r\<lparr>rl_client := Some from\<rparr> else r) in
        case parse_socks5_udp buf of
          Inl _ \<Rightarrow> r1
        | Inr (dst, payload) \<Rightarrow>
            if accepts then r1\<lparr>rl_passed := rl_passed r1 @ [(from, dst, payload)]\<rparr>
            else r1\<lparr>rl_outbound := False\<rparr>)"

definition relay_deliver :: "nat \<Rightarrow> (udp_addr \<times> bytes) option \<Rightarrow> relay \<Rightarrow> relay" where
  "relay_deliver now d r =
     (case d of
        None \<Rightarrow> r\<lparr>rl_inbound := False\<rparr>
      | Some (src, data) \<Rightarrow>
          let r1 = r\<lparr>rl_last_activity := now\<rparr> in
          (case rl_client r1 of
             None \<Rightarrow> r1
           | Some ca \<Rightarrow> r1\<lparr>rl_replied := rl_replied r1 @ [(ca, build_socks5_udp src data)]\<rparr>))"

text \<open>An event of a task that has ended, or whose condition does not hold, does not happen.\<close>

fun relay_step :: "relay \<Rightarrow> relay_event \<Rightarrow> relay" where
  "relay_step r (RecvFrom from buf accepts) = (if rl_outbound r then relay_recv from buf accepts r else r)"
| "relay_step r RecvError = (if rl_outbound r then r\<lparr>rl_outbound := False\<rparr> else r)"
| "relay_step r OutboundCancelled = (if rl_outbound r \<and> rl_cancelled r then r\<lparr>rl_outbound := False\<rparr> else r)"
| "relay_step r (PipeRecv now d) = (if rl_inbound r then relay_deliver now d r else r)"
| "relay_step r (Sleep now) =
     (if rl_inbound r \<and> now - rl_last_activity r \<ge> UDP_IDLE then r\<lparr>rl_inbound := False\<rparr> else r)"
| "relay_step r InboundCancelled = (if rl_inbound r \<and> rl_cancelled r then r\<lparr>rl_inbound := False\<rparr> else r)"
| "relay_step r TcpClosed = r\<lparr>rl_cancelled := True\<rparr>"

definition relay_run :: "relay \<Rightarrow> relay_event list \<Rightarrow> relay" where
  "relay_run r es = foldl relay_step r es"

section \<open>Abstract view\<close>

text \<open>What a client sends: the offered methods, the credentials (RFC 1929), and a request (RFC 1928).\<close>

definition greeting :: "bytes \<Rightarrow> bytes" where
  "greeting ms = [5, of_nat (length ms)] @ ms"

definition credentials :: "string \<Rightarrow> string \<Rightarrow> bytes" where
  "credentials u p = [1, of_nat (length u)] @ as_bytes u @ [of_nat (length p)] @ as_bytes p"

fun request_addr :: "udp_addr \<Rightarrow> bytes" where
  "request_addr (V4 (ip, port)) = [1] @ to_be_bytes ip @ to_be_bytes port"
| "request_addr (Domain h port) = [3, of_nat (length h)] @ as_bytes h @ to_be_bytes port"
| "request_addr (V6 a) = [4] @ to_be_bytes (v6_ip a) @ to_be_bytes (v6_port a)"

fun request_target :: "udp_addr \<Rightarrow> string \<times> u16" where
  "request_target (V4 (ip, port)) = (show_ipv4 (to_be_bytes ip), port)"
| "request_target (Domain h port) = (h, port)"
| "request_target (V6 a) = (show_ipv6 (v6_ip a), v6_port a)"

definition login :: "(string \<times> string) option \<Rightarrow> bytes" where
  "login auth = (case auth of None \<Rightarrow> [] | Some (u, p) \<Rightarrow> credentials u p)"

definition login_reply :: "(string \<times> string) option \<Rightarrow> bytes" where
  "login_reply auth = (case auth of None \<Rightarrow> [5, 0] | Some _ \<Rightarrow> [5, 2, 1, 0])"

text \<open>Credentials the protocol can carry, and methods that suit them.\<close>

definition login_ok :: "(string \<times> string) option \<Rightarrow> bytes \<Rightarrow> bool" where
  "login_ok auth ms \<longleftrightarrow>
     length ms < 256 \<and>
     (case auth of
        None \<Rightarrow> 0 \<in> set ms
      | Some (u, p) \<Rightarrow> 2 \<in> set ms \<and> is_str u \<and> is_str p \<and> length u < 256 \<and> length p < 256)"

text \<open>The datagrams of a relay's events that come from the client, and those the pipe delivers.\<close>

definition client_datagram :: "ip_addr \<Rightarrow> relay_event \<Rightarrow> (socket_addr \<times> udp_addr \<times> bytes) option" where
  "client_datagram ip e =
     (case e of
        RecvFrom from buf _ \<Rightarrow>
          (case parse_socks5_udp buf of
             Inr (dst, payload) \<Rightarrow> if sock_ip from = ip then Some (from, dst, payload) else None
           | Inl _ \<Rightarrow> None)
      | _ \<Rightarrow> None)"

definition pipe_datagram :: "relay_event \<Rightarrow> bytes option" where
  "pipe_datagram e = (case e of PipeRecv _ (Some (src, data)) \<Rightarrow> Some (build_socks5_udp src data) | _ \<Rightarrow> None)"

definition relay_safe :: "ip_addr \<Rightarrow> relay_event list \<Rightarrow> relay \<Rightarrow> bool" where
  "relay_safe ip es r \<longleftrightarrow>
     rl_expected r = ip \<and>
     prefix (rl_passed r) (List.map_filter (client_datagram ip) es) \<and>
     (rl_outbound r \<longrightarrow> rl_passed r = List.map_filter (client_datagram ip) es) \<and>
     subseq (map snd (rl_replied r)) (List.map_filter pipe_datagram es) \<and>
     list_all (\<lambda>(ca, _). rl_client r = Some ca) (rl_replied r) \<and>
     pred_option (\<lambda>ca. sock_ip ca = ip) (rl_client r)"

section \<open>Lemmas: negotiation\<close>

lemma bind_read:
  "bind_io (read_exact n) f s = (Inr x, s') \<longleftrightarrow>
     (\<exists>bs r. length bs = n \<and> sk_in s = bs @ r \<and> f bs (s\<lparr>sk_in := r\<rparr>) = (Inr x, s'))"
  by (auto simp: bind_io_Inr read_exact_Inr)

lemma from_utf8_iff: "from_utf8 bs = Some u \<longleftrightarrow> is_str u \<and> bs = as_bytes u"
  using from_utf8_Some [of bs u] by auto

lemma length_byte: "length xs = unat (b :: u8) \<longleftrightarrow> b = of_nat (length xs) \<and> length xs < 256"
  using unsigned_less [of b] by (auto simp: unat_of_nat take_bit_nat_eq_self_iff)

lemma io_iff:
  "bind_io (read_exact 1) f s = (Inr x, s') \<longleftrightarrow> (\<exists>b r. sk_in s = b # r \<and> f [b] (s\<lparr>sk_in := r\<rparr>) = (Inr x, s'))"
  "bind_io (read_exact (unat (l :: u8))) f s = (Inr x, s') \<longleftrightarrow>
     (\<exists>bs r. l = of_nat (length bs) \<and> length bs < 256 \<and> sk_in s = bs @ r \<and> f bs (s\<lparr>sk_in := r\<rparr>) = (Inr x, s'))"
  "bind_io (read_exact (numeral k)) f s = (Inr x, s') \<longleftrightarrow>
     (\<exists>bs r. length bs = numeral k \<and> sk_in s = bs @ r \<and> f bs (s\<lparr>sk_in := r\<rparr>) = (Inr x, s'))"
  "bind_io (ensure_io e b) g s = (Inr x, s') \<longleftrightarrow> b \<and> g () s = (Inr x, s')"
  "bind_io (write_all bs) g s = (Inr x, s') \<longleftrightarrow>
     0 < sk_room s \<and> g () (s\<lparr>sk_out := sk_out s @ bs, sk_room := sk_room s - 1\<rparr>) = (Inr x, s')"
  "bind_io (fail_io err) f s = (Inr x, s') \<longleftrightarrow> False"
  "return_io y s = (Inr x, s') \<longleftrightarrow> y = x \<and> s = s'"
  unfolding bind_read by (auto simp: length_Suc_conv length_byte bind_io_Inr write_all_def)

lemma bind_utf8_iff:
  "bind_io (lift_io (ok_or err (from_utf8 bs))) h s = (Inr x, s') \<longleftrightarrow> (\<exists>u. is_str u \<and> bs = as_bytes u \<and> h u s = (Inr x, s'))"
  by (cases "from_utf8 bs") (auto simp: bind_io_Inr from_utf8_iff)

lemma read_rfc1929_iff:
  "read_rfc1929 s = (Inr (u, p), s') \<longleftrightarrow>
   is_str u \<and> is_str p \<and> length u < 256 \<and> length p < 256 \<and>
   (\<exists>r. sk_in s = credentials u p @ r \<and> s' = s\<lparr>sk_in := r\<rparr>)"
  unfolding read_rfc1929_def credentials_def io_iff bind_utf8_iff
  by (auto, rule exI [of _ "as_bytes u"], auto, rule exI [of _ "as_bytes p"], auto)

lemma negotiate_auth_iff:
  "negotiate_auth (Some (user, pass)) ms s = (Inr x, s') \<longleftrightarrow>
   2 \<in> set ms \<and> is_str user \<and> is_str pass \<and> length user < 256 \<and> length pass < 256 \<and> 2 \<le> sk_room s \<and>
   (\<exists>r. sk_in s = credentials user pass @ r \<and>
      s' = s\<lparr>sk_in := r, sk_out := sk_out s @ [5, 2, 1, 0], sk_room := sk_room s - 2\<rparr>)"
  unfolding negotiate_auth_def
  by (auto simp: io_iff Let_def bind_io_Inr [of read_rfc1929] read_rfc1929_iff)

lemma socks5_accept_iff:
  "socks5_accept auth s = (Inr req, s') \<longleftrightarrow>
   (\<exists>ms r s1. length ms < 256 \<and> sk_in s = greeting ms @ r \<and>
      negotiate_auth auth ms (s\<lparr>sk_in := r\<rparr>) = (Inr (), s1) \<and> read_request s1 = (Inr req, s'))"
  (is "?l \<longleftrightarrow> ?r")
proof -
  have "?l \<longleftrightarrow> (\<exists>bs r. length bs = 2 \<and> sk_in s = bs @ r \<and> bs ! 0 = 5 \<and>
      (\<exists>ms r'. bs ! 1 = of_nat (length ms) \<and> length ms < 256 \<and> r = ms @ r' \<and>
        (\<exists>s1. negotiate_auth auth ms (s\<lparr>sk_in := r'\<rparr>) = (Inr (), s1) \<and> read_request s1 = (Inr req, s'))))"
    unfolding socks5_accept_def io_iff bind_io_Inr [of "negotiate_auth _ _"] by simp
  also have "\<dots> \<longleftrightarrow> ?r"
    by (fastforce simp: greeting_def length_Suc_conv numeral_2_eq_2)
  finally show ?thesis .
qed

section \<open>Lemmas: requests\<close>

lemma read_prefix [simp]:
  "sk_in s = bs @ r \<Longrightarrow> length bs = n \<Longrightarrow> bind_io (read_exact n) f s = f bs (s\<lparr>sk_in := r\<rparr>)"
  by (simp add: bind_io_def read_exact_def)

lemma read_prefix_byte [simp]: "sk_in s = b # r \<Longrightarrow> bind_io (read_exact (Suc 0)) f s = f [b] (s\<lparr>sk_in := r\<rparr>)"
  by (simp add: bind_io_def read_exact_def)

lemma read_target_request:
  assumes "addr_valid dst" "sk_in s = request_addr dst @ r"
  shows "read_target s = (Inr (request_target dst), s\<lparr>sk_in := r\<rparr>)"
proof (cases dst)
  case (V4 a)
  then show ?thesis using assms
    by (cases a) (simp add: read_target_def bind_io_def [of "bind_io _ _"])
next
  case (V6 a)
  then show ?thesis using assms
    by (simp add: read_target_def bind_io_def [of "bind_io _ _"])
next
  case (Domain h port)
  then have "unat (of_nat (length h) :: u8) = length h"
    using assms(1) by (simp add: unat_of_nat take_bit_nat_eq_self_iff)
  then show ?thesis using assms Domain
    by (simp add: read_target_def bind_io_def [of "bind_io _ _"] bind_io_def [of "lift_io _"])
qed

lemma read_request_request:
  assumes "addr_valid dst" "sk_in s = [5, cmd, rsv] @ request_addr dst @ r"
  shows "read_request s = (Inr (cmd, request_target dst), s\<lparr>sk_in := r\<rparr>)"
proof -
  have "read_exact 3 s = (Inr [5, cmd, rsv], s\<lparr>sk_in := request_addr dst @ r\<rparr>)"
    using assms(2) by (simp add: read_exact_def)
  moreover have "read_target (s\<lparr>sk_in := request_addr dst @ r\<rparr>) = (Inr (request_target dst), s\<lparr>sk_in := r\<rparr>)"
    using read_target_request [OF assms(1), of "s\<lparr>sk_in := request_addr dst @ r\<rparr>"] by simp
  ultimately show ?thesis by (simp add: read_request_def bind_io_def)
qed

lemma accept_served:
  assumes "login_ok auth ms" "addr_valid dst" "2 \<le> sk_room s"
    and "sk_in s = greeting ms @ login auth @ [5, cmd, rsv] @ request_addr dst @ r"
  shows "\<exists>n. socks5_accept auth s =
    (Inr (cmd, request_target dst), s\<lparr>sk_in := r, sk_out := sk_out s @ login_reply auth, sk_room := sk_room s - n\<rparr>) \<and> n \<le> 2"
proof -
  let ?r = "[5, cmd, rsv] @ request_addr dst @ r"
  obtain n where n: "n \<le> 2" "negotiate_auth auth ms (s\<lparr>sk_in := login auth @ ?r\<rparr>) =
      (Inr (), s\<lparr>sk_in := ?r, sk_out := sk_out s @ login_reply auth, sk_room := sk_room s - n\<rparr>)"
  proof (cases auth)
    case None
    with assms that [of 1] show ?thesis
      by (simp add: negotiate_auth_def login_ok_def login_def login_reply_def write_all_def)
  next
    case (Some up)
    with assms that [of 2] show ?thesis
      by (cases up) (simp add: negotiate_auth_iff login_ok_def login_def login_reply_def)
  qed
  let ?s1 = "s\<lparr>sk_in := ?r, sk_out := sk_out s @ login_reply auth, sk_room := sk_room s - n\<rparr>"
  have "read_request ?s1 = (Inr (cmd, request_target dst), ?s1\<lparr>sk_in := r\<rparr>)"
    by (rule read_request_request [OF assms(2)]) simp
  then have "socks5_accept auth s = (Inr (cmd, request_target dst), ?s1\<lparr>sk_in := r\<rparr>)"
    unfolding socks5_accept_iff using assms(1,4) n(2)
    by (intro exI [of _ ms] exI [of _ "login auth @ ?r"] exI [of _ ?s1]) (simp add: login_ok_def)
  then show ?thesis using n(1) by (intro exI [of _ n]) simp
qed

section \<open>Lemmas: the relay\<close>

lemma map_filter_snoc: "List.map_filter f (xs @ [x]) = List.map_filter f xs @ (case f x of None \<Rightarrow> [] | Some y \<Rightarrow> [y])"
  by (simp add: List.map_filter_def split: option.splits)

lemma relay_recv_safe:
  assumes "relay_safe ip es r" "rl_outbound r"
  shows "relay_safe ip (es @ [RecvFrom from buf accepts]) (relay_recv from buf accepts r)"
  using assms
  by (auto simp: relay_safe_def relay_recv_def map_filter_snoc client_datagram_def pipe_datagram_def Let_def
      split: sum.splits option.splits elim!: list.pred_mono_strong)

lemma relay_deliver_safe:
  assumes "relay_safe ip es r"
  shows "relay_safe ip (es @ [PipeRecv now d]) (relay_deliver now d r)"
  using assms
  by (auto simp: relay_safe_def relay_deliver_def map_filter_snoc client_datagram_def pipe_datagram_def Let_def
      split: sum.splits option.splits intro: list_emb_append_mono)

lemma relay_step_safe:
  assumes "relay_safe ip es r"
  shows "relay_safe ip (es @ [e]) (relay_step r e)"
proof (cases e)
  case (RecvFrom a buf accepts)
  show ?thesis
  proof (cases "rl_outbound r")
    case True
    with RecvFrom relay_recv_safe [OF assms] show ?thesis by simp
  next
    case False
    with RecvFrom assms show ?thesis
      by (auto simp: relay_safe_def map_filter_snoc pipe_datagram_def)
  qed
next
  case (PipeRecv now d)
  show ?thesis
  proof (cases "rl_inbound r")
    case True
    with PipeRecv relay_deliver_safe [OF assms] show ?thesis by simp
  next
    case False
    with PipeRecv assms show ?thesis
      by (auto simp: relay_safe_def map_filter_snoc client_datagram_def intro: subseq_rev_drop_many)
  qed
qed (use assms in \<open>auto simp: relay_safe_def map_filter_snoc client_datagram_def pipe_datagram_def\<close>)

section \<open>Properties\<close>

text \<open>
  C19. With credentials configured, the SOCKS5 inbound acts on a request if and only if the client offered the user
  name and password method and sent exactly the configured user name and password; it then has answered with the
  selected method and with success, and reads the request from the bytes that follow.
\<close>

theorem socks5_auth_exact:
  "socks5_accept (Some (user, pass)) s = (Inr req, s') \<longleftrightarrow>
   (\<exists>ms r. login_ok (Some (user, pass)) ms \<and> 2 \<le> sk_room s \<and> sk_in s = greeting ms @ credentials user pass @ r \<and>
      read_request (s\<lparr>sk_in := r, sk_out := sk_out s @ [5, 2, 1, 0], sk_room := sk_room s - 2\<rparr>) = (Inr req, s'))"
  by (auto simp: socks5_accept_iff negotiate_auth_iff login_ok_def) 

text \<open>
  C21. A CONNECT request of a client that logs in properly is served as it asks: the outbound is asked for exactly
  the requested host and port, the client gets the reply code of the outbound's result, and on success
  the bytes it sent after the request are those the tunnel begins with.
\<close>

theorem socks5_connect_served:
  assumes "login_ok auth ms" "addr_valid dst" "3 \<le> sk_room s"
    and "sk_in s = greeting ms @ login auth @ [5, 1, rsv] @ request_addr dst @ r"
  shows "case (open_tcp (fst (request_target dst)) (snd (request_target dst)), socks5_handle parse_ip peer local bind open_tcp assoc auth s) of
      (Inr remote, res, s') \<Rightarrow> res = Inr (Tunnel remote) \<and> sk_in s' = r \<and> sk_out s' = sk_out s @ login_reply auth @ socks5_reply 0
    | (Inl e, res, s') \<Rightarrow> res = Inl (OpenFailed e) \<and> sk_out s' = sk_out s @ login_reply auth @ socks5_reply (socks5_reply_code e)"
proof -
  obtain n where n: "n \<le> 2" "socks5_accept auth s =
      (Inr (1, request_target dst), s\<lparr>sk_in := r, sk_out := sk_out s @ login_reply auth, sk_room := sk_room s - n\<rparr>)"
    using accept_served [OF assms(1,2) _ assms(4)] assms(3) by auto
  then show ?thesis using assms(3)
    by (simp add: socks5_handle_def connect_cmd_def bind_io_def write_all_def try_write_def split: sum.split)
qed

theorem socks5_connect_served_witness:
  "fst (socks5_handle (\<lambda>_. None) (SockV4 (1, 9)) (SockV4 (2, 1080)) (\<lambda>_. None)
     (\<lambda>h p. if (h, p) = (''a.b'', 80) then Inr (0 :: nat) else Inl Plain_Error) (Inl Plain_Error) (Some (''me'', ''pw''))
     \<lparr>sk_in = [5, 1, 2, 1, 2, 109, 101, 2, 112, 119, 5, 1, 0, 3, 3, 97, 46, 98, 0, 80, 7], sk_sizes = [], sk_out = [], sk_room = 3\<rparr>) =
   Inr (Tunnel 0)"
proof -
  have p: "to_be_bytes (80 :: u16) = [0, 80]"
  proof -
    have "le_bytes (Suc (Suc 0)) 80 = [80, 0]" by simp
    then show ?thesis by (simp add: to_be_bytes_def to_le_bytes_def flip: numeral_2_eq_2)
  qed
  have t: "as_bytes ''a.b'' = [97, 46, 98]" "login_ok (Some (''me'', ''pw'')) [2]" "addr_valid (Domain ''a.b'' 80)"
    "greeting [2] = [5, 1, 2]" "login (Some (''me'', ''pw'')) = [1, 2, 109, 101, 2, 112, 119]"
    by code_simp+
  define s where "s = \<lparr>sk_in = [5, 1, 2, 1, 2, 109, 101, 2, 112, 119, 5, 1, 0, 3, 3, 97, 46, 98, 0, 80, 7 :: u8], sk_sizes = [],
    sk_out = [], sk_room = 3\<rparr>"
  define open_tcp where "open_tcp = (\<lambda>h p. if (h, p) = (''a.b'', 80 :: u16) then Inr (0 :: nat) else Inl Plain_Error)"
  have "sk_in s = greeting [2] @ login (Some (''me'', ''pw'')) @ [5, 1, 0] @ request_addr (Domain ''a.b'' 80) @ [7]"
    "3 \<le> sk_room s" "open_tcp ''a.b'' 80 = Inr 0"
    by (simp_all add: s_def t p open_tcp_def)
  with socks5_connect_served [OF t(2,3), of s 0 "[7]" open_tcp "\<lambda>_. None" "SockV4 (1, 9)" "SockV4 (2, 1080)"
      "\<lambda>_. None" "Inl Plain_Error"]
  have "fst (socks5_handle (\<lambda>_. None) (SockV4 (1, 9)) (SockV4 (2, 1080)) (\<lambda>_. None) open_tcp (Inl Plain_Error)
      (Some (''me'', ''pw'')) s) = Inr (Tunnel 0)"
    by (simp split: prod.splits)
  then show ?thesis by (simp only: s_def open_tcp_def)
qed

text \<open>
  C17. The relay of a UDP association cannot be hijacked. In every run, only datagrams from the expected
  address are passed on, in their order, and all of them as long as the task that receives them runs;
  the datagrams of the pipe are sent, in their order, to one single endpoint, which has the expected address.
\<close>

theorem relay_not_hijacked: "relay_safe ip es (relay_run (relay_new ip now) es)"
proof (induction es rule: rev_induct)
  case Nil
  show ?case by (simp add: relay_run_def relay_new_def relay_safe_def)
next
  case (snoc e es)
  then show ?case using relay_step_safe by (simp add: relay_run_def)
qed

text \<open>
  The idle timeout ends the task that sends to the client only: the other task goes on.
\<close>

lemma idle_half_open:
  assumes "sock_ip from = ip" "parse_socks5_udp buf = Inr (dst, payload)"
  shows "let r = relay_run (relay_new ip 0) [Sleep 300000, RecvFrom from buf True] in
    \<not> rl_inbound r \<and> rl_outbound r \<and> rl_passed r = [(from, dst, payload)]"
  using assms by (simp add: relay_run_def relay_new_def relay_recv_def const_defs)

end
