(* ===== verification/Float64.thy ===== *)
theory Float64
  imports Prelude "HOL-Library.Log_Nat" Complex_Main
begin

text \<open>
  The double-precision arithmetic that the rate limiter uses: an \<open>f64\<close> is a rational number, and every operation rounds its exact result to the nearest number with 53
  significant bits, ties to even. Overflow, subnormal numbers and NaN are left out: the
  limiter adds, subtracts, multiplies and divides byte counts and seconds, far from both ends of the exponent range.
\<close>

section \<open>Rounding\<close>

text \<open>The exponent of a positive number\<close>

definition expo :: "rat \<Rightarrow> int" where
  "expo x =
     (let (a, b) = quotient_of x; k = int (floorlog 2 (nat a)) - int (floorlog 2 (nat b)) in
      if 2 powi k \<le> x then k else k - 1)"

definition round_even :: "rat \<Rightarrow> int" where
  "round_even x =
     (let f = \<lfloor>x\<rfloor>; d = x - of_int f in if d < 1 / 2 \<or> (d = 1 / 2 \<and> even f) then f else f + 1)"

definition round_pos :: "rat \<Rightarrow> rat" where
  "round_pos x = (let q = 2 powi (expo x - 52) in of_int (round_even (x / q)) * q)"

definition f64 :: "rat \<Rightarrow> rat" where
  "f64 x = (if x = 0 then 0 else if x < 0 then - round_pos (- x) else round_pos x)"

section \<open>Lemmas\<close>

lemma round_even_of_int [simp]: "round_even (of_int n) = n"
  by (simp add: round_even_def)

lemma round_even_floor: "\<lfloor>x\<rfloor> \<le> round_even x" "round_even x \<le> \<lfloor>x\<rfloor> + 1"
  by (simp_all add: round_even_def Let_def)

lemma round_even_mono: "x \<le> y \<Longrightarrow> round_even x \<le> round_even y"
proof (cases "\<lfloor>x\<rfloor> = \<lfloor>y\<rfloor>")
  case True
  assume "x \<le> y"
  with True show ?thesis by (auto simp: round_even_def Let_def)
next
  case False
  assume "x \<le> y"
  with False have "\<lfloor>x\<rfloor> + 1 \<le> \<lfloor>y\<rfloor>" using floor_mono [of x y] by linarith
  then show ?thesis using round_even_floor(2) [of x] round_even_floor(1) [of y] by linarith
qed

lemma round_even_error: "\<bar>of_int (round_even x) - x\<bar> \<le> 1 / 2"
proof -
  have "of_int \<lfloor>x\<rfloor> \<le> x" "x < of_int \<lfloor>x\<rfloor> + 1" by linarith+
  then show ?thesis unfolding round_even_def Let_def abs_le_iff by (simp split: if_split) linarith
qed

lemma powi_split: "(2 :: rat) powi (a + b) = 2 powi a * 2 powi b"
  by (simp add: power_int_add)

lemma powi_scale: "(2 :: rat) powi e = 2 powi (e - 52) * 2 ^ 52" "(2 :: rat) powi (e + 1) = 2 powi (e - 52) * 2 ^ 53"
  using powi_split [of "e - 52" 52] powi_split [of "e - 52" 53] by (simp_all add: add.commute)

lemma powi_less: "a < b \<Longrightarrow> (2 :: rat) powi a < 2 powi b"
  by (simp add: power_int_strict_increasing)

lemma powi_le: "a \<le> b \<Longrightarrow> (2 :: rat) powi a \<le> 2 powi b"
  by (simp add: power_int_increasing)

lemma powi_pos [simp]: "0 < (2 :: rat) powi a"
  by (simp add: zero_less_power_int)

lemma expo_bounds:
  assumes "0 < x"
  shows "2 powi expo x \<le> x \<and> x < 2 powi (expo x + 1)"
proof -
  obtain a b where q: "quotient_of x = (a, b)" by fastforce
  then have b: "0 < b" and x: "x = of_int a / of_int b" using quotient_of_denom_pos quotient_of_div by blast+
  then have a: "0 < a" using assms by (simp add: zero_less_divide_iff)
  define A B where "A = floorlog 2 (nat a)" and "B = floorlog 2 (nat b)"
  have A: "2 ^ (A - 1) \<le> nat a" "nat a < 2 ^ A" "0 < A" and B: "2 ^ (B - 1) \<le> nat b" "nat b < 2 ^ B" "0 < B"
    using floorlog_bounds [of "nat a" 2] floorlog_bounds [of "nat b" 2] a b by (auto simp: A_def B_def floorlog_def)
  define k where "k = int A - int B"
  have pow: "2 powi (int n) = (of_nat (2 ^ n) :: rat)" for n by simp
  have pa: "2 powi (int (A - 1)) \<le> (of_int a :: rat)" "(of_int a :: rat) < 2 powi int A"
    and pb: "2 powi (int (B - 1)) \<le> (of_int b :: rat)" "(of_int b :: rat) < 2 powi int B"
    unfolding pow using A(1,2) B(1,2) a b by (metis nat_0_le less_imp_le of_int_of_nat_eq of_nat_le_iff of_nat_less_iff)+
  have "2 powi (int (A - 1)) / 2 powi int B < x" using frac_less2 [OF _ pa(1) _ pb(2)] b unfolding x by simp
  moreover have "x < 2 powi int A / 2 powi (int (B - 1))" using frac_less [OF _ pa(2) _ pb(1)] a unfolding x by simp
  moreover have "k - 1 = int (A - 1) - int B" "k + 1 = int A - int (B - 1)" using A(3) B(3) by (simp_all add: k_def of_nat_diff)
  ultimately have "2 powi (k - 1) < x" "x < 2 powi (k + 1)"
    using power_int_diff [of "2 :: rat" "int (A - 1)" "int B"] power_int_diff [of "2 :: rat" "int A" "int (B - 1)"] by (metis zero_neq_numeral)+
  then show ?thesis
    using q powi_le [of k k] by (auto simp: expo_def Let_def A_def B_def k_def)
qed

lemma scaled:
  assumes "0 < x"
  shows "2 ^ 52 \<le> x / 2 powi (expo x - 52)" "x / 2 powi (expo x - 52) < 2 ^ 53"
  using expo_bounds [OF assms] powi_scale [of "expo x"] powi_pos [of "expo x - 52"]
  by (simp_all add: pos_le_divide_eq pos_divide_less_eq mult.commute)

lemma round_pos_bounds:
  assumes "0 < x"
  shows "2 powi expo x \<le> round_pos x" "round_pos x \<le> 2 powi (expo x + 1)"
proof -
  have r: "2 ^ 52 \<le> round_even (x / 2 powi (expo x - 52))" "round_even (x / 2 powi (expo x - 52)) \<le> 2 ^ 53"
    using round_even_mono [of "2 ^ 52" "x / 2 powi (expo x - 52)"] round_even_mono [of "x / 2 powi (expo x - 52)" "2 ^ 53"]
      scaled [OF assms] round_even_of_int [of "2 ^ 52"] round_even_of_int [of "2 ^ 53"] by simp_all
  have s: "2 powi (expo x - 52) * 2 ^ 52 \<le> round_pos x" "round_pos x \<le> 2 powi (expo x - 52) * 2 ^ 53"
    using r by (simp_all add: round_pos_def Let_def)
  then show "2 powi expo x \<le> round_pos x" "round_pos x \<le> 2 powi (expo x + 1)"
    using powi_scale [of "expo x"] by simp_all
qed

lemma round_pos_mono:
  assumes "0 < x" "x \<le> y"
  shows "round_pos x \<le> round_pos y"
proof (cases "expo x = expo y")
  case True
  have "x / 2 powi (expo x - 52) \<le> y / 2 powi (expo x - 52)" using assms(2) by (simp add: divide_right_mono)
  with True show ?thesis using round_even_mono by (simp add: round_pos_def Let_def)
next
  case False
  have "0 < y" using assms by simp
  have "expo x \<le> expo y"
  proof (rule ccontr)
    assume "\<not> ?thesis"
    then have "2 powi (expo y + 1) \<le> (2 :: rat) powi expo x" by (intro powi_le) simp
    with expo_bounds [OF assms(1)] expo_bounds [OF \<open>0 < y\<close>] assms(2) show False by linarith
  qed
  with False have "2 powi (expo x + 1) \<le> (2 :: rat) powi expo y" by (intro powi_le) simp
  with round_pos_bounds [OF assms(1)] round_pos_bounds [OF \<open>0 < y\<close>] show ?thesis by linarith
qed

lemma round_pos_error:
  assumes "0 < x"
  shows "\<bar>round_pos x - x\<bar> \<le> x / 2 ^ 53"
proof -
  define q where "q = (2 :: rat) powi (expo x - 52)"
  have q: "0 < q" "2 ^ 52 * q \<le> x" using scaled(1) [OF assms] by (simp_all add: q_def field_simps)
  have "\<bar>of_int (round_even (x / q)) - x / q\<bar> * q \<le> 1 / 2 * q" using round_even_error [of "x / q"] q(1) by (intro mult_right_mono) simp_all
  moreover have "\<bar>of_int (round_even (x / q)) - x / q\<bar> * q = \<bar>round_pos x - x\<bar>"
    using q(1) abs_mult [of "of_int (round_even (x / q)) - x / q" q] by (simp add: round_pos_def Let_def q_def [symmetric] left_diff_distrib)
  ultimately show ?thesis using q(2) by simp
qed

text \<open>Numbers with at most 53 significant bits are not changed.\<close>

lemma round_pos_exact:
  assumes "x = of_int m * 2 powi k" "0 < m" "m \<le> 2 ^ 53"
  shows "round_pos x = x"
proof -
  have x: "0 < x" using assms by simp
  have "x \<le> 2 powi (k + 53)" using assms powi_split [of k 53] by (simp add: of_int_le_numeral_power_cancel_iff)
  then have "expo x \<le> k + 53" using expo_bounds [OF x] powi_less [of "k + 53" "expo x"] by linarith
  then consider "expo x - 52 \<le> k" | "expo x = k + 53" by linarith
  then obtain i where "x = of_int i * 2 powi (expo x - 52)"
  proof cases
    case 1
    then have "(2 :: rat) powi k = of_int (2 ^ nat (k - (expo x - 52))) * 2 powi (expo x - 52)"
      using powi_split [of "k - (expo x - 52)" "expo x - 52"] by (simp add: power_int_def)
    then have "x = of_int (m * 2 ^ nat (k - (expo x - 52))) * 2 powi (expo x - 52)" using assms(1) by simp
    then show thesis using that by blast
  next
    case 2
    then have "x = 2 powi (k + 53)" using \<open>x \<le> 2 powi (k + 53)\<close> expo_bounds [OF x] by simp
    then have "x = of_int (2 ^ 52) * 2 powi (expo x - 52)" using powi_scale(1) [of "expo x"] 2 by simp
    then show thesis using that by blast
  qed
  then show ?thesis by (metis nonzero_mult_div_cancel_right powi_pos less_irrefl round_even_of_int round_pos_def)
qed

text \<open>What the arithmetic on non-negative numbers relies on\<close>

lemma f64_zero [simp]: "f64 0 = 0"
  by (simp add: f64_def)

lemma f64_pos: "0 < x \<Longrightarrow> f64 x = round_pos x"
  by (simp add: f64_def)

lemma f64_nonneg: "0 \<le> x \<Longrightarrow> 0 \<le> f64 x"
proof (cases "x = 0")
  case False
  assume "0 \<le> x"
  with False have "0 < x" by simp
  from less_le_trans [OF powi_pos round_pos_bounds(1) [OF this]] show ?thesis by (simp add: f64_pos [OF \<open>0 < x\<close>])
qed simp

lemma f64_mono: "0 \<le> x \<Longrightarrow> x \<le> y \<Longrightarrow> f64 x \<le> f64 y"
  using round_pos_mono [of x y] f64_nonneg [of y] by (auto simp: f64_def)

lemma f64_error: "0 \<le> x \<Longrightarrow> \<bar>f64 x - x\<bar> \<le> x / 2 ^ 53"
  using round_pos_error [of x] by (cases "x = 0") (simp_all add: f64_def)

lemma f64_upper: "0 \<le> x \<Longrightarrow> f64 x \<le> x + x / 2 ^ 53"
  using f64_error [of x] by linarith

lemma f64_lower: "0 \<le> x \<Longrightarrow> x - x / 2 ^ 53 \<le> f64 x"
  using f64_error [of x] by linarith

lemma f64_exact:
  assumes "x = of_int m * 2 powi k" "0 \<le> m" "m \<le> 2 ^ 53"
  shows "f64 x = x"
proof (cases "m = 0")
  case False
  then have "0 < m" using assms(2) by simp
  then have "0 < x" using assms(1) by simp
  then show ?thesis using round_pos_exact [OF assms(1) \<open>0 < m\<close> assms(3)] by (simp add: f64_pos)
qed (simp add: assms(1))

lemma f64_nat: "n \<le> 2 ^ 53 \<Longrightarrow> f64 (of_nat n) = of_nat n"
  using f64_exact [of "of_nat n" "int n" 0] by (simp add: of_nat_le_iff [symmetric])

end
