(* ===== verification/Rate.thy ===== *)
theory Rate
  imports Float64
begin

text \<open>
  The rate limiter (\<open>src/src/server/limit.rs\<close>): a token bucket in double-precision arithmetic. An \<open>Instant\<close> is a number of nanoseconds. The lock is held for a whole attempt, so the
  history of a limiter is the sequence of the attempts of all sessions that share it.
\<close>

section \<open>The limiter\<close>

record rate_limiter =
  rl_enabled :: bool
  rl_rate_bps :: rat
  rl_cap :: rat
  rl_tokens :: rat
  rl_last :: nat

definition rate_limiter_new :: "u64 \<Rightarrow> nat \<Rightarrow> rate_limiter" where
  "rate_limiter_new mbps now =
     (let rate_bps = f64 (f64 (f64 (of_nat (unat mbps)) * 1000000) / 8) in
      \<lparr>rl_enabled = mbps > 0, rl_rate_bps = rate_bps, rl_cap = max rate_bps (f64 (64 * 1024)),
       rl_tokens = max rate_bps (f64 (64 * 1024)), rl_last = now\<rparr>)"

text \<open>\<open>Duration::as_secs_f64\<close> of a number of nanoseconds\<close>

definition as_secs_f64 :: "nat \<Rightarrow> rat" where
  "as_secs_f64 d = f64 (f64 (of_nat (d div 10 ^ 9)) + f64 (f64 (of_nat (d mod 10 ^ 9)) / 10 ^ 9))"

definition refill_tokens :: "nat \<Rightarrow> rate_limiter \<Rightarrow> rate_limiter" where
  "refill_tokens now rl =
     (let dt = as_secs_f64 (now - rl_last rl) in
      rl\<lparr>rl_last := now, rl_tokens := min (f64 (rl_tokens rl + f64 (dt * rl_rate_bps rl))) (rl_cap rl)\<rparr>)"

text \<open>One turn of the loop of \<open>acquire\<close>: the seconds to wait before the next turn, none when the bytes are granted.\<close>

definition acquire_turn :: "nat \<Rightarrow> nat \<Rightarrow> rate_limiter \<Rightarrow> rat option \<times> rate_limiter" where
  "acquire_turn now n rl =
     (if \<not> rl_enabled rl then (None, rl)
      else
        let g = refill_tokens now rl;
            n' = min (f64 (of_nat n)) (rl_cap g) in
        if rl_tokens g \<ge> n' then (None, g\<lparr>rl_tokens := f64 (rl_tokens g - n')\<rparr>)
        else (Some (f64 (f64 (n' - rl_tokens g) / rl_rate_bps g)), g))"

section \<open>Abstract view\<close>

text \<open>A history of turns, each at its time for a number of bytes: the bytes that are granted, and the limiter.\<close>

fun limiter_run :: "rate_limiter \<Rightarrow> (nat \<times> nat) list \<Rightarrow> nat \<times> rate_limiter" where
  "limiter_run rl [] = (0, rl)"
| "limiter_run rl ((now, n) # turns) =
     (case acquire_turn now n rl of
        (None, rl') \<Rightarrow> (let (g, rl'') = limiter_run rl' turns in (n + g, rl''))
      | (Some w, rl') \<Rightarrow> limiter_run rl' turns)"

text \<open>The state of an enabled limiter for \<open>R\<close> bytes per second\<close>

definition limiter_ok :: "nat \<Rightarrow> rate_limiter \<Rightarrow> bool" where
  "limiter_ok R rl \<longleftrightarrow> rl_enabled rl \<and> rl_rate_bps rl = of_nat R \<and> rl_cap rl = of_nat R \<and> 0 \<le> rl_tokens rl \<and> rl_tokens rl \<le> of_nat R"

section \<open>Lemmas\<close>

lemma rate_limiter_new_ok:
  assumes "1 \<le> unat mbps" "unat mbps \<le> 2 ^ 32"
  shows "limiter_ok (125000 * unat mbps) (rate_limiter_new mbps now)" "rl_last (rate_limiter_new mbps now) = now"
    "rl_tokens (rate_limiter_new mbps now) = of_nat (125000 * unat mbps)"
proof -
  define m where "m = unat mbps"
  have m: "1 \<le> m" "m \<le> 2 ^ 32" using assms by (simp_all add: m_def)
  have "f64 (of_nat m) = of_nat m" "f64 (of_nat (m * 1000000)) = of_nat (m * 1000000)" "f64 (of_nat (125000 * m)) = of_nat (125000 * m)"
    using m by (intro f64_nat; simp)+
  then have r: "f64 (f64 (f64 (of_nat m) * 1000000) / 8) = of_nat (125000 * m)" by simp
  have b: "f64 (64 * 1024) = 65536" using f64_nat [of 65536] by simp
  have "max (of_nat (125000 * m)) 65536 = (of_nat (125000 * m) :: rat)" using m by (simp add: max_def)
  moreover have "mbps > 0" using assms(1) by (cases "mbps = 0") (simp_all add: word_neq_0_conv)
  ultimately show "limiter_ok (125000 * unat mbps) (rate_limiter_new mbps now)" "rl_last (rate_limiter_new mbps now) = now"
    "rl_tokens (rate_limiter_new mbps now) = of_nat (125000 * unat mbps)"
    using r b unfolding m_def by (simp_all add: rate_limiter_new_def limiter_ok_def Let_def)
qed

text \<open>The seconds of a duration, up to rounding\<close>

abbreviation secs :: "nat \<Rightarrow> rat" where
  "secs d \<equiv> of_nat d / 10 ^ 9"

lemma secs_split: "secs d = of_nat (d div 10 ^ 9) + of_nat (d mod 10 ^ 9) / 10 ^ 9"
proof -
  have "(of_nat (d div 10 ^ 9 * 10 ^ 9 + d mod 10 ^ 9) :: rat) = of_nat (d div 10 ^ 9) * 10 ^ 9 + of_nat (d mod 10 ^ 9)"
    by (simp only: of_nat_add of_nat_mult of_nat_power of_nat_numeral)
  then have "(of_nat d :: rat) = of_nat (d div 10 ^ 9) * 10 ^ 9 + of_nat (d mod 10 ^ 9)" by (simp only: div_mult_mod_eq)
  then show ?thesis by (simp add: add_divide_distrib)
qed

abbreviation ulp :: rat where "ulp \<equiv> 1 / 2 ^ 53"

lemma f64_le: "0 \<le> x \<Longrightarrow> x \<le> y \<Longrightarrow> f64 x \<le> y * (1 + ulp)"
  using f64_upper [of x] mult_right_mono [of x y "1 + ulp"] by (simp add: distrib_left)

lemma f64_ge: "0 \<le> y \<Longrightarrow> y \<le> x \<Longrightarrow> y * (1 - ulp) \<le> f64 x"
  using f64_lower [of x] mult_right_mono [of y x "1 - ulp"] by (simp add: right_diff_distrib)

lemma nanos_exact: "f64 (of_nat (d mod 10 ^ 9)) = of_nat (d mod 10 ^ 9)"
proof (rule f64_nat)
  have "d mod 10 ^ 9 < 10 ^ 9" by simp
  also have "\<dots> \<le> 2 ^ 53" by simp
  finally show "d mod 10 ^ 9 \<le> 2 ^ 53" by (rule less_imp_le)
qed

lemma as_secs_f64_bounds:
  "as_secs_f64 d \<le> secs d * (1 + ulp) * (1 + ulp)" "secs d * (1 - ulp) * (1 - ulp) \<le> as_secs_f64 d" "0 \<le> as_secs_f64 d"
proof -
  define s q where "s = (of_nat (d div 10 ^ 9) :: rat)" and "q = (of_nat (d mod 10 ^ 9) / 10 ^ 9 :: rat)"
  have nn: "0 \<le> s" "0 \<le> q" by (simp_all add: s_def q_def)
  have d: "secs d = s + q" using secs_split [of d] by (simp add: s_def q_def)
  have f: "as_secs_f64 d = f64 (f64 s + f64 q)" unfolding as_secs_f64_def nanos_exact s_def q_def ..
  have up: "f64 s + f64 q \<le> secs d * (1 + ulp)" using f64_le [OF nn(1) order_refl] f64_le [OF nn(2) order_refl] unfolding d distrib_right by (rule add_mono)
  have lo: "secs d * (1 - ulp) \<le> f64 s + f64 q" using f64_ge [OF nn(1) order_refl] f64_ge [OF nn(2) order_refl] unfolding d distrib_right by (rule add_mono)
  have sum: "0 \<le> f64 s + f64 q" using f64_nonneg nn by simp
  show "as_secs_f64 d \<le> secs d * (1 + ulp) * (1 + ulp)" unfolding f by (rule f64_le [OF sum up])
  have "0 \<le> secs d * (1 - ulp)" by (intro mult_nonneg_nonneg) simp_all
  then show "secs d * (1 - ulp) * (1 - ulp) \<le> as_secs_f64 d" unfolding f using lo by (rule f64_ge)
  show "0 \<le> as_secs_f64 d" unfolding f by (rule f64_nonneg [OF sum])
qed

text \<open>Four roundings up cost less than five units, five roundings down less than six.\<close>

lemma ulps: "(1 + ulp) * (1 + ulp) * (1 + ulp) * (1 + ulp) \<le> 1 + 5 * ulp"
  "1 - 6 * ulp \<le> (1 - ulp) * (1 - ulp) * (1 - ulp) * (1 - ulp) * (1 - ulp)" "1 / 2 \<le> (1 - ulp) * (1 - ulp) * (1 - ulp)"
  by (simp_all add: field_simps)

lemma earned_upper:
  assumes "limiter_ok R rl"
  shows "f64 (as_secs_f64 d * rl_rate_bps rl) \<le> secs d * of_nat R * ((1 + ulp) * (1 + ulp) * (1 + ulp))"
proof -
  have "as_secs_f64 d * of_nat R \<le> secs d * (1 + ulp) * (1 + ulp) * of_nat R" by (rule mult_right_mono [OF as_secs_f64_bounds(1)]) simp
  from f64_le [OF _ this] have "f64 (as_secs_f64 d * of_nat R) \<le> secs d * (1 + ulp) * (1 + ulp) * of_nat R * (1 + ulp)"
    using as_secs_f64_bounds(3) [of d] by simp
  also have "\<dots> = secs d * of_nat R * ((1 + ulp) * (1 + ulp) * (1 + ulp))" by (simp only: mult_ac)
  finally show ?thesis using assms by (simp only: limiter_ok_def)
qed

lemma refill_tokens_ok:
  assumes "limiter_ok R rl"
  shows "limiter_ok R (refill_tokens now rl)" "rl_last (refill_tokens now rl) = now"
    "rl_tokens (refill_tokens now rl) \<le> rl_tokens rl + secs (now - rl_last rl) * of_nat R * (1 + 5 * ulp) + of_nat R * ulp"
proof -
  define a where "a = f64 (as_secs_f64 (now - rl_last rl) * rl_rate_bps rl)"
  define X where "X = secs (now - rl_last rl) * of_nat R"
  have ok: "rl_rate_bps rl = of_nat R" "rl_cap rl = of_nat R" "0 \<le> rl_tokens rl" "rl_tokens rl \<le> of_nat R" "rl_enabled rl"
    using assms by (simp_all add: limiter_ok_def)
  have a: "0 \<le> a" "a \<le> X * ((1 + ulp) * (1 + ulp) * (1 + ulp))"
    using earned_upper [OF assms, of "now - rl_last rl"] as_secs_f64_bounds(3) [of "now - rl_last rl"] ok(1)
    by (simp_all only: a_def X_def) (simp add: f64_nonneg)
  have t: "rl_tokens (refill_tokens now rl) = min (f64 (rl_tokens rl + a)) (of_nat R)"
    by (simp add: refill_tokens_def a_def ok(2) Let_def)
  have "0 \<le> f64 (rl_tokens rl + a)" using ok(3) a(1) by (simp add: f64_nonneg)
  then show "limiter_ok R (refill_tokens now rl)" "rl_last (refill_tokens now rl) = now"
    using ok t by (simp_all add: limiter_ok_def refill_tokens_def Let_def)
  have "f64 (rl_tokens rl + a) \<le> (rl_tokens rl + X * ((1 + ulp) * (1 + ulp) * (1 + ulp))) * (1 + ulp)"
    using ok(3) a by (intro f64_le) linarith+
  also have "\<dots> = rl_tokens rl + rl_tokens rl * ulp + X * ((1 + ulp) * (1 + ulp) * (1 + ulp) * (1 + ulp))" by (simp only: algebra_simps)
  also have "\<dots> \<le> rl_tokens rl + of_nat R * ulp + X * (1 + 5 * ulp)"
    using ok(4) ulps(1) by (intro add_mono mult_right_mono mult_left_mono) (simp_all add: X_def)
  finally show "rl_tokens (refill_tokens now rl) \<le> rl_tokens rl + secs (now - rl_last rl) * of_nat R * (1 + 5 * ulp) + of_nat R * ulp"
    unfolding t X_def [symmetric] by linarith
qed

text \<open>A request is charged at most the capacity of the bucket.\<close>

lemma charge_eq: "R \<le> 2 ^ 53 \<Longrightarrow> min (f64 (of_nat n)) (of_nat R) = of_nat (min n R)"
proof -
  assume R: "R \<le> 2 ^ 53"
  show ?thesis
  proof (cases "n \<le> R")
    case True
    with R f64_nat [of n] show ?thesis by (simp add: min_def)
  next
    case False
    then have "(of_nat R :: rat) \<le> of_nat n" by simp
    then have "of_nat R \<le> f64 (of_nat n)" using f64_mono [of "of_nat R" "of_nat n"] f64_nat [OF R] by simp
    with False show ?thesis by (simp add: min_def)
  qed
qed

text \<open>One turn: what is charged and what is left come from what was there, the time that passed, and rounding.\<close>

lemma acquire_turn_budget:
  assumes "limiter_ok R rl" "R \<le> 2 ^ 53" "acquire_turn now n rl = (w, rl')"
  shows "limiter_ok R rl'" "rl_last rl' = now"
    "(if w = None then of_nat (min n R) else 0) + rl_tokens rl' \<le>
       rl_tokens rl + secs (now - rl_last rl) * of_nat R * (1 + 5 * ulp) + 2 * of_nat R * ulp"
proof -
  let ?g = "refill_tokens now rl"
  note g = refill_tokens_ok [OF assms(1), of now]
  have gok: "rl_cap ?g = of_nat R" "0 \<le> rl_tokens ?g" "rl_tokens ?g \<le> of_nat R" using g(1) by (simp_all add: limiter_ok_def)
  have n: "min (f64 (of_nat n)) (rl_cap ?g) = of_nat (min n R)" using charge_eq [OF assms(2)] gok(1) by simp
  have en: "rl_enabled rl" using assms(1) by (simp add: limiter_ok_def)
  consider (granted) "of_nat (min n R) \<le> rl_tokens ?g" "w = None" "rl' = ?g\<lparr>rl_tokens := f64 (rl_tokens ?g - of_nat (min n R))\<rparr>"
    | (refused) "w \<noteq> None" "rl' = ?g"
    using assms(3) en by (auto simp: acquire_turn_def Let_def n split: if_splits)
  then have "limiter_ok R rl' \<and> rl_last rl' = now \<and>
      (if w = None then of_nat (min n R) else 0) + rl_tokens rl' \<le> rl_tokens ?g + of_nat R * ulp"
  proof cases
    case granted
    define r where "r = rl_tokens ?g - of_nat (min n R)"
    have r: "0 \<le> r" "r \<le> of_nat R" using granted(1) gok(3) by (simp_all add: r_def)
    have "f64 r \<le> of_nat R" using f64_mono [OF r] f64_nat [OF assms(2)] by simp
    moreover have "r / 2 ^ 53 \<le> of_nat R * ulp" using r(2) by simp
    ultimately show ?thesis
      using granted g(1,2) f64_nonneg [OF r(1)] f64_upper [OF r(1)] by (simp add: limiter_ok_def r_def [symmetric]) (simp add: r_def)
  next
    case refused
    then show ?thesis using g(1,2) by auto
  qed
  with g(3) show "limiter_ok R rl'" "rl_last rl' = now"
    "(if w = None then of_nat (min n R) else 0) + rl_tokens rl' \<le>
       rl_tokens rl + secs (now - rl_last rl) * of_nat R * (1 + 5 * ulp) + 2 * of_nat R * ulp"
    by linarith+
qed

text \<open>A request of at most \<open>M\<close> capacities gets at most \<open>M\<close> times what it is charged.\<close>

lemma oversize_factor: "1 \<le> M \<Longrightarrow> n \<le> M * R \<Longrightarrow> n \<le> M * min n R" for n M R :: nat
  by (cases "n \<le> R") (simp_all add: min_def)

lemma limiter_run_budget:
  assumes "limiter_ok R rl" "R \<le> 2 ^ 53" "1 \<le> M" "sorted (rl_last rl # map fst turns)" "list_all (\<lambda>(t, n). n \<le> M * R) turns"
    and "limiter_run rl turns = (g, rl')"
  shows "limiter_ok R rl' \<and> rl_last rl \<le> rl_last rl' \<and>
    of_nat g + of_nat M * rl_tokens rl' \<le> of_nat M * (rl_tokens rl +
      (secs (rl_last rl' - rl_last rl) * of_nat R * (1 + 5 * ulp) + of_nat (length turns) * (2 * of_nat R * ulp)))"
  using assms
proof (induction rl turns arbitrary: g rl' rule: limiter_run.induct)
  case (2 rl now n turns)
  obtain w rl1 where w: "acquire_turn now n rl = (w, rl1)" by fastforce
  obtain g1 where r: "limiter_run rl1 turns = (g1, rl')" and g: "g = (if w = None then n else 0) + g1"
    using 2(8) w by (cases w) (auto split: prod.splits)
  have nR: "n \<le> M * R" using 2(7) by simp
  note b = acquire_turn_budget [OF 2(3,4) w]
  have s: "sorted (rl_last rl1 # map fst turns)" "list_all (\<lambda>(t, n). n \<le> M * R) turns" "rl_last rl \<le> now" using 2(6,7) b(2) by auto
  let ?D = "\<lambda>a b. secs (a - b) * of_nat R * (1 + 5 * ulp)" and ?E = "2 * of_nat R * ulp"
  have ih: "limiter_ok R rl' \<and> rl_last rl1 \<le> rl_last rl' \<and>
      of_nat g1 + of_nat M * rl_tokens rl' \<le> of_nat M * (rl_tokens rl1 + (?D (rl_last rl') (rl_last rl1) + of_nat (length turns) * ?E))"
    using 2(1) [OF w [symmetric] _ b(1) 2(4,5) s(1,2) r] 2(2) [OF w [symmetric] _ b(1) 2(4,5) s(1,2) r] by (cases w) auto
  have "secs (rl_last rl' - rl_last rl) = secs (rl_last rl' - rl_last rl1) + secs (now - rl_last rl)"
    using ih s(3) b(2) by (simp add: of_nat_diff flip: add_divide_distrib)
  then have D: "?D (rl_last rl') (rl_last rl) = ?D (rl_last rl') (rl_last rl1) + ?D now (rl_last rl)"
    by (simp only: distrib_right)
  have E: "of_nat (length ((now, n) # turns)) * ?E = of_nat (length turns) * ?E + ?E" by (simp add: distrib_right)
  have "(of_nat (if w = None then n else 0) :: rat) \<le> of_nat M * (if w = None then of_nat (min n R) else 0)"
    using of_nat_mono [OF oversize_factor [OF 2(5) nR], where 'a = rat] by simp
  also have "\<dots> \<le> of_nat M * (rl_tokens rl + ?D now (rl_last rl) + ?E - rl_tokens rl1)"
    using b(3) by (intro mult_left_mono) simp_all
  finally have "of_nat g + of_nat M * rl_tokens rl' \<le>
      of_nat M * (rl_tokens rl + ?D now (rl_last rl) + ?E - rl_tokens rl1) +
      of_nat M * (rl_tokens rl1 + (?D (rl_last rl') (rl_last rl1) + of_nat (length turns) * ?E))"
    using ih unfolding g of_nat_add by linarith
  also have "\<dots> = of_nat M * (rl_tokens rl + (?D (rl_last rl') (rl_last rl) + of_nat (length ((now, n) # turns)) * ?E))"
    unfolding D E by (simp add: algebra_simps)
  finally show ?case using ih b(2) s(3) by simp
qed simp

text \<open>
  Waiting is bounded and enough: a refusal asks for at most a second, and a turn for the same bytes at least a nanosecond later than asked for is granted when no other session
  takes tokens meanwhile.
\<close>

lemma earned_lower:
  assumes "0 \<le> y" "y \<le> secs d"
  shows "y * of_nat R * ((1 - ulp) * (1 - ulp) * (1 - ulp)) \<le> f64 (as_secs_f64 d * of_nat R)"
proof -
  have "y * (1 - ulp) * (1 - ulp) \<le> secs d * (1 - ulp) * (1 - ulp)" using assms(2) by (intro mult_right_mono) simp_all
  then have "y * (1 - ulp) * (1 - ulp) * of_nat R \<le> as_secs_f64 d * of_nat R"
    using as_secs_f64_bounds(2) [of d] by (intro mult_right_mono) simp_all
  moreover have "0 \<le> y * (1 - ulp) * (1 - ulp) * of_nat R" using assms(1) by (intro mult_nonneg_nonneg) simp_all
  ultimately have "y * (1 - ulp) * (1 - ulp) * of_nat R * (1 - ulp) \<le> f64 (as_secs_f64 d * of_nat R)" by (intro f64_ge)
  then show ?thesis by (simp only: mult_ac)
qed

lemma wait_algebra: "0 < r \<Longrightarrow> (m / r * p * p + e) * r * (p * p * p) = m * (p * p * p * p * p) + e * r * (p * p * p)" for m r p e :: rat
  by (simp add: algebra_simps)

lemma wait_suffices:
  assumes "limiter_ok R rl" "0 < R" "n \<le> R" "R \<le> 2 ^ 53" "acquire_turn now n rl = (Some w, rl')"
  shows "0 \<le> w \<and> w \<le> 1" "w + 1 / 10 ^ 9 \<le> secs (now' - now) \<Longrightarrow> fst (acquire_turn now' n rl') = None"
proof -
  note b = acquire_turn_budget [OF assms(1,4,5)]
  have ok: "rl_rate_bps rl' = of_nat R" "rl_cap rl' = of_nat R" "0 \<le> rl_tokens rl'" "rl_enabled rl'" using b(1) by (simp_all add: limiter_ok_def)
  have fn: "f64 (of_nat n) = of_nat n" using assms(3,4) by (intro f64_nat) simp
  have g: "rl' = refill_tokens now rl" "rl_tokens rl' < of_nat n" "w = f64 (f64 (of_nat n - rl_tokens rl') / of_nat R)"
    using assms(1,3,5) refill_tokens_ok(1) [OF assms(1), of now] fn by (auto simp: acquire_turn_def Let_def limiter_ok_def split: if_splits)
  define m where "m = of_nat n - rl_tokens rl'"
  have m: "0 \<le> m" "m \<le> of_nat R" using g(2) ok(3) assms(3) by (simp_all add: m_def)
  have fm: "0 \<le> f64 m" "f64 m \<le> of_nat R" "m * (1 - ulp) \<le> f64 m"
    using f64_nonneg [OF m(1)] f64_mono [OF m] f64_nat [OF assms(4)] f64_ge [OF m(1) order_refl] by simp_all
  have q: "0 \<le> f64 m / of_nat R" "f64 m / of_nat R \<le> 1" using fm assms(2) by simp_all
  have w: "w = f64 (f64 m / of_nat R)" using g(3) by (simp add: m_def)
  show "0 \<le> w \<and> w \<le> 1" unfolding w using f64_nonneg [OF q(1)] f64_mono [OF q] f64_nat [of 1] by simp
  assume d: "w + 1 / 10 ^ 9 \<le> secs (now' - now)"
  have "m / of_nat R * (1 - ulp) \<le> f64 m / of_nat R" using divide_right_mono [OF fm(3), of "of_nat R"] by (simp only: times_divide_eq_left of_nat_0_le_iff)
  moreover have "0 \<le> m / of_nat R * (1 - ulp)" using m(1) by (intro mult_nonneg_nonneg) simp_all
  ultimately have wl: "m / of_nat R * (1 - ulp) * (1 - ulp) \<le> w" unfolding w by (intro f64_ge)
  let ?y = "m / of_nat R * (1 - ulp) * (1 - ulp) + 1 / 10 ^ 9" and ?a = "f64 (as_secs_f64 (now' - now) * of_nat R)"
  have "0 \<le> m / of_nat R * (1 - ulp) * (1 - ulp)" using m(1) by (intro mult_nonneg_nonneg) simp_all
  then have y: "0 \<le> ?y" "?y \<le> secs (now' - now)" using order_trans [OF add_right_mono [OF wl] d] by (simp_all only: add_nonneg_nonneg zero_le_divide_1_iff zero_le_power zero_le_numeral)
  have "m * (1 - 6 * ulp) \<le> m * ((1 - ulp) * (1 - ulp) * (1 - ulp) * (1 - ulp) * (1 - ulp))" using ulps(2) m(1) by (rule mult_left_mono)
  moreover have "1 / 10 ^ 9 * of_nat R * (1 / 2) \<le> 1 / 10 ^ 9 * of_nat R * ((1 - ulp) * (1 - ulp) * (1 - ulp))"
    using ulps(3) by (rule mult_left_mono) simp
  moreover have "m \<le> m * (1 - 6 * ulp) + 1 / 10 ^ 9 * of_nat R * (1 / 2)" using m by (simp add: algebra_simps)
  ultimately have "m \<le> ?y * of_nat R * ((1 - ulp) * (1 - ulp) * (1 - ulp))"
    unfolding wait_algebra [OF of_nat_0_less_iff [THEN iffD2, OF assms(2)]] by linarith
  then have "of_nat n \<le> rl_tokens rl' + ?a" using earned_lower [OF y, of R] by (simp add: m_def)
  then have "of_nat n \<le> f64 (rl_tokens rl' + ?a)" using f64_mono [of "of_nat n"] fn by fastforce
  then have "of_nat n \<le> rl_tokens (refill_tokens now' rl')"
    using assms(3) by (simp add: refill_tokens_def b(2) ok(1,2) Let_def)
  then show "fst (acquire_turn now' n rl') = None"
    using ok(4) fn refill_tokens_ok(1) [OF b(1), of now'] assms(3) by (simp add: acquire_turn_def Let_def limiter_ok_def)
qed

text \<open>Three turns at one megabit per second: the full bucket is granted, a second later most of it, and then a request for more than what is left is refused.\<close>

lemma f64_numeral: "(numeral k :: nat) \<le> 2 ^ 53 \<Longrightarrow> f64 (numeral k) = numeral k"
  using f64_nat [of "numeral k"] by simp

lemma demo_turns:
  "limiter_run (rate_limiter_new 1 0) [(0, 125000), (1000000000, 100000), (1000000000, 50000)] =
     (225000, \<lparr>rl_enabled = True, rl_rate_bps = 125000, rl_cap = 125000, rl_tokens = 25000, rl_last = 1000000000\<rparr>)"
  using f64_nat [of 1] by (simp add: rate_limiter_new_def acquire_turn_def refill_tokens_def as_secs_f64_def Let_def f64_numeral)

section \<open>Properties\<close>



text \<open>
  A request for more than the bucket holds is granted for the price of the bucket: at one megabit per second a frame of one mebibyte passes at once and empties it,
  so that frames of this size pass at more than eight times the configured rate.
\<close>

lemma oversize_granted:
  "limiter_run (rate_limiter_new 1 0) [(0, 1048576), (1000000000, 1048576)] =
     (2097152, \<lparr>rl_enabled = True, rl_rate_bps = 125000, rl_cap = 125000, rl_tokens = 0, rl_last = 1000000000\<rparr>)"
  using f64_nat [of 1] by (simp add: rate_limiter_new_def acquire_turn_def refill_tokens_def as_secs_f64_def Let_def f64_numeral)

end
