(* ===== verification/Spec2Isabelle.thy ===== *)
theory Spec2Isabelle
  imports Entry Socks5 Rate
begin

text \<open>
  Verification of a proxy that carries TCP connections and UDP datagrams from a client to a server over WebTransport (QUIC streams and datagrams),
  with a fallback channel over an HTTPS POST or a WebSocket. File names are relative to \<open>src/src/\<close>.

  \<^bold>\<open>The program.\<close> A process starts in \<open>main.rs\<close> as a client, a server or a health check. The client's inbounds (\<open>client/socks5.rs\<close>, \<open>client/http_proxy.rs\<close>) accept
  local requests and ask the outbound (\<open>client/outbound.rs\<close>) for a session. The outbound opens it on a pooled WebTransport connection (\<open>client/wt.rs\<close>) or,
  when a circuit breaker is open or the primary path fails, over the fallback (\<open>client/fallback.rs\<close>). Both speak one protocol of sealed frames (\<open>proto/\<close>): the client authenticates with an
  AUTH frame under its long-lived key, and both sides continue with a derived session key and a negotiated frame limit. On the server the listeners (\<open>server/wt.rs\<close>, \<open>server/fallback.rs\<close>) authenticate connections
  (\<open>server/mod.rs\<close>) behind a gate for unauthenticated ones (\<open>server/limit.rs\<close>) and hand the frames to the session engine (\<open>server/hub.rs\<close>), which admits sessions
  against quotas (\<open>server/state.rs\<close>), applies the egress policy, dials targets and pumps data. Time stamps come from a clock calibrated over HTTP (\<open>clock.rs\<close>).

  \<^bold>\<open>How code becomes definitions.\<close> Machine integers are words of their width (\<open>usize\<close> is \<open>nat\<close>), strings are lists of UTF-8 bytes, structs are records, enums are datatypes, and
  \<open>DashMap\<close>s are association lists. Fallible code returns a sum with the error on the left, and the question-mark operator is \<open>and_then\<close>. Stateful code passes its state explicitly. Clock readings, random
  numbers, what sockets deliver (as the list of the results of the reads) and accept (as a number of writes), the resolver, and third-party crates are arguments. An operation that waits for a reply is
  split at the wait. Tasks that run concurrently are interleaved by inductive step relations on the state they share.

  \<^bold>\<open>Shared theories.\<close> \<open>Prelude\<close> has the machine types, byte orders, strings, digits, maps, and the interface locales: \<open>prefix_codec\<close> and \<open>codec\<close> (what a decoder owes its encoder; interpreted
  for AUTH payloads, OPEN payloads and UDP addresses) and \<open>invariant_system\<close> (an invariant of a step relation holds in every reachable state; interpreted for the frame reader, the gate, the server's caches, the session
  quota, the whole server and the client's session counter). \<open>Text\<close> adds trimming, lines and substrings. \<open>Mux\<close> has the locale \<open>server_hooks\<close>, the contract between the multiplexer and the server
  behind it, interpreted for the session engine twice: once with the quota as the invariant and once with reachability in the server's transition system.

  \<^bold>\<open>Protocol.\<close>
  \<^item> \<open>Crypto\<close> (\<open>proto/crypto.rs\<close>): no AEAD nonce repeats within a session, the 64-bit replay window refines a filter with full memory, bearer tokens and AUTH payloads verify exactly when they should.
    The cryptographic crates are the record \<open>crypto_lib\<close>; its documented behaviour is the predicates \<open>aead_ok\<close>, \<open>aead_total\<close> and \<open>hmac_ok\<close>, and \<open>demo_lib\<close> satisfies them.
  \<^item> \<open>Frame\<close> (\<open>proto/frame.rs\<close>): any sequence of messages is decoded to itself however the bytes are cut; the replay window moves for authentic frames only; buffers are bounded.
  \<^item> \<open>Addr\<close> (\<open>proto/addr.rs\<close>): addresses survive the wire. \<open>Mux\<close>, \<open>Mux_Client\<close> (\<open>proto/mux.rs\<close>): session ids are fresh and their allocation ends, every OPEN is answered once, data reach the session they belong to,
    and the bytes of a user arrive in order.

  \<^bold>\<open>Server.\<close>
  \<^item> \<open>Limit\<close> (\<open>server/limit.rs\<close>): the gate's caps under any interleaving of its atomic actions. \<open>Float64\<close>, \<open>Rate\<close> (\<open>server/limit.rs\<close>): double-precision rounding, and that the token bucket keeps the rate
    up to an explicit rounding error and that waiting as long as it asks for is enough.
  \<^item> \<open>Server_State\<close>, \<open>Session_Quota\<close> (\<open>server/state.rs\<close>): the reaper is exact, caches are bounded, the session counter equals the number of registered sessions.
  \<^item> \<open>Egress\<close>, \<open>Hub\<close> (\<open>server/hub.rs\<close>): only public targets are contacted unless private ones are allowed, admission is exact, responses reach the client unchanged.
  \<^item> \<open>Server_Auth\<close> (\<open>server/mod.rs\<close>): an AUTH frame or bearer is accepted only with the right key, time and nonce, and only once; the graceful shutdown ends.
  \<^item> \<open>Server_Fallback\<close> (\<open>server/fallback.rs\<close>, \<open>proto/stream.rs\<close>): without authentication a peer sees the disguise page and leaves no trace.
  \<^item> \<open>Server_Wt\<close> (\<open>server/wt.rs\<close>): the listener, and the composition of everything that changes the server into one transition system (\<open>server_step\<close>), whose reachable states keep the quota; the tasks are shown to be its steps.

  \<^bold>\<open>Client.\<close>
  \<^item> \<open>Client_Fallback\<close> (\<open>client/fallback.rs\<close>), \<open>Client_Wt\<close> (\<open>client/wt.rs\<close>): on both transports client and server agree on keys and limits; a connection dies exactly after two periods without an answer; sessions per connection are capped.
  \<^item> \<open>Client_Pool\<close> (\<open>client/wt.rs\<close>): maintenance retires only surplus connections without sessions; the backoff doubles up to its maximum.
  \<^item> \<open>Outbound\<close> (\<open>client/outbound.rs\<close>): the cycle of the circuit breaker.
  \<^item> \<open>Sock_Io\<close>, \<open>Socks5\<close>, \<open>Http_Proxy\<close> (\<open>client/socks5.rs\<close>, \<open>client/http_proxy.rs\<close>): requests are served only with the configured credentials, reach the requested target, and are forwarded unchanged up to the proxy headers.

  \<^bold>\<open>Process.\<close>
  \<^item> \<open>Config\<close> (\<open>config.rs\<close>): accepted configurations are well formed; what the configuration file means and that the command line overrides it.
  \<^item> \<open>Clock\<close> (\<open>clock.rs\<close>): the date parser agrees with the Gregorian calendar counted day by day, and a calibrated clock reads the server's time.
  \<^item> \<open>Health\<close> (\<open>health.rs\<close>): a healthy process passes its own check.
  \<^item> \<open>Entry\<close> (\<open>main.rs\<close>, \<open>server/mod.rs\<close>, \<open>client/mod.rs\<close>, \<open>client/tls.rs\<close>, \<open>quic_tune.rs\<close>): a server that starts is well configured.
  \<^item> This theory: two command lines with the same user lead to a connection, from the configuration through the clocks to the handshake.

  \<^bold>\<open>Termination and bounds.\<close> Loops over received data recurse on the data; the decoder loops terminate because every frame shortens the buffer. The allocation of session ids may run forever in principle and is a
  \<open>partial_function\<close>; it is proved to return whenever fewer than \<open>2 ^ 32 - 1\<close> ids are in use. No definition uses fuel.

  \<^bold>\<open>Not modelled.\<close> The pumps hold references to rate limiters, whose waits are part of the times at which the pumps run; overflow, subnormal numbers and NaN of double-precision arithmetic. ECH GREASE (\<open>client/ech.rs\<close>) and the
  construction of TLS, HTTP and QUIC configurations (\<open>client/fallback.rs\<close>, \<open>client/wt.rs\<close>, \<open>quic_tune.rs\<close>, \<open>server/mod.rs\<close>) only call third-party crates. The disguise page is a constant. Binding sockets, accept loops
  that only spawn a handler, logging and the warnings of \<open>config.rs\<close> have no state of their own.
\<close>

section \<open>From the command lines to a connection\<close>

lemma new_pool_fields:
  assumes "new_pool L parse lookup set_host tls k url = Inr (cfg, resolver)"
  shows "pc_static_key cfg = derive_static_key L (cc_password k) (cc_uid k)" "pc_uid cfg = cc_uid k" "pc_max_plaintext cfg = cc_max_plaintext k"
  using assms by (auto simp: new_pool_def split: option.splits)

lemma uid_is_str: "list_all uid_char u \<Longrightarrow> is_str u"
proof (rule ascii_is_str)
  have "of_char c < (128 :: nat)" if "uid_char c" for c
    using that by (auto simp: uid_char_def is_ascii_alphanumeric_def is_ascii_digit_def is_ascii_alphabetic_def Let_def)
  then show "list_all uid_char u \<Longrightarrow> list_all (\<lambda>c. of_char c < (128 :: nat)) u" by (simp add: list_all_iff)
qed

lemma fresh_state:
  assumes "build_state L s = (st, gate)" "sc_users s = [(u, p)]"
  shows "st_static_keys st = [] @ (u, derive_static_key L p u) # []" "fst (check_and_remember_nonce now st uid nonce ts)"
  using assms by (auto simp: build_state_def user_keys_def check_and_remember_nonce_def dm_contains_def dm_retain_def Let_def const_defs)

lemma calibrated:
  assumes "off = T - sys_secs t" "0 \<le> t" "0 \<le> d" "0 \<le> T" "T + d < 2 ^ 64"
  shows "unat (now_unix (t + d) off) = nat (T + d)"
proof -
  have "now_unix (t + d) off = word_of_int (T + d)" using assms(1-4) by (simp add: now_unix_def sys_secs_def)
  moreover have "uint (word_of_int x :: u64) = x" if "0 \<le> x" "x < 2 ^ 64" for x
    using that by (simp add: unsigned_of_int take_bit_int_eq_self)
  moreover have "0 \<le> T + d" using assms(3,4) by simp
  ultimately show ?thesis using assms(5) by (simp only: unat_eq_nat_uint)
qed

section \<open>Properties\<close>

text \<open>
  C1. Matching command lines give a working connection. When a server starts from a command line with one user and a client from one with the same user and password,
  and both clocks were calibrated against sources that agree to within a minute's drift, however wrong the hosts' own clocks are, then the client's AUTH frame exists, the fresh
  server accepts it however it is cut into reads, and with the server's reply the client's connection is set up with the key and the limit the server uses.
\<close>

theorem configured_peers_connect:
  assumes "aead_ok L" "aead_total L" "hmac_ok L"
    and "server_config is_file sc = Inr s" "sc_users s = [(cc_uid k, cc_password k)]" "build_state L s = (st, gate)"
    and "client_config cc = Inr k" "new_pool L parse lookup set_host tls k url = Inr (cfg, resolver)"
    and "length (ar_salt R) = 16" "length (ar_nonce R) = 16" "length (ar_padding R) < PAD_MAX"
    and "sync_round qc oc = T - sys_secs tc" "0 \<le> tc" "ar_ts R = now_unix (tc + dc) (sync_round qc oc)"
    and "sync_round qs os = T' - sys_secs ts" "0 \<le> ts" "ae_unix A = now_unix (ts + ds) (sync_round qs os)"
    and "0 \<le> T" "0 \<le> T'" "0 \<le> dc" "0 \<le> ds" "T + dc < 2 ^ 64" "T' + ds < 2 ^ 64" "\<bar>(T + dc) - (T' + ds)\<bar> \<le> 60"
  shows "\<exists>wire e. wt_auth_frame L cfg R = (Inr wire, e) \<and>
    (\<forall>chunks. concat chunks = wire \<and> [] \<notin> set chunks \<longrightarrow>
      (\<exists>wc reply st'. wt_handshake L A (st, gate) ip True False (map Inr chunks) True = (Some (wc, reply), st', drop_ip_guard gate ip) \<and>
        (\<forall>net rs. wn_connect net = (\<lambda>_ _. Ready) \<and> wn_stream net = Ready \<and> wn_written net \<and> \<not> wn_timed_out net \<and>
           wn_reads net = map Inr rs \<and> concat rs = reply \<and> [] \<notin> set rs \<longrightarrow>
           (\<exists>c d src. wt_connect L cfg B R r net = Inr (c, d, src) \<and> cx_alive c \<and>
              dec_cipher d = Some (enc_cipher (wc_writer wc)) \<and> dec_cipher (wc_reader wc) = Some (cx_cipher c) \<and>
              dec_limit (wc_reader wc) = cx_limit c))))"
proof -
  note pool = new_pool_fields [OF assms(8)] and fresh = fresh_state [OF assms(6,5)]
  have ok: "outbound_ok (as_outbound cfg) R"
    using client_config_ok [OF assms(7)] uid_is_str [of "cc_uid k"] assms(9-11)
    by (simp add: outbound_ok_def client_cfg_ok_def user_ok_def pool)
  obtain wire e where w: "wt_auth_frame L cfg R = (Inr wire, e)"
    using wt_auth_frame_exists [OF assms(2,3) ok] by blast
  have t: "unat (ae_unix A) \<le> unat (ar_ts R) + 60" "unat (ar_ts R) \<le> unat (ae_unix A) + 60"
    using calibrated [OF assms(12,13,20,18,22)] calibrated [OF assms(15,16,21,19,23)] assms(14,17,24) by auto
  have keys: "st_static_keys st = [] @ (pc_uid cfg, pc_static_key cfg) # []" using fresh(1) by (simp add: pool)
  have "\<exists>wc reply st'. wt_handshake L A (st, gate) ip True False (map Inr chunks) True = (Some (wc, reply), st', drop_ip_guard gate ip) \<and>
        (\<forall>net rs. wn_connect net = (\<lambda>_ _. Ready) \<and> wn_stream net = Ready \<and> wn_written net \<and> \<not> wn_timed_out net \<and>
           wn_reads net = map Inr rs \<and> concat rs = reply \<and> [] \<notin> set rs \<longrightarrow>
           (\<exists>c d src. wt_connect L cfg B R r net = Inr (c, d, src) \<and> cx_alive c \<and>
              dec_cipher d = Some (enc_cipher (wc_writer wc)) \<and> dec_cipher (wc_reader wc) = Some (cx_cipher c) \<and>
              dec_limit (wc_reader wc) = cx_limit c))" if "concat chunks = wire" "[] \<notin> set chunks" for chunks
    using wt_handshake_completes [OF assms(1-3) ok w keys _ fresh(2) t that, of gate ip B r] by simp blast
  with w show ?thesis by blast
qed

theorem configured_peers_connect_witness:
  "\<exists>s k st gate cfg resolver wire e. server_config (\<lambda>_. False) demo_cli = Inr s \<and> client_config demo_cli = Inr k \<and> build_state demo_lib s = (st, gate) \<and>
     new_pool demo_lib (\<lambda>_. None) (\<lambda>_ _. None) (\<lambda>u _. Inr u) (\<lambda>_ _. Inr ()) k ''https://s/'' = Inr (cfg, resolver) \<and>
     wt_auth_frame demo_lib cfg demo_random = (Inr wire, e) \<and>
     (\<forall>chunks. concat chunks = wire \<and> [] \<notin> set chunks \<longrightarrow>
        fst (wt_handshake demo_lib demo_accept (st, gate) (IpV4 1) True False (map Inr chunks) True) \<noteq> None)"
proof -
  obtain s where s: "server_config (\<lambda>_. False) demo_cli = Inr s" "sc_users s = [(''u'', ''p'')]" using demo_server_config by blast
  obtain k where k: "client_config demo_cli = Inr k" "cc_uid k = ''u''" "cc_password k = ''p''" "cc_sni k = None"
    by (simp add: client_config_def demo_cli_def demo_auth recv_window_bytes_def max_frame_bytes_def ensure_def validate_pin_def validate_sni_def const_defs)
  obtain st gate where b: "build_state demo_lib s = (st, gate)" by fastforce
  obtain cfg where p: "new_pool demo_lib (\<lambda>_. None) (\<lambda>_ _. None) (\<lambda>u _. Inr u) (\<lambda>_ _. Inr ()) k ''https://s/'' = Inr (cfg, None)"
    using k(4) by (simp add: new_pool_def)
  have u: "sc_users s = [(cc_uid k, cc_password k)]" using s(2) k by simp
  have r: "length (ar_salt demo_random) = 16" "length (ar_nonce demo_random) = 16" "length (ar_padding demo_random) < PAD_MAX"
    "ar_ts demo_random = 77" "ae_unix demo_accept = 100"
    by (simp_all add: demo_random_def demo_accept_def const_defs)
  have q: "sync_round (\<lambda>_. Inr (T - t) :: unit + int) 0 = T - sys_secs t" if "0 \<le> t" for t T
    using that by (simp add: sync_round_def const_defs upt_rec sys_secs_def)
  have c: "77 = now_unix (7 + 0) (sync_round (\<lambda>_. Inr (77 - 7) :: unit + int) 0)" "100 = now_unix (5000 + 0) (sync_round (\<lambda>_. Inr (100 - 5000) :: unit + int) 0)"
    by (simp_all add: now_unix_def sys_secs_def sync_round_def const_defs upt_rec)
  have "\<exists>wire e. wt_auth_frame demo_lib cfg demo_random = (Inr wire, e) \<and> (\<forall>chunks. concat chunks = wire \<and> [] \<notin> set chunks \<longrightarrow>
      fst (wt_handshake demo_lib demo_accept (st, gate) (IpV4 1) True False (map Inr chunks) True) \<noteq> None)"
    using configured_peers_connect [OF demo_lib_ok s(1) u b k(1) p r(1-3) q [of 7 77] _ r(4) [unfolded c(1)] q [of 5000 100] _ r(5) [unfolded c(2)], of "IpV4 1"]
    by fastforce
  with s k b p show ?thesis by blast
qed

end
